(* ===== verification/Prelude.thy ===== *)
theory Prelude
  imports Main "HOL-Library.Char_ord" "HOL-Library.List_Lexorder" "HOL-Library.Sublist"
    "HOL-Library.Word"
begin

text \<open>
  Shared vocabulary of the development: the error type that stands for \<open>anyhow::Error\<close>,
  the sequencing combinators for fallible and for fallible and stateful code, the ordered
  maps of Rust's \<open>BTreeMap\<close>, and the generic list lemmas and hint collections the component
  theories use.
\<close>

named_theorems unfold_ops \<open>definitions of the operations of a component, for unfolding in its invariant proofs\<close>
named_theorems frame \<open>what an operation leaves alone\<close>
named_theorems inv_intros \<open>an operation keeps the invariant of its component\<close>

section \<open>Errors and sequencing\<close>

text \<open>
  \<open>anyhow::Error\<close>: a message, wrapped in the contexts added on the way out, outermost first.
  \<open>show_error\<close> is the alternate rendering \<open>{e:#}\<close> the daemon uses everywhere it prints one.
\<close>

datatype error = Msg string | Context string error

primrec show_error :: "error \<Rightarrow> string" where
  "show_error (Msg m) = m"
| "show_error (Context c e) = c @ '': '' @ show_error e"

type_synonym 'a result = "error + 'a"

text \<open>\<open>Result::and_then\<close>, i.e. the \<open>?\<close> operator on a pure computation.\<close>

definition bind_ok :: "('e + 'a) \<Rightarrow> ('a \<Rightarrow> 'e + 'b) \<Rightarrow> 'e + 'b" where
  "bind_ok r f = (case r of Inl e \<Rightarrow> Inl e | Inr x \<Rightarrow> f x)"

text \<open>
  Stateful code: an operation returns its result and the state it leaves behind, on the error
  paths too, because Rust does not roll back what was done before an early return.
  \<open>and_then\<close> is the \<open>?\<close> operator between two such operations.
\<close>

type_synonym ('s, 'a) action = "'s \<Rightarrow> 'a result \<times> 's"

definition and_then :: "('s, 'a) action \<Rightarrow> ('a \<Rightarrow> ('s, 'b) action) \<Rightarrow> ('s, 'b) action" where
  "and_then m f s = (case m s of (Inl e, s') \<Rightarrow> (Inl e, s') | (Inr x, s') \<Rightarrow> f x s')"

definition succeed :: "'a \<Rightarrow> ('s, 'a) action" where
  "succeed x s = (Inr x, s)"

definition fail :: "error \<Rightarrow> ('s, 'a) action" where
  "fail e s = (Inl e, s)"

text \<open>A \<open>for\<close> loop whose body may leave the function with an error.\<close>

fun for_each :: "('a \<Rightarrow> ('s, unit) action) \<Rightarrow> 'a list \<Rightarrow> ('s, unit) action" where
  "for_each f [] s = (Inr (), s)"
| "for_each f (x # xs) s = and_then (f x) (\<lambda>_. for_each f xs) s"

text \<open>A loop that collects results and stops at the first error.\<close>

primrec collect :: "('a \<Rightarrow> 'e + 'b) \<Rightarrow> 'a list \<Rightarrow> 'e + 'b list" where
  "collect f [] = Inr []"
| "collect f (x # xs) = bind_ok (f x) (\<lambda>y. bind_ok (collect f xs) (\<lambda>ys. Inr (y # ys)))"

lemma bind_ok_simps [simp]:
  "bind_ok (Inl e) f = Inl e"
  "bind_ok (Inr x) f = f x"
  by (simp_all add: bind_ok_def)

lemma bind_ok_eq_Inr [simp]:
  "bind_ok r f = Inr y \<longleftrightarrow> (\<exists>x. r = Inr x \<and> f x = Inr y)"
  by (cases r) auto

lemma bind_ok_eq_Inl:
  "bind_ok r f = Inl e \<longleftrightarrow> r = Inl e \<or> (\<exists>x. r = Inr x \<and> f x = Inl e)"
  by (cases r) auto

lemma collect_Inr: "(\<And>x. x \<in> set xs \<Longrightarrow> f x = Inr (g x)) \<Longrightarrow> collect f xs = Inr (map g xs)"
  by (induction xs) auto

lemma collect_cong [fundef_cong]:
  "xs = ys \<Longrightarrow> (\<And>x. x \<in> set ys \<Longrightarrow> f x = g x) \<Longrightarrow> collect f xs = collect g ys"
  by (induction ys arbitrary: xs) auto

lemma collect_eq_Inr: "collect f xs = Inr ys \<longleftrightarrow> list_all2 (\<lambda>x y. f x = Inr y) xs ys"
  by (induction xs arbitrary: ys) (auto simp: list_all2_Cons1)

lemma and_then_simps [simp]:
  "m s = (Inl e, s') \<Longrightarrow> and_then m f s = (Inl e, s')"
  "m s = (Inr x, s') \<Longrightarrow> and_then m f s = f x s'"
  by (simp_all add: and_then_def)

lemma and_then_Inr:
  "and_then m f s = (Inr y, t) \<longleftrightarrow> (\<exists>x u. m s = (Inr x, u) \<and> f x u = (Inr y, t))"
  by (auto simp: and_then_def split: prod.splits sum.splits)

lemma succeed_fail [simp]:
  "and_then (succeed x) f s = f x s"
  "and_then (fail e) f s = (Inl e, s)"
  by (simp_all add: succeed_def fail_def)

text \<open>
  A predicate on states that every step of a sequence keeps is kept by the sequence, whether
  it ends in a result or in an error.
\<close>

definition keeps :: "('s \<Rightarrow> bool) \<Rightarrow> ('s, 'a) action \<Rightarrow> bool" where
  "keeps P m \<longleftrightarrow> (\<forall>s. P s \<longrightarrow> P (snd (m s)))"

lemma keepsI [intro?]: "(\<And>s. P s \<Longrightarrow> P (snd (m s))) \<Longrightarrow> keeps P m"
  by (simp add: keeps_def)

lemma keepsD: "keeps P m \<Longrightarrow> P s \<Longrightarrow> P (snd (m s))"
  by (simp add: keeps_def)

lemma keeps_and_then:
  assumes "keeps P m" and "\<And>x. keeps P (f x)"
  shows "keeps P (and_then m f)"
proof
  fix s assume "P s"
  then have "P (snd (m s))" by (rule keepsD [OF assms(1)])
  then show "P (snd (and_then m f s))"
    using keepsD [OF assms(2)]
    by (auto simp: and_then_def split: prod.splits sum.splits)
qed

lemma keeps_succeed [simp]: "keeps P (succeed x)"
  by (simp add: keeps_def succeed_def)

lemma keeps_fail [simp]: "keeps P (fail e)"
  by (simp add: keeps_def fail_def)

lemma keeps_for_each:
  assumes "\<And>x. x \<in> set xs \<Longrightarrow> keeps P (f x)"
  shows "keeps P (for_each f xs)"
  using assms
proof (induction xs)
  case Nil
  show ?case by (rule keepsI) simp
next
  case (Cons x xs)
  have "keeps P (and_then (f x) (\<lambda>_. for_each f xs))"
    by (rule keeps_and_then) (use Cons in auto)
  then show ?case by (simp add: keeps_def)
qed

section \<open>Ordered maps\<close>

text \<open>
  A \<open>BTreeMap\<close> is the list of its entries in strictly ascending key order, which is the order
  it iterates in. Insertion replaces the value of a key that is already there.
\<close>

type_synonym ('k, 'v) btree = "('k \<times> 'v) list"

fun bt_insert :: "'k::linorder \<Rightarrow> 'v \<Rightarrow> ('k, 'v) btree \<Rightarrow> ('k, 'v) btree" where
  "bt_insert k v [] = [(k, v)]"
| "bt_insert k v ((k', v') # m) =
     (if k < k' then (k, v) # (k', v') # m
      else if k = k' then (k, v) # m
      else (k', v') # bt_insert k v m)"

abbreviation bt_get :: "('k, 'v) btree \<Rightarrow> 'k \<Rightarrow> 'v option" where
  "bt_get \<equiv> map_of"

abbreviation bt_ok :: "('k::linorder, 'v) btree \<Rightarrow> bool" where
  "bt_ok m \<equiv> sorted_wrt (<) (map fst m)"

text \<open>Collecting pairs into a map: later entries win.\<close>

definition bt_collect :: "('k::linorder \<times> 'v) list \<Rightarrow> ('k, 'v) btree" where
  "bt_collect kvs = fold (\<lambda>(k, v). bt_insert k v) kvs []"

lemma bt_get_insert [simp]: "bt_get (bt_insert k v m) = (bt_get m)(k \<mapsto> v)"
  by (induction m) auto

lemma keys_bt_insert [simp]: "fst ` set (bt_insert k v m) = insert k (fst ` set m)"
proof (induction m)
  case (Cons kv m)
  then show ?case by (cases kv) (auto simp del: image_insert simp: image_def)
qed simp

lemma bt_ok_insert [intro]: "bt_ok m \<Longrightarrow> bt_ok (bt_insert k v m)"
proof (induction m)
  case (Cons kv m)
  moreover have "x \<in> fst ` set (bt_insert k v m) \<Longrightarrow> x = k \<or> x \<in> fst ` set m" for x
    by simp
  ultimately show ?case by (cases kv) (fastforce)
qed simp

lemma bt_ok_distinct: "bt_ok m \<Longrightarrow> distinct (map fst m)"
  by (simp add: strict_sorted_iff)

lemma bt_ok_collect [simp, intro]: "bt_ok (bt_collect kvs)"
proof -
  have "bt_ok m \<Longrightarrow> bt_ok (fold (\<lambda>(k, v). bt_insert k v) kvs m)" for m :: "('a, 'b) btree"
    by (induction kvs arbitrary: m) auto
  then show ?thesis by (simp add: bt_collect_def)
qed

text \<open>Two ordered maps with the same entries are the same list.\<close>

lemma bt_ok_unique:
  assumes "bt_ok m" and "bt_ok n" and "bt_get m = bt_get n"
  shows "m = n"
proof (rule map_sorted_distinct_set_unique [where f = fst])
  from assms have "distinct (map fst m)" "distinct (map fst n)"
    by (simp_all add: bt_ok_distinct)
  then show "set m = set n"
    by (metis assms(3) map_of_eqI map_of_inject_set)
  show "sorted (map fst m)" "sorted (map fst n)"
    using assms by (simp_all add: strict_sorted_iff)
  show "distinct (map fst m)" "distinct (map fst n)" by fact+
  show "inj_on fst (set m \<union> set n)"
    using \<open>set m = set n\<close> \<open>distinct (map fst m)\<close> by (simp add: distinct_map)
qed

section \<open>List lemmas\<close>

lemma filter_empty_iff: "filter P xs = [] \<longleftrightarrow> (\<forall>x \<in> set xs. \<not> P x)"
  by (induction xs) auto

lemma take_filter_subset: "set (take n (filter P xs)) \<subseteq> {x \<in> set xs. P x}"
  by (auto dest: in_set_takeD)

lemma find_None_iff_filter: "List.find P xs = None \<longleftrightarrow> filter P xs = []"
  by (induction xs) auto

section \<open>Encodings\<close>

text \<open>
  The contract of an encoder whose output something else reads back: on the inputs it is meant
  for, the decoder returns what went in. An encoder with such a decoder never maps two different
  inputs to one output.
\<close>

locale codec =
  fixes enc :: "'a \<Rightarrow> 'b" and dec :: "'b \<Rightarrow> 'a option" and good :: "'a \<Rightarrow> bool"
  assumes dec_enc: "good x \<Longrightarrow> dec (enc x) = Some x"
begin

lemma enc_eq_iff: "good x \<Longrightarrow> good y \<Longrightarrow> enc x = enc y \<longleftrightarrow> x = y"
  using dec_enc by (metis option.inject)

lemma enc_inj_on: "inj_on enc {x. good x}"
  by (auto simp: inj_on_def enc_eq_iff)

end

end
