(* ===== verification/Table.thy ===== *)
theory Table
  imports Prelude "HOL-Library.Product_Lexorder"
begin

text \<open>
  Tables of an SQL database as the list of their rows in rowid order, with the statement forms the
  store uses: a lookup by primary key, \<open>INSERT ... ON CONFLICT DO UPDATE\<close>, \<open>UPDATE ... WHERE\<close>, and
  \<open>SELECT ... ORDER BY ... LIMIT\<close>. The locales \<open>key_value\<close> and \<open>simulation\<close>
  are the contracts of a table with a primary key and of writes that refine a specification.
\<close>

section \<open>Statement forms\<close>

definition row_at :: "('r \<Rightarrow> 'k) \<Rightarrow> 'k \<Rightarrow> 'r list \<Rightarrow> 'r option" where
  "row_at key k t = List.find (\<lambda>r. key r = k) t"

definition update_rows :: "('r \<Rightarrow> bool) \<Rightarrow> ('r \<Rightarrow> 'r) \<Rightarrow> 'r list \<Rightarrow> 'r list" where
  "update_rows P f t = map (\<lambda>r. if P r then f r else r) t"

text \<open>Insert a row, or update the row that has its key.\<close>

definition upsert :: "('r \<Rightarrow> 'k) \<Rightarrow> 'r \<Rightarrow> ('r \<Rightarrow> 'r) \<Rightarrow> 'r list \<Rightarrow> 'r list" where
  "upsert key new f t =
     (if row_at key (key new) t = None then t @ [new]
      else update_rows (\<lambda>r. key r = key new) f t)"

text \<open>A fresh rowid is one more than the largest in the table.\<close>

definition next_rowid :: "('r \<Rightarrow> int) \<Rightarrow> 'r list \<Rightarrow> int" where
  "next_rowid rid t = (if t = [] then 1 else Max (rid ` set t) + 1)"

text \<open>\<open>ORDER BY\<close> ascending and descending.\<close>

definition order_by :: "('r \<Rightarrow> 'o::linorder) \<Rightarrow> 'r list \<Rightarrow> 'r list" where
  "order_by f t = sort_key f t"

definition order_desc :: "('r \<Rightarrow> 'o::linorder) \<Rightarrow> 'r list \<Rightarrow> 'r list" where
  "order_desc f t = rev (sort_key f t)"

section \<open>Their laws\<close>

lemma row_at_Nil [simp]: "row_at key k [] = None"
  by (simp add: row_at_def)

lemma row_at_Cons [simp]: "row_at key k (r # t) = (if key r = k then Some r else row_at key k t)"
  by (simp add: row_at_def)

lemma row_at_append: "row_at key k (t @ u) = (case row_at key k t of None \<Rightarrow> row_at key k u | Some r \<Rightarrow> Some r)"
  by (induction t) simp_all

lemma row_at_SomeD: "row_at key k t = Some r \<Longrightarrow> r \<in> set t \<and> key r = k"
  by (induction t) (auto split: if_splits)

lemma row_at_None: "row_at key k t = None \<longleftrightarrow> k \<notin> key ` set t"
  by (induction t) auto

lemma row_at_member: "distinct (map key t) \<Longrightarrow> r \<in> set t \<Longrightarrow> row_at key (key r) t = Some r"
  by (induction t) (auto simp: image_iff)

lemma row_at_update:
  assumes "\<And>r. P r \<Longrightarrow> key (f r) = key r"
  shows "row_at key k (update_rows P f t) = map_option (\<lambda>r. if P r then f r else r) (row_at key k t)"
proof (induction t)
  case (Cons a t)
  have "key (if P a then f a else a) = key a" using assms [of a] by simp
  moreover have "update_rows P f (a # t) = (if P a then f a else a) # update_rows P f t"
    by (simp add: update_rows_def)
  ultimately show ?case
    using Cons.IH by (cases "key a = k") (simp_all only: row_at_Cons option.map if_True if_False simp_thms)
qed (simp add: update_rows_def)

lemma map_key_update: "(\<And>r. P r \<Longrightarrow> key (f r) = key r) \<Longrightarrow> map key (update_rows P f t) = map key t"
proof (induction t)
  case (Cons a t)
  have "key (if P a then f a else a) = key a" using Cons.prems [of a] by simp
  moreover have "map key (update_rows P f t) = map key t" by (rule Cons.IH [OF Cons.prems])
  ultimately show ?case by (simp only: update_rows_def list.map)
qed (simp add: update_rows_def)

lemma row_at_update_key:
  assumes "\<And>r. key (f r) = key r"
  shows "row_at key k (update_rows (\<lambda>r. key r = j) f t)
    = (if k = j then map_option f (row_at key k t) else row_at key k t)"
    "row_at key k (update_rows (\<lambda>r. key r = j \<and> Q r) f t)
    = (if k = j then map_option (\<lambda>r. if Q r then f r else r) (row_at key k t) else row_at key k t)"
proof -
  have row: "key r = k" if "row_at key k t = Some r" for r using row_at_SomeD [OF that] by simp
  have "row_at key k (update_rows (\<lambda>r. key r = j) f t)
      = map_option (\<lambda>r. if key r = j then f r else r) (row_at key k t)"
    by (rule row_at_update) (rule assms)
  then show "row_at key k (update_rows (\<lambda>r. key r = j) f t)
    = (if k = j then map_option f (row_at key k t) else row_at key k t)"
    using row by (cases "row_at key k t"; cases "k = j") simp_all
  have "row_at key k (update_rows (\<lambda>r. key r = j \<and> Q r) f t)
      = map_option (\<lambda>r. if key r = j \<and> Q r then f r else r) (row_at key k t)"
    by (rule row_at_update) (rule assms)
  then show "row_at key k (update_rows (\<lambda>r. key r = j \<and> Q r) f t)
    = (if k = j then map_option (\<lambda>r. if Q r then f r else r) (row_at key k t) else row_at key k t)"
    using row by (cases "row_at key k t"; cases "k = j") simp_all
qed

lemma row_at_ex:
  "distinct (map key t) \<Longrightarrow> list_ex (\<lambda>row. key row = k \<and> Q row) t
     \<longleftrightarrow> (case row_at key k t of Some row \<Rightarrow> Q row | None \<Rightarrow> False)"
proof (induction t)
  case (Cons a t)
  show ?case
  proof (cases "key a = k")
    case True
    then have "key row \<noteq> k" if "row \<in> set t" for row using Cons.prems that by (auto simp: image_iff)
    with True show ?thesis by (auto simp: list_ex_iff)
  next
    case False
    with Cons show ?thesis by simp
  qed
qed simp

lemma row_at_upsert:
  assumes "\<And>r. key (f r) = key r"
  shows "row_at key k (upsert key new f t) =
    (if k = key new then Some (case row_at key k t of None \<Rightarrow> new | Some r \<Rightarrow> f r) else row_at key k t)"
proof (cases "row_at key (key new) t")
  case None
  then show ?thesis by (simp add: upsert_def row_at_append split: option.split)
next
  case (Some r)
  have u: "upsert key new f t = update_rows (\<lambda>r. key r = key new) f t" by (simp add: upsert_def Some)
  have "row_at key k (update_rows (\<lambda>r. key r = key new) f t)
      = map_option (\<lambda>r. if key r = key new then f r else r) (row_at key k t)"
    by (rule row_at_update) (rule assms)
  then show ?thesis
    using row_at_SomeD [of key k t] Some by (cases "row_at key k t") (auto simp: u)
qed

lemma distinct_upsert:
  assumes "\<And>r. key (f r) = key r" "distinct (map key t)"
  shows "distinct (map key (upsert key new f t))"
proof (cases "row_at key (key new) t")
  case None
  with assms(2) show ?thesis by (simp add: upsert_def row_at_None)
next
  case (Some r)
  have "map key (update_rows (\<lambda>r. key r = key new) f t) = map key t"
    by (rule map_key_update) (rule assms(1))
  with assms(2) Some show ?thesis by (simp add: upsert_def)
qed

lemma set_upsert: "r \<in> set (upsert key new f t) \<Longrightarrow> r = new \<or> r \<in> set t \<or> (\<exists>q \<in> set t. key q = key new \<and> r = f q)"
  by (auto simp: upsert_def update_rows_def split: if_splits)

lemma set_update: "r \<in> set (update_rows P f t) \<Longrightarrow> r \<in> set t \<or> (\<exists>q \<in> set t. P q \<and> r = f q)"
  by (auto simp: update_rows_def split: if_splits)

lemma set_order [simp]: "set (order_by f t) = set t" "set (order_desc g t) = set t"
  by (simp_all add: order_by_def order_desc_def)

lemma sorted_order:
  "sorted_wrt (\<lambda>r q. f r \<le> f q) (order_by f t)"
  "sorted_wrt (\<lambda>r q. g q \<le> g r) (order_desc g t)"
  using sorted_sort_key [of f t] sorted_sort_key [of g t]
  by (simp_all add: order_by_def order_desc_def sorted_wrt_map sorted_wrt_rev)

text \<open>
  \<open>ORDER BY ... LIMIT n\<close> on rows with different sort keys returns the \<open>n\<close> largest: every row it
  leaves out comes before every row it returns.
\<close>

lemma limit_newest:
  assumes "r \<in> set (take n (order_desc f t))" "q \<in> set t" "q \<notin> set (take n (order_desc f t))"
  shows "f q \<le> f r"
proof -
  have "q \<in> set (drop n (order_desc f t))"
    using assms(2,3) by (metis Un_iff append_take_drop_id set_append set_order(2))
  moreover have "sorted_wrt (\<lambda>r q. f q \<le> f r) (take n (order_desc f t) @ drop n (order_desc f t))"
    using sorted_order(2) by (metis append_take_drop_id)
  ultimately show ?thesis using assms(1) unfolding sorted_wrt_append by blast
qed

text \<open>Two tables with the same rows are ordered the same when the sort keys are all different.\<close>

lemma order_by_map: "(\<And>r. r \<in> set t \<Longrightarrow> g (h r) = f r) \<Longrightarrow> order_by g (map h t) = map h (order_by f t)"
proof (induction t)
  case (Cons a t)
  have ins: "insort_key g (h a) (map h u) = map h (insort_key f a u)"
    if "\<And>r. r \<in> set (a # u) \<Longrightarrow> g (h r) = f r" for u
    using that by (induction u) auto
  have "insort_key g (h a) (map h (sort_key f t)) = map h (insort_key f a (sort_key f t))"
    by (rule ins) (use Cons.prems in auto)
  with Cons show ?case by (simp add: order_by_def)
qed (simp add: order_by_def)

lemma order_desc_map: "(\<And>r. r \<in> set t \<Longrightarrow> g (h r) = f r) \<Longrightarrow> order_desc g (map h t) = map h (order_desc f t)"
  using order_by_map [of t g h f] by (simp add: order_desc_def order_by_def rev_map)

section \<open>The contract of a keyed store\<close>

text \<open>
  What a component that reads back what it wrote relies on. \<open>get\<close> looks a key up, \<open>put\<close> writes a
  value; \<open>good\<close> says which states and values the contract is about.
\<close>

locale key_value =
  fixes get :: "'k \<Rightarrow> 's \<Rightarrow> 'v option"
    and put :: "'k \<Rightarrow> 'v \<Rightarrow> 's \<Rightarrow> 's"
    and good :: "'s \<Rightarrow> bool"
    and allowed :: "'k \<Rightarrow> 'v \<Rightarrow> bool"
  assumes get_put_same: "good s \<Longrightarrow> allowed k v \<Longrightarrow> get k (put k v s) = Some v"
    and get_put_other: "good s \<Longrightarrow> allowed k v \<Longrightarrow> k' \<noteq> k \<Longrightarrow> get k' (put k v s) = get k' s"
    and put_good: "good s \<Longrightarrow> allowed k v \<Longrightarrow> good (put k v s)"
begin

lemma get_put: "good s \<Longrightarrow> allowed k v \<Longrightarrow> get k' (put k v s) = (if k' = k then Some v else get k' s)"
  by (simp add: get_put_same get_put_other)

lemma get_put_put:
  "good s \<Longrightarrow> allowed k v \<Longrightarrow> allowed k w \<Longrightarrow> get k' (put k w (put k v s)) = get k' (put k w s)"
  by (simp add: get_put put_good)

lemma get_put_swap:
  "good s \<Longrightarrow> allowed k v \<Longrightarrow> allowed j w \<Longrightarrow> k \<noteq> j
   \<Longrightarrow> get k' (put j w (put k v s)) = get k' (put k v (put j w s))"
  by (simp add: get_put put_good)

text \<open>A run of writes leaves, for each key, the last value written to it.\<close>

lemma get_puts:
  "good s \<Longrightarrow> list_all (\<lambda>(k, v). allowed k v) kvs
   \<Longrightarrow> get k (fold (\<lambda>(k, v). put k v) kvs s)
     = (case map_of (rev kvs) k of Some v \<Rightarrow> Some v | None \<Rightarrow> get k s)
     \<and> good (fold (\<lambda>(k, v). put k v) kvs s)"
proof (induction kvs arbitrary: s)
  case (Cons kv kvs)
  then show ?case
    by (cases kv) (auto simp: get_put put_good map_add_def split: option.splits)
qed simp

end

section \<open>The contract of a refined component\<close>

text \<open>
  Detailed steps that abstract to specified ones: then runs abstract to runs, and what holds of
  the abstraction after every specified run holds after every detailed one.
\<close>

locale simulation =
  fixes step :: "'w \<Rightarrow> 's \<Rightarrow> 's"
    and spec :: "'w \<Rightarrow> 'a \<Rightarrow> 'a"
    and abstraction :: "'s \<Rightarrow> 'a"
    and inv :: "'s \<Rightarrow> bool"
    and legal :: "'w \<Rightarrow> bool"
  assumes simulates: "inv s \<Longrightarrow> legal w \<Longrightarrow> abstraction (step w s) = spec w (abstraction s)"
    and preserves: "inv s \<Longrightarrow> legal w \<Longrightarrow> inv (step w s)"
begin

lemma run_inv: "inv s \<Longrightarrow> list_all legal ws \<Longrightarrow> inv (fold step ws s)"
  by (induction ws arbitrary: s) (simp_all add: preserves)

lemma run_simulates:
  "inv s \<Longrightarrow> list_all legal ws \<Longrightarrow> abstraction (fold step ws s) = fold spec ws (abstraction s)"
  by (induction ws arbitrary: s) (simp_all add: preserves simulates)

lemma run_property:
  assumes "\<And>w a. legal w \<Longrightarrow> P a \<Longrightarrow> P (spec w a)"
  shows "inv s \<Longrightarrow> list_all legal ws \<Longrightarrow> P (abstraction s) \<Longrightarrow> P (abstraction (fold step ws s))"
  using assms by (induction ws arbitrary: s) (simp_all add: preserves simulates)

end

end
