(* ===== verification/Rust_Text.thy ===== *)
theory Rust_Text
  imports Prelude
begin

text \<open>
  The string functions of Rust's standard library that the daemon uses. A \<open>String\<close> is the list
  of its UTF-8 bytes (an Isabelle \<open>char\<close> is one byte), which is also what Rust and SQLite
  compare; \<open>chars\<close> decodes it to Unicode scalar values where the code works on characters.
\<close>

section \<open>UTF-8\<close>

abbreviation byte :: "nat \<Rightarrow> char" where
  "byte n \<equiv> char_of n"

abbreviation byte_val :: "char \<Rightarrow> nat" where
  "byte_val c \<equiv> of_char c"

definition utf8_char :: "nat \<Rightarrow> string" where
  "utf8_char c =
     (if c < 0x80 then [byte c]
      else if c < 0x800 then [byte (0xC0 + c div 64), byte (0x80 + c mod 64)]
      else if c < 0x10000
      then [byte (0xE0 + c div 4096), byte (0x80 + c div 64 mod 64), byte (0x80 + c mod 64)]
      else [byte (0xF0 + c div 262144), byte (0x80 + c div 4096 mod 64),
            byte (0x80 + c div 64 mod 64), byte (0x80 + c mod 64)])"

definition utf8 :: "nat list \<Rightarrow> string" where
  "utf8 cs = concat (map utf8_char cs)"

text \<open>
  The decoder, \<open>str::chars\<close>. It is meant for valid UTF-8, which every Rust string is; what it
  returns on other byte lists does not matter.
\<close>

fun chars :: "string \<Rightarrow> nat list" where
  "chars [] = []"
| "chars (a # r) =
     (let n = byte_val a in
      if n < 0xC0 then n # chars r
      else if n < 0xE0 then
        (case r of b # r' \<Rightarrow> ((n - 0xC0) * 64 + (byte_val b - 0x80)) # chars r' | _ \<Rightarrow> [])
      else if n < 0xF0 then
        (case r of b # c # r' \<Rightarrow>
           ((n - 0xE0) * 4096 + (byte_val b - 0x80) * 64 + (byte_val c - 0x80)) # chars r'
         | _ \<Rightarrow> [])
      else
        (case r of b # c # d # r' \<Rightarrow>
           ((n - 0xF0) * 262144 + (byte_val b - 0x80) * 4096 + (byte_val c - 0x80) * 64
             + (byte_val d - 0x80)) # chars r'
         | _ \<Rightarrow> []))"

definition scalar :: "nat \<Rightarrow> bool" where
  "scalar c \<longleftrightarrow> c < 0xD800 \<or> 0xE000 \<le> c \<and> c < 0x110000"

text \<open>Validity as \<open>String::from_utf8\<close> checks it: no overlong forms, no surrogates.\<close>

definition valid_utf8 :: "string \<Rightarrow> bool" where
  "valid_utf8 s \<longleftrightarrow> list_all scalar (chars s) \<and> utf8 (chars s) = s"

lemma utf8_Nil [simp]: "utf8 [] = []"
  by (simp add: utf8_def)

lemma utf8_Cons [simp]: "utf8 (c # cs) = utf8_char c @ utf8 cs"
  by (simp add: utf8_def)

lemma utf8_append [simp]: "utf8 (cs @ ds) = utf8 cs @ utf8 ds"
  by (simp add: utf8_def)

lemma utf8_char_nonempty [simp]: "utf8_char c \<noteq> []"
  by (simp add: utf8_char_def)

lemma byte_val_byte [simp]: "n < 256 \<Longrightarrow> byte_val (byte n) = (n::nat)"
  by (simp add: of_char_of take_bit_eq_mod)

lemma continuation [simp]: "byte_val (byte (0x80 + n mod 64)) - 0x80 = (n::nat) mod 64"
  by (subst byte_val_byte) (simp_all add: less_trans [OF mod_less_divisor])

lemma base64_split3: "c div 4096 * 4096 + c div 64 mod 64 * 64 + c mod 64 = (c::nat)"
proof -
  have regroup: "a * 4096 + b * 64 + r = (a * 64 + b) * 64 + r" for a b r :: nat by simp
  have "c div 4096 = c div 64 div 64" by (simp add: div_mult2_eq [symmetric])
  then show ?thesis by (simp only: regroup div_mult_mod_eq)
qed

lemma base64_split4:
  "c div 262144 * 262144 + c div 4096 mod 64 * 4096 + c div 64 mod 64 * 64 + c mod 64 = (c::nat)"
proof -
  have regroup: "a * 262144 + b * 4096 + d * 64 + r = (a * 4096 + b * 64 + d) * 64 + r"
    for a b d r :: nat by simp
  have "c div 262144 = c div 64 div 4096" "c div 4096 = c div 64 div 64"
    by (simp_all add: div_mult2_eq [symmetric])
  then show ?thesis by (simp only: regroup base64_split3 div_mult_mod_eq)
qed

lemma chars_utf8_char_append:
  assumes "c < 0x110000"
  shows "chars (utf8_char c @ r) = c # chars r"
proof -
  consider "c < 0x80" | "0x80 \<le> c" "c < 0x800" | "0x800 \<le> c" "c < 0x10000" | "0x10000 \<le> c"
    by linarith
  then show ?thesis
  proof cases
    case 1
    then show ?thesis by (simp add: utf8_char_def)
  next
    case 2
    then have "byte_val (byte (0xC0 + c div 64)) = 0xC0 + c div 64" "c div 64 < 32"
      by (simp_all add: less_mult_imp_div_less)
    moreover have "c div 64 * 64 + c mod 64 = c" by simp
    ultimately show ?thesis using 2
      by (simp add: utf8_char_def Let_def less_mult_imp_div_less del: of_char_of)
  next
    case 3
    then have "byte_val (byte (0xE0 + c div 4096)) = 0xE0 + c div 4096" "c div 4096 < 16"
      by (simp_all add: less_mult_imp_div_less)
    moreover have "c div 4096 * 4096 + c div 64 mod 64 * 64 + c mod 64 = c"
      by (rule base64_split3)
    ultimately show ?thesis using 3
      by (simp add: utf8_char_def Let_def less_mult_imp_div_less del: of_char_of)
  next
    case 4
    with assms have "byte_val (byte (0xF0 + c div 262144)) = 0xF0 + c div 262144" "c div 262144 < 5"
      by (simp_all add: less_mult_imp_div_less)
    moreover have "c div 262144 * 262144 + c div 4096 mod 64 * 4096 + c div 64 mod 64 * 64 + c mod 64 = c"
      by (rule base64_split4)
    ultimately show ?thesis using 4
      by (simp add: utf8_char_def Let_def less_mult_imp_div_less del: of_char_of)
  qed
qed

lemma chars_utf8: "list_all scalar cs \<Longrightarrow> chars (utf8 cs) = cs"
proof (induction cs)
  case (Cons c cs)
  then have "c < 0x110000" by (auto simp: scalar_def)
  with Cons show ?case by (simp add: chars_utf8_char_append)
qed simp

lemma valid_utf8_utf8: "list_all scalar cs \<Longrightarrow> valid_utf8 (utf8 cs)"
  by (simp add: valid_utf8_def chars_utf8)

lemma valid_utf8_ex: "valid_utf8 s \<longleftrightarrow> (\<exists>cs. list_all scalar cs \<and> s = utf8 cs)"
  by (auto simp: valid_utf8_utf8) (auto simp: valid_utf8_def)

lemma valid_utf8_append: "valid_utf8 s \<Longrightarrow> valid_utf8 t \<Longrightarrow> valid_utf8 (s @ t)"
  unfolding valid_utf8_ex by (metis list_all_append utf8_append)

lemma utf8_inj: "list_all scalar cs \<Longrightarrow> list_all scalar ds \<Longrightarrow> utf8 cs = utf8 ds \<Longrightarrow> cs = ds"
  by (metis chars_utf8)

text \<open>ASCII text is its own encoding.\<close>

definition ascii :: "string \<Rightarrow> bool" where
  "ascii s \<longleftrightarrow> list_all (\<lambda>c. byte_val c < 0x80) s"

lemma chars_ascii: "ascii s \<Longrightarrow> chars s = map byte_val s"
  by (induction s) (auto simp: ascii_def Let_def)

lemma utf8_of_ascii: "ascii s \<Longrightarrow> utf8 (map byte_val s) = s"
  by (induction s) (auto simp: ascii_def utf8_char_def)

lemma valid_utf8_ascii: "ascii s \<Longrightarrow> valid_utf8 s"
  by (auto simp: valid_utf8_def chars_ascii utf8_of_ascii)
     (auto simp: ascii_def scalar_def list_all_iff)

section \<open>Character classes\<close>

definition is_whitespace :: "nat \<Rightarrow> bool" where
  "is_whitespace c \<longleftrightarrow> 9 \<le> c \<and> c \<le> 13 \<or> c = 0x20 \<or> c = 0x85 \<or> c = 0xA0 \<or> c = 0x1680
     \<or> 0x2000 \<le> c \<and> c \<le> 0x200A \<or> c = 0x2028 \<or> c = 0x2029 \<or> c = 0x202F \<or> c = 0x205F
     \<or> c = 0x3000"

definition is_control :: "nat \<Rightarrow> bool" where
  "is_control c \<longleftrightarrow> c < 0x20 \<or> 0x7F \<le> c \<and> c < 0xA0"

definition to_ascii_lowercase :: "string \<Rightarrow> string" where
  "to_ascii_lowercase = map (\<lambda>c. if 65 \<le> byte_val c \<and> byte_val c \<le> 90
                                  then byte (byte_val c + 32) else c)"

section \<open>Searching and splitting\<close>

abbreviation starts_with :: "string \<Rightarrow> string \<Rightarrow> bool" where
  "starts_with s p \<equiv> prefix p s"

abbreviation ends_with :: "string \<Rightarrow> string \<Rightarrow> bool" where
  "ends_with s p \<equiv> suffix p s"

definition strip_prefix :: "string \<Rightarrow> string \<Rightarrow> string option" where
  "strip_prefix p s = (if prefix p s then Some (drop (length p) s) else None)"

lemma strip_prefix_eq_Some [simp]: "strip_prefix p s = Some r \<longleftrightarrow> s = p @ r"
  by (auto simp: strip_prefix_def prefix_def)

lemma strip_prefix_append [simp]: "strip_prefix p (p @ r) = Some r"
  by simp

lemma strip_prefix_eq_None: "strip_prefix p s = None \<longleftrightarrow> \<not> prefix p s"
  by (simp add: strip_prefix_def)

text \<open>\<open>split_once\<close>: around the first occurrence of a non-empty pattern.\<close>

fun split_once :: "string \<Rightarrow> string \<Rightarrow> (string \<times> string) option" where
  "split_once p [] = (if p = [] then Some ([], []) else None)"
| "split_once p (c # s) =
     (if prefix p (c # s) then Some ([], drop (length p) (c # s))
      else map_option (\<lambda>(a, b). (c # a, b)) (split_once p s))"

lemma split_once_Some: "split_once p s = Some (a, b) \<Longrightarrow> s = a @ p @ b"
  by (induction p s arbitrary: a rule: split_once.induct)
     (auto simp: prefix_def split: if_splits)

text \<open>\<open>split\<close> on every element that satisfies a predicate: always at least one piece.\<close>

fun split_on :: "('a \<Rightarrow> bool) \<Rightarrow> 'a list \<Rightarrow> 'a list list" where
  "split_on P [] = [[]]"
| "split_on P (c # s) =
     (if P c then [] # split_on P s
      else case split_on P s of [] \<Rightarrow> [[c]] | w # ws \<Rightarrow> (c # w) # ws)"

lemma split_on_nonempty [simp]: "split_on P s \<noteq> []"
  by (induction s) (auto split: list.splits)

lemma split_on_pieces: "w \<in> set (split_on P s) \<Longrightarrow> c \<in> set w \<Longrightarrow> c \<in> set s \<and> \<not> P c"
proof (induction s arbitrary: w)
  case (Cons d s)
  then show ?case
    by (cases "split_on P s") (fastforce split: if_splits)+
qed simp

lemma split_on_none: "(\<And>c. c \<in> set s \<Longrightarrow> \<not> P c) \<Longrightarrow> split_on P s = [s]"
  by (induction s) auto

text \<open>\<open>split_whitespace\<close> is \<open>split\<close> on whitespace without the empty pieces.\<close>

definition split_whitespace :: "nat list \<Rightarrow> nat list list" where
  "split_whitespace cs = filter (\<lambda>w. w \<noteq> []) (split_on is_whitespace cs)"

fun join :: "'a list \<Rightarrow> 'a list list \<Rightarrow> 'a list" where
  "join sep [] = []"
| "join sep [x] = x"
| "join sep (x # y # ys) = x @ sep @ join sep (y # ys)"

lemma set_join: "set (join sep ws) \<subseteq> set sep \<union> \<Union> (set ` set ws)"
  by (induction sep ws rule: join.induct) auto

text \<open>\<open>str::trim\<close> and the two one-sided variants the code uses.\<close>

definition trim_with :: "('a \<Rightarrow> bool) \<Rightarrow> 'a list \<Rightarrow> 'a list" where
  "trim_with P s = rev (dropWhile P (rev (dropWhile P s)))"

definition trim :: "string \<Rightarrow> string" where
  "trim s = utf8 (trim_with is_whitespace (chars s))"

definition trim_end_matches :: "char \<Rightarrow> string \<Rightarrow> string" where
  "trim_end_matches c s = rev (dropWhile (\<lambda>d. d = c) (rev s))"

lemma trim_end_matches_id: "s = [] \<or> last s \<noteq> c \<Longrightarrow> trim_end_matches c s = s"
  by (cases s rule: rev_cases) (auto simp: trim_end_matches_def)

lemma trim_end_matches_last: "trim_end_matches c s \<noteq> [] \<Longrightarrow> last (trim_end_matches c s) \<noteq> c"
  unfolding trim_end_matches_def by (metis (full_types) hd_dropWhile last_rev rev_is_Nil_conv)

section \<open>Numbers as text\<close>

definition digit_char :: "nat \<Rightarrow> char" where
  "digit_char d = (if d < 10 then byte (48 + d) else byte (87 + d))"

fun show_nat :: "nat \<Rightarrow> string" where
  "show_nat n = (if n < 10 then [digit_char n] else show_nat (n div 10) @ [digit_char (n mod 10)])"

declare show_nat.simps [simp del]

definition show_int :: "int \<Rightarrow> string" where
  "show_int i = (if i < 0 then ''-'' @ show_nat (nat (- i)) else show_nat (nat i))"

text \<open>\<open>{:02x}\<close>\<close>

definition hex2 :: "nat \<Rightarrow> string" where
  "hex2 n = [digit_char (n div 16), digit_char (n mod 16)]"

text \<open>
  \<open>str::parse\<close> for an integer type with values in \<open>{lo..hi}\<close>: an optional sign, then at least
  one ASCII digit and nothing else; a value out of range is an error. A sign alone is an error,
  and a minus sign is only accepted by the signed types.
\<close>

definition digit_of :: "char \<Rightarrow> nat option" where
  "digit_of c = (if 48 \<le> byte_val c \<and> byte_val c \<le> 57 then Some (byte_val c - 48) else None)"

fun parse_digits :: "nat \<Rightarrow> string \<Rightarrow> nat option" where
  "parse_digits acc [] = Some acc"
| "parse_digits acc (c # s) =
     (case digit_of c of None \<Rightarrow> None | Some d \<Rightarrow> parse_digits (10 * acc + d) s)"

definition parse_int :: "int \<Rightarrow> int \<Rightarrow> string \<Rightarrow> int option" where
  "parse_int lo hi s =
     (case s of
        [] \<Rightarrow> None
      | c # r \<Rightarrow>
         (let body = (if c = CHR ''+'' \<or> c = CHR ''-'' \<and> lo < 0 then r else s);
              sgn = (if c = CHR ''-'' \<and> lo < 0 then -1 else 1)
          in if body = [] then None
             else case parse_digits 0 body of
                    None \<Rightarrow> None
                  | Some n \<Rightarrow> (let v = sgn * int n in if lo \<le> v \<and> v \<le> hi then Some v else None)))"

lemma parse_digits_append:
  "parse_digits acc (s @ t) = (case parse_digits acc s of None \<Rightarrow> None | Some n \<Rightarrow> parse_digits n t)"
  by (induction acc s rule: parse_digits.induct) (auto split: option.splits)

lemma digit_of_digit_char [simp]: "d < 10 \<Longrightarrow> digit_of (digit_char d) = Some d"
  by (simp add: digit_of_def digit_char_def)

lemma parse_show_nat: "parse_digits 0 (show_nat n) = Some n"
proof (induction n rule: show_nat.induct)
  case (1 n)
  then show ?case
    by (cases "n < 10") (simp_all add: show_nat.simps [of n] parse_digits_append)
qed

lemma show_nat_inj: "show_nat m = show_nat n \<Longrightarrow> m = n"
  by (metis option.inject parse_show_nat)

lemma show_nat_nonempty [simp]: "show_nat n \<noteq> []"
  by (subst show_nat.simps) simp

lemma show_nat_digits: "c \<in> set (show_nat n) \<Longrightarrow> 48 \<le> byte_val c \<and> byte_val c \<le> 57"
proof (induction n rule: show_nat.induct)
  case (1 n)
  have "d < 10 \<Longrightarrow> 48 \<le> byte_val (digit_char d) \<and> byte_val (digit_char d) \<le> 57" for d
    by (simp add: digit_char_def)
  with 1 show ?case
    by (cases "n < 10") (auto simp: show_nat.simps [of n])
qed

end
