(* ===== verification/Seal.thy ===== *)
theory Seal
  imports Rust_Text
begin

text \<open>
  Encryption of one stored value (\<open>value_cipher\<close>, \<open>seal\<close>, \<open>unseal\<close>, \<open>secret_meta_label\<close> of
  \<open>store.rs\<close>). vodozemac's pickle cipher and the base64 engine are parameters, the fields of
  \<open>cipher_lib\<close>; \<open>cipher_ok\<close> states what their documentation promises. Byte strings are char lists,
  one char per byte. The salts \<open>rand::random\<close> draws are a sequence, indexed by how many were drawn.
\<close>

section \<open>What the code calls\<close>

text \<open>
  The first argument of the cipher operations is the key material given to
  \<open>Cipher::new_pickle\<close>. A decoder that fails returns the text its error displays.
\<close>

record cipher_lib =
  cipher_encrypt :: "string \<Rightarrow> string \<Rightarrow> string"
  cipher_mac :: "string \<Rightarrow> string \<Rightarrow> string"
  verify_truncated_mac :: "string \<Rightarrow> string \<Rightarrow> string \<Rightarrow> bool"
  cipher_decrypt :: "string \<Rightarrow> string \<Rightarrow> string + string"
  b64_encode :: "string \<Rightarrow> string"
  b64_decode :: "string \<Rightarrow> string + string"
  salt_at :: "nat \<Rightarrow> string"
  utf8_error :: "string \<Rightarrow> string"

definition SALT_LEN :: nat where
  "SALT_LEN = 16"

definition MAC_LEN :: nat where
  "MAC_LEN = 32"

definition cipher_ok :: "cipher_lib \<Rightarrow> bool" where
  "cipher_ok L \<longleftrightarrow>
     (\<forall>b. b64_decode L (b64_encode L b) = Inr b)
     \<and> (\<forall>n. length (salt_at L n) = SALT_LEN)
     \<and> (\<forall>k c. length (cipher_mac L k c) = MAC_LEN)
     \<and> (\<forall>k c t. length t = MAC_LEN \<longrightarrow> verify_truncated_mac L k c t = (t = cipher_mac L k c))
     \<and> (\<forall>k p. cipher_decrypt L k (cipher_encrypt L k p) = Inr p)"

section \<open>The code\<close>

definition ENC_PREFIX :: string where
  "ENC_PREFIX = ''k1:''"

definition SESSION_KEY :: string where
  "SESSION_KEY = ''session''"

definition ENCRYPTED_FLAG :: string where
  "ENCRYPTED_FLAG = ''store_encrypted''"

definition SECRET_META_KEYS :: "(string \<times> string) list" where
  "SECRET_META_KEYS =
     [(SESSION_KEY, ''meta.session''), (''backup_key'', ''meta.backup_key''),
      (''pickle_key'', ''meta.pickle_key'')]"

definition secret_meta_label :: "string \<Rightarrow> string option" where
  "secret_meta_label k = map_option snd (List.find (\<lambda>(name, _). name = k) SECRET_META_KEYS)"

definition value_cipher :: "string \<Rightarrow> string \<Rightarrow> string" where
  "value_cipher master salt = master @ salt"

text \<open>\<open>seal\<close> on the salt that was drawn for it.\<close>

definition seal :: "cipher_lib \<Rightarrow> string \<Rightarrow> string \<Rightarrow> string \<Rightarrow> string" where
  "seal L salt master plaintext =
     (let cipher = value_cipher master salt;
          ciphertext = cipher_encrypt L cipher plaintext;
          mac = cipher_mac L cipher ciphertext;
          blob = salt @ mac @ ciphertext
      in ENC_PREFIX @ b64_encode L blob)"

definition no_key_text :: string where
  "no_key_text =
     '' is encrypted but no store key is configured -- the store key file is missing or unreadable.'' @
     '' The message history and the access token are in this database and cannot be recovered'' @
     '' without that key; restore it rather than deleting anything.''"

definition tampered_text :: string where
  "tampered_text =
     '' failed authentication: the stored value has been altered, or the store key does not belong'' @
     '' to this database -- the data cannot be recovered without the key it was written with''"

definition unseal :: "cipher_lib \<Rightarrow> string option \<Rightarrow> string \<Rightarrow> string \<Rightarrow> string result" where
  "unseal L master column stored =
     (case strip_prefix ENC_PREFIX stored of
        None \<Rightarrow> Inr stored
      | Some encoded \<Rightarrow>
       (case master of
          None \<Rightarrow> Inl (Msg (column @ no_key_text))
        | Some master \<Rightarrow>
         (case b64_decode L encoded of
            Inl e \<Rightarrow> Inl (Context (''decode encrypted '' @ column) (Msg e))
          | Inr blob \<Rightarrow>
             if length blob < SALT_LEN + MAC_LEN then
               Inl (Msg (''encrypted '' @ column @ '' is truncated: '' @ show_nat (length blob)
                         @ '' bytes, need at least '' @ show_nat (SALT_LEN + MAC_LEN)))
             else
               (let salt = take SALT_LEN blob; rest = drop SALT_LEN blob;
                    mac = take MAC_LEN rest; ciphertext = drop MAC_LEN rest;
                    cipher = value_cipher master salt
                in if \<not> verify_truncated_mac L cipher ciphertext mac
                   then Inl (Msg (column @ tampered_text))
                   else (case cipher_decrypt L cipher ciphertext of
                           Inl e \<Rightarrow> Inl (Msg (''decrypt '' @ column @ '': '' @ e))
                         | Inr plain \<Rightarrow>
                             if valid_utf8 plain then Inr plain
                             else Inl (Context (''decrypted '' @ column @ '' is not valid UTF-8'')
                                              (Msg (utf8_error L plain))))))))"

section \<open>Sealed values\<close>

definition is_sealed :: "string \<Rightarrow> bool" where
  "is_sealed stored \<longleftrightarrow> starts_with stored ENC_PREFIX"

text \<open>A stored value reads as a plaintext when \<open>unseal\<close> gives that text, whatever the column.\<close>

definition reads :: "cipher_lib \<Rightarrow> string option \<Rightarrow> string \<Rightarrow> string \<Rightarrow> bool" where
  "reads L master stored plain \<longleftrightarrow> (\<forall>column. unseal L master column stored = Inr plain)"

lemma strip_sealed [simp]: "strip_prefix ENC_PREFIX (ENC_PREFIX @ e) = Some e"
  by (rule strip_prefix_append)

lemma sealed_seal [simp]: "is_sealed (seal L salt master p)"
  by (simp add: is_sealed_def seal_def Let_def)

lemma unseal_seal:
  assumes "cipher_ok L" "length salt = SALT_LEN" "valid_utf8 p"
  shows "unseal L (Some master) column (seal L salt master p) = Inr p"
proof -
  let ?c = "value_cipher master salt"
  let ?ct = "cipher_encrypt L ?c p"
  have mac: "length (cipher_mac L ?c ?ct) = MAC_LEN" using assms(1) by (simp add: cipher_ok_def)
  then have "verify_truncated_mac L ?c ?ct (cipher_mac L ?c ?ct)"
    using assms(1) by (simp add: cipher_ok_def)
  moreover have "cipher_decrypt L ?c ?ct = Inr p" using assms(1) by (simp add: cipher_ok_def)
  ultimately show ?thesis
    using assms mac by (simp add: unseal_def seal_def Let_def cipher_ok_def)
qed

lemma reads_seal:
  "cipher_ok L \<Longrightarrow> length salt = SALT_LEN \<Longrightarrow> valid_utf8 p \<Longrightarrow> reads L (Some master) (seal L salt master p) p"
  by (simp add: reads_def unseal_seal)

lemma unseal_plain: "\<not> is_sealed stored \<Longrightarrow> unseal L master column stored = Inr stored"
  by (simp add: unseal_def is_sealed_def strip_prefix_eq_None [THEN iffD2])

lemma reads_plain: "\<not> is_sealed stored \<Longrightarrow> reads L master stored stored"
  by (simp add: reads_def unseal_plain)

lemma reads_unique: "reads L master stored p \<Longrightarrow> reads L master stored q \<Longrightarrow> p = q"
  by (simp add: reads_def)

lemma unseal_reads [simp]: "reads L master stored p \<Longrightarrow> unseal L master column stored = Inr p"
  by (simp add: reads_def)

lemma unseal_sealed_Inr:
  assumes "cipher_ok L" "is_sealed stored" "unseal L master column stored = Inr p"
  shows "\<exists>m salt ct. master = Some m \<and> length salt = SALT_LEN
    \<and> b64_decode L (drop (length ENC_PREFIX) stored)
        = Inr (salt @ cipher_mac L (value_cipher m salt) ct @ ct)
    \<and> cipher_decrypt L (value_cipher m salt) ct = Inr p \<and> valid_utf8 p"
proof -
  obtain encoded where st: "stored = ENC_PREFIX @ encoded"
    using assms(2) by (auto simp: is_sealed_def prefix_def)
  from assms(3) obtain m where m: "master = Some m"
    by (cases master) (auto simp: unseal_def st)
  from assms(3) obtain blob where blob: "b64_decode L encoded = Inr blob"
    by (cases "b64_decode L encoded") (auto simp: unseal_def st m)
  define salt mac ct where "salt = take SALT_LEN blob" and "mac = take MAC_LEN (drop SALT_LEN blob)"
    and "ct = drop MAC_LEN (drop SALT_LEN blob)"
  have len: "SALT_LEN + MAC_LEN \<le> length blob"
    using assms(3) by (simp add: unseal_def st m blob split: if_splits)
  have parts: "blob = salt @ mac @ ct" by (simp add: salt_def mac_def ct_def del: drop_drop)
  have ver: "verify_truncated_mac L (value_cipher m salt) ct mac"
    using assms(3) len by (simp add: unseal_def st m blob Let_def salt_def mac_def ct_def del: drop_drop split: if_splits)
  have "length mac = MAC_LEN" using len by (simp add: mac_def)
  then have "mac = cipher_mac L (value_cipher m salt) ct"
    using ver assms(1) by (simp add: cipher_ok_def)
  moreover have "cipher_decrypt L (value_cipher m salt) ct = Inr p \<and> valid_utf8 p"
    using assms(3) len ver
    by (simp add: unseal_def st m blob Let_def salt_def mac_def ct_def del: drop_drop split: if_splits sum.splits)
  moreover have "length salt = SALT_LEN" using len by (simp add: salt_def)
  ultimately show ?thesis using m blob parts st by auto
qed

lemma unseal_no_key: "is_sealed stored \<Longrightarrow> unseal L None column stored = Inl (Msg (column @ no_key_text))"
  by (auto simp: unseal_def is_sealed_def prefix_def)

text \<open>
  C26: A sealed value reads back as the text that was sealed; without a key it is an error that
  names the column, never the ciphertext or an empty text; and a stored blob whose tag is not the
  tag of its own salt and ciphertext under the master key is never decrypted into a value.
\<close>

theorem sealed_value_contract:
  assumes "cipher_ok L" "length salt = SALT_LEN" "valid_utf8 p" "length tag = MAC_LEN"
    "tag \<noteq> cipher_mac L (value_cipher master salt) ct"
  shows "unseal L (Some master) column (seal L salt master p) = Inr p
    \<and> unseal L None column (seal L salt master p) = Inl (Msg (column @ no_key_text))
    \<and> unseal L (Some master) column (ENC_PREFIX @ b64_encode L (salt @ tag @ ct))
        = Inl (Msg (column @ tampered_text))"
proof (intro conjI)
  show "unseal L (Some master) column (seal L salt master p) = Inr p"
    using assms by (simp add: unseal_seal)
  show "unseal L None column (seal L salt master p) = Inl (Msg (column @ no_key_text))"
    by (simp add: unseal_no_key)
  have "\<not> verify_truncated_mac L (value_cipher master salt) ct tag"
    using assms by (simp add: cipher_ok_def)
  then show "unseal L (Some master) column (ENC_PREFIX @ b64_encode L (salt @ tag @ ct))
        = Inl (Msg (column @ tampered_text))"
    using assms by (simp add: unseal_def cipher_ok_def Let_def)
qed

text \<open>A concrete library that keeps the promises, to evaluate the model with.\<close>

definition demo_mac :: "string \<Rightarrow> string \<Rightarrow> string" where
  "demo_mac k c = take 32 (c @ k @ replicate 32 (CHR ''m''))"

definition demo_cipher :: cipher_lib where
  "demo_cipher = \<lparr>cipher_encrypt = (\<lambda>k p. rev p), cipher_mac = demo_mac,
     verify_truncated_mac = (\<lambda>k c t. t = demo_mac k c), cipher_decrypt = (\<lambda>k c. Inr (rev c)),
     b64_encode = (\<lambda>b. b), b64_decode = Inr, salt_at = (\<lambda>n. replicate 16 (CHR ''s'')),
     utf8_error = (\<lambda>s. ''invalid utf-8 sequence'')\<rparr>"

lemma length_demo_mac: "length (demo_mac k c) = 32"
  unfolding demo_mac_def by (subst length_take) simp

lemma demo_cipher_ok [simp]: "cipher_ok demo_cipher"
  by (simp add: cipher_ok_def demo_cipher_def length_demo_mac SALT_LEN_def MAC_LEN_def)

theorem sealed_value_contract_witness:
  "unseal demo_cipher (Some ''k'') ''room.name'' (seal demo_cipher (replicate 16 (CHR ''s'')) ''k'' ''hi'') = Inr ''hi''
    \<and> unseal demo_cipher None ''room.name'' (seal demo_cipher (replicate 16 (CHR ''s'')) ''k'' ''hi'')
        = Inl (Msg (''room.name'' @ no_key_text))
    \<and> unseal demo_cipher (Some ''k'') ''room.name''
        (ENC_PREFIX @ b64_encode demo_cipher (replicate 16 (CHR ''s'') @ replicate 32 (CHR ''x'') @ ''ih''))
        = Inl (Msg (''room.name'' @ tampered_text))"
proof (rule sealed_value_contract)
  have "ascii ''hi''" by code_simp
  then show "valid_utf8 ''hi''" by (rule valid_utf8_ascii)
  show "replicate 32 (CHR ''x'') \<noteq> cipher_mac demo_cipher (value_cipher ''k'' (replicate 16 (CHR ''s''))) ''ih''"
    by code_simp
qed (simp_all add: SALT_LEN_def MAC_LEN_def)

end
