(* ===== verification/Json.thy ===== *)
theory Json
  imports Rust_Text "HOL-Library.Countable"
begin

text \<open>
  JSON values as \<open>serde_json::Value\<close> holds them, the accessors the code uses, and the canonical
  JSON writer of \<open>crypto.rs\<close> (\<open>canonical_json\<close>, \<open>canonical_json_verbatim\<close>, \<open>write_canonical\<close>,
  \<open>write_json_string\<close>). The writer is proved injective on well-formed values: what gets signed or
  hashed determines the value.
\<close>

section \<open>Values\<close>

text \<open>
  An object is a \<open>serde_json::Map\<close>, a \<open>BTreeMap\<close> here, so the list of its members in ascending key
  order. Integers are \<open>u64\<close> or negative \<open>i64\<close>; a floating point number is kept as the text
  \<open>Number::to_string\<close> prints for it, since the code never computes with one.
\<close>

datatype json =
    JNull
  | JBool bool
  | JInt int
  | JFloat string
  | JStr string
  | JArr "json list"
  | JObj "(string \<times> json) list"

fun get :: "string \<Rightarrow> json \<Rightarrow> json option" where
  "get k (JObj m) = bt_get m k"
| "get k _ = None"

fun as_str :: "json \<Rightarrow> string option" where
  "as_str (JStr s) = Some s"
| "as_str _ = None"

fun as_bool :: "json \<Rightarrow> bool option" where
  "as_bool (JBool b) = Some b"
| "as_bool _ = None"

fun as_u64 :: "json \<Rightarrow> 64 word option" where
  "as_u64 (JInt i) = (if 0 \<le> i \<and> i < 2 ^ 64 then Some (word_of_int i) else None)"
| "as_u64 _ = None"

fun as_array :: "json \<Rightarrow> json list option" where
  "as_array (JArr xs) = Some xs"
| "as_array _ = None"

fun as_object :: "json \<Rightarrow> (string, json) btree option" where
  "as_object (JObj m) = Some m"
| "as_object _ = None"

text \<open>The chains \<open>v.get(a).and_then(Value::as_str)\<close> the code is full of.\<close>

definition get_str :: "string \<Rightarrow> json \<Rightarrow> string option" where
  "get_str k v = Option.bind (get k v) as_str"

definition get_obj :: "string \<Rightarrow> json \<Rightarrow> (string, json) btree option" where
  "get_obj k v = Option.bind (get k v) as_object"

definition get_arr :: "string \<Rightarrow> json \<Rightarrow> json list option" where
  "get_arr k v = Option.bind (get k v) as_array"

text \<open>\<open>json!({...})\<close> and the sequences of \<open>insert\<close> that build an object.\<close>

definition obj :: "(string \<times> json) list \<Rightarrow> json" where
  "obj kvs = JObj (bt_collect kvs)"

abbreviation JU64 :: "64 word \<Rightarrow> json" where
  "JU64 w \<equiv> JInt (uint w)"

text \<open>
  The values the library can hold: ordered members, text that is UTF-8, numbers in range. The text
  of a floating point number always has a dot or an exponent.
\<close>

definition number_char :: "char \<Rightarrow> bool" where
  "number_char c \<longleftrightarrow> 48 \<le> byte_val c \<and> byte_val c \<le> 57 \<or> c \<in> {CHR ''-'', CHR ''+'', CHR ''.'', CHR ''e''}"

definition float_text :: "string \<Rightarrow> bool" where
  "float_text t \<longleftrightarrow> t \<noteq> [] \<and> list_all number_char t \<and> (CHR ''.'' \<in> set t \<or> CHR ''e'' \<in> set t)"

fun json_ok :: "json \<Rightarrow> bool" where
  "json_ok (JInt i) \<longleftrightarrow> - (2 ^ 63) \<le> i \<and> i < 2 ^ 64"
| "json_ok (JFloat t) \<longleftrightarrow> float_text t"
| "json_ok (JStr s) \<longleftrightarrow> valid_utf8 s"
| "json_ok (JArr xs) \<longleftrightarrow> (\<forall>x \<in> set xs. json_ok x)"
| "json_ok (JObj m) \<longleftrightarrow> bt_ok m \<and> (\<forall>kv \<in> set m. valid_utf8 (fst kv) \<and> json_ok (snd kv))"
| "json_ok _ \<longleftrightarrow> True"

section \<open>Text\<close>

text \<open>
  Printing and parsing JSON text is \<open>serde_json\<close>'s: a parameter of the model. A parsed object has
  its members in key order, and of two members with one key the later one. A parser that fails
  returns the text its error displays; \<open>json_type_error\<close> is that of a well-formed text of the wrong
  shape.
\<close>

record json_lib =
  json_print :: "json \<Rightarrow> string"
  json_parse :: "string \<Rightarrow> string + json"
  json_type_error :: "string \<Rightarrow> string"

primrec json_norm :: "json \<Rightarrow> json" where
  "json_norm JNull = JNull"
| "json_norm (JBool b) = JBool b"
| "json_norm (JInt i) = JInt i"
| "json_norm (JFloat t) = JFloat t"
| "json_norm (JStr s) = JStr s"
| "json_norm (JArr xs) = JArr (map json_norm xs)"
| "json_norm (JObj m) = obj (map (map_prod id json_norm) m)"

definition json_lib_ok :: "json_lib \<Rightarrow> bool" where
  "json_lib_ok J \<longleftrightarrow>
     (\<forall>v. json_ok (json_norm v) \<longrightarrow> json_parse J (json_print J v) = Inr (json_norm v))"

text \<open>
  A printer and parser with this law, which shows that it can hold: the values are numbered, and a
  value is written as that many strokes.
\<close>

instance json :: countable
  by countable_datatype

definition unary_json :: json_lib where
  "unary_json = \<lparr>json_print = (\<lambda>v. replicate (to_nat v) CHR ''1''),
     json_parse = (\<lambda>t. Inr (json_norm (from_nat (length t)))), json_type_error = (\<lambda>t. ''invalid type'')\<rparr>"

lemma unary_json_ok: "json_lib_ok unary_json"
  by (simp add: json_lib_ok_def unary_json_def)

lemma unary_print_ascii: "ascii (json_print unary_json v)"
  by (simp add: ascii_def unary_json_def list_all_iff)

definition from_str :: "json_lib \<Rightarrow> (json \<Rightarrow> 'a option) \<Rightarrow> string \<Rightarrow> string + 'a" where
  "from_str J dec t =
     (case json_parse J t of
        Inl e \<Rightarrow> Inl e
      | Inr v \<Rightarrow> (case dec v of None \<Rightarrow> Inl (json_type_error J t) | Some x \<Rightarrow> Inr x))"

section \<open>The canonical writer\<close>

definition json_escape :: "nat \<Rightarrow> string" where
  "json_escape c =
     (if c = 0x22 then [CHR 0x5C, CHR 0x22]
      else if c = 0x5C then [CHR 0x5C, CHR 0x5C]
      else if c = 0x08 then [CHR 0x5C, CHR ''b'']
      else if c = 0x0C then [CHR 0x5C, CHR ''f'']
      else if c = 0x0A then [CHR 0x5C, CHR ''n'']
      else if c = 0x0D then [CHR 0x5C, CHR ''r'']
      else if c = 0x09 then [CHR 0x5C, CHR ''t'']
      else if c < 0x20 then
        [CHR 0x5C, CHR ''u'', digit_char (c div 4096 mod 16), digit_char (c div 256 mod 16),
         digit_char (c div 16 mod 16), digit_char (c mod 16)]
      else utf8_char c)"

definition write_json_string :: "string \<Rightarrow> string" where
  "write_json_string s = [CHR 0x22] @ concat (map json_escape (chars s)) @ [CHR 0x22]"

primrec write_canonical :: "json \<Rightarrow> string" where
  "write_canonical JNull = ''null''"
| "write_canonical (JBool b) = (if b then ''true'' else ''false'')"
| "write_canonical (JInt i) = show_int i"
| "write_canonical (JFloat t) = t"
| "write_canonical (JStr s) = write_json_string s"
| "write_canonical (JArr xs) = ''['' @ join '','' (map write_canonical xs) @ '']''"
| "write_canonical (JObj m) =
     ''{'' @ join '','' (map (\<lambda>(k, t). write_json_string k @ '':'' @ t)
                           (map (map_prod id write_canonical) m)) @ ''}''"

definition canonical_json :: "json \<Rightarrow> string" where
  "canonical_json v =
     (case v of
        JObj m \<Rightarrow> ''{'' @ join '',''
            (map (\<lambda>(k, e). write_json_string k @ '':'' @ write_canonical e)
               (filter (\<lambda>(k, e). \<not> (k = ''signatures'' \<or> k = ''unsigned'')) m)) @ ''}''
      | _ \<Rightarrow> write_canonical v)"

definition canonical_json_verbatim :: "json \<Rightarrow> string" where
  "canonical_json_verbatim v = write_canonical v"

section \<open>Reading back what was written\<close>

text \<open>On valid UTF-8 the escapes act byte by byte, and no escape is the start of another.\<close>

definition escape_byte :: "char \<Rightarrow> string" where
  "escape_byte b = (if byte_val b < (0x80 :: nat) then json_escape (byte_val b) else [b])"

lemma escape_high:
  assumes "list_all (\<lambda>b. 0x80 \<le> (byte_val b :: nat)) bs"
  shows "concat (map escape_byte bs) = bs"
  using assms by (induction bs) (auto simp: escape_byte_def)

lemma utf8_char_high:
  assumes "0x80 \<le> c" "c < 0x110000"
  shows "list_all (\<lambda>b. 0x80 \<le> (byte_val b :: nat)) (utf8_char c)"
proof -
  have high: "0x80 \<le> (byte_val (byte n) :: nat)" if "0x80 \<le> n" "n < 256" for n
    using that by simp
  have tails: "n mod 64 < 64" for n :: nat by simp
  have cont: "0x80 \<le> (byte_val (byte (0x80 + n mod 64)) :: nat)" for n
    by (rule high) (use tails [of n] in linarith)+
  consider "c < 0x800" | "0x800 \<le> c" "c < 0x10000" | "0x10000 \<le> c" by linarith
  then show ?thesis
  proof cases
    case 1
    then have "c div 64 < 32" by linarith
    then have "0x80 \<le> (byte_val (byte (0xC0 + c div 64)) :: nat)" by (intro high) linarith+
    with 1 assms show ?thesis by (simp only: utf8_char_def if_P if_not_P not_less list.pred_inject cont simp_thms)
  next
    case 2
    then have "c div 4096 < 16" by linarith
    then have "0x80 \<le> (byte_val (byte (0xE0 + c div 4096)) :: nat)" by (intro high) linarith+
    with 2 assms show ?thesis by (simp only: utf8_char_def if_P if_not_P not_less list.pred_inject cont simp_thms)
  next
    case 3
    then have "c div 262144 < 5" using assms by linarith
    then have "0x80 \<le> (byte_val (byte (0xF0 + c div 262144)) :: nat)" by (intro high) linarith+
    with 3 assms show ?thesis by (simp only: utf8_char_def if_P if_not_P not_less list.pred_inject cont simp_thms)
  qed
qed

lemma escape_bytes:
  assumes "valid_utf8 s"
  shows "concat (map json_escape (chars s)) = concat (map escape_byte s)"
proof -
  have "list_all scalar cs \<Longrightarrow> concat (map json_escape cs) = concat (map escape_byte (utf8 cs))" for cs
  proof (induction cs)
    case (Cons c cs)
    have "json_escape c = concat (map escape_byte (utf8_char c))"
    proof (cases "c < 0x80")
      case True
      then show ?thesis by (simp add: utf8_char_def escape_byte_def)
    next
      case False
      moreover from Cons.prems have "c < 0x110000" by (auto simp: scalar_def)
      ultimately have "list_all (\<lambda>b. 0x80 \<le> (byte_val b :: nat)) (utf8_char c)"
        by (intro utf8_char_high) simp_all
      moreover have "json_escape c = utf8_char c" using False by (simp add: json_escape_def)
      ultimately show ?thesis by (simp only: escape_high)
    qed
    with Cons show ?case by simp
  qed simp
  with assms show ?thesis by (auto simp: valid_utf8_def)
qed

text \<open>The reader of one escaped byte.\<close>

definition index_of_digit :: "char \<Rightarrow> nat option" where
  "index_of_digit c =
     (if 48 \<le> byte_val c \<and> byte_val c \<le> (57 :: nat) then Some (byte_val c - 48)
      else if 97 \<le> byte_val c \<and> byte_val c \<le> (102 :: nat) then Some (byte_val c - 87) else None)"

lemma index_of_digit_char: "d < 16 \<Longrightarrow> index_of_digit (digit_char d) = Some d"
  by (simp add: index_of_digit_def digit_char_def)

fun unescape :: "string \<Rightarrow> (char \<times> string) option" where
  "unescape [] = None"
| "unescape (b # r) =
     (if b = CHR 0x5C then
        (case r of
           [] \<Rightarrow> None
         | e # r' \<Rightarrow>
            (if e = CHR 0x22 \<or> e = CHR 0x5C then Some (e, r')
             else if e = CHR ''b'' then Some (CHR 0x08, r')
             else if e = CHR ''f'' then Some (CHR 0x0C, r')
             else if e = CHR ''n'' then Some (CHR 0x0A, r')
             else if e = CHR ''r'' then Some (CHR 0x0D, r')
             else if e = CHR ''t'' then Some (CHR 0x09, r')
             else if e = CHR ''u'' then
               (case r' of
                  _ # _ # h # l # r'' \<Rightarrow>
                    (case (index_of_digit h, index_of_digit l) of
                       (Some m, Some n) \<Rightarrow> Some (byte (16 * m + n), r'')
                     | _ \<Rightarrow> None)
                | _ \<Rightarrow> None)
             else None))
      else if b = CHR 0x22 then None
      else Some (b, r))"

lemma byte_val_eq: "byte_val b = (n :: nat) \<Longrightarrow> b = byte n"
  by (drule sym) simp

lemma control_bytes:
  "byte 8 = CHR 0x08" "byte 9 = CHR 0x09" "byte 10 = CHR 0x0A" "byte 12 = CHR 0x0C" "byte 13 = CHR 0x0D"
  by (simp_all add: char_of_eq_iff)

lemma unescape_escape: "unescape (escape_byte b @ r) = Some (b, r)"
proof (cases "byte_val b < (0x20 :: nat)")
  case True
  then obtain n where n: "b = byte n" "n < 0x20" using that [of "byte_val b"] by simp
  then have v: "byte_val b = n" by simp
  have "n div 4096 mod 16 = 0" "n div 256 mod 16 = 0" "n div 16 mod 16 < 16" "n mod 16 < 16"
    "16 * (n div 16 mod 16) + n mod 16 = n"
    using n(2) by (simp_all add: div_less)
  then show ?thesis using n(2)
    by (auto simp: escape_byte_def json_escape_def v index_of_digit_char n(1) control_bytes)
next
  case False
  show ?thesis
  proof (cases "b = CHR 0x22 \<or> b = CHR 0x5C")
    case True
    then show ?thesis by (auto simp: escape_byte_def json_escape_def)
  next
    case other: False
    then have "byte_val b \<noteq> (0x22 :: nat)" "byte_val b \<noteq> (0x5C :: nat)"
      by (auto simp: char_of_eq_iff dest!: byte_val_eq)
    then have "escape_byte b = [b]"
      using False by (auto simp: escape_byte_def json_escape_def utf8_char_def)
    with other show ?thesis by simp
  qed
qed

lemma escaped_string_unique:
  "concat (map escape_byte s) @ CHR 0x22 # r = concat (map escape_byte t) @ CHR 0x22 # r'
   \<Longrightarrow> s = t \<and> r = r'"
proof (induction s arbitrary: t)
  case Nil
  show ?case
  proof (cases t)
    case (Cons b t')
    have "unescape (CHR 0x22 # r) = None" by simp
    with Nil Cons show ?thesis
      using unescape_escape [of b "concat (map escape_byte t') @ CHR 0x22 # r'"] by simp
  qed (use Nil in simp)
next
  case (Cons a s)
  show ?case
  proof (cases t)
    case Nil
    have "unescape (CHR 0x22 # r') = None" by simp
    with Nil Cons show ?thesis
      using unescape_escape [of a "concat (map escape_byte s) @ CHR 0x22 # r"] by simp
  next
    case (Cons b t')
    with Cons.prems have "escape_byte a @ concat (map escape_byte s) @ CHR 0x22 # r
        = escape_byte b @ concat (map escape_byte t') @ CHR 0x22 # r'" by simp
    then have "a = b" "concat (map escape_byte s) @ CHR 0x22 # r = concat (map escape_byte t') @ CHR 0x22 # r'"
      using unescape_escape [of a] unescape_escape [of b] by (metis option.inject prod.inject)+
    with Cons.IH [of t'] Cons show ?thesis by simp
  qed
qed

lemma json_string_unique:
  "valid_utf8 s \<Longrightarrow> valid_utf8 t \<Longrightarrow> write_json_string s @ r = write_json_string t @ r' \<Longrightarrow> s = t \<and> r = r'"
  by (rule escaped_string_unique) (simp add: write_json_string_def escape_bytes)

text \<open>Numbers, up to the delimiter that follows them.\<close>

definition delimiter :: "string \<Rightarrow> bool" where
  "delimiter r \<longleftrightarrow> r = [] \<or> hd r \<in> {CHR '','', CHR '']'', CHR ''}''}"

lemma delimiter_not_number: "delimiter (c # r) \<Longrightarrow> \<not> number_char c"
  by (auto simp: delimiter_def number_char_def)

lemma number_prefix:
  assumes "list_all number_char s" "list_all number_char t" "delimiter r" "delimiter r'" "s @ r = t @ r'"
  shows "s = t \<and> r = r'"
  using assms
proof (induction s arbitrary: t)
  case Nil
  then show ?case by (cases t) (auto dest: delimiter_not_number)
next
  case (Cons a s)
  then show ?case by (cases t) (auto dest: delimiter_not_number)
qed

lemma show_nat_numbers: "list_all number_char (show_nat n)"
  using show_nat_digits by (auto simp: list_all_iff number_char_def)

lemma show_nat_int_text: "c \<in> set (show_nat n) \<Longrightarrow> c \<noteq> CHR ''.'' \<and> c \<noteq> CHR ''e'' \<and> c \<noteq> CHR ''-''"
  using show_nat_digits [of c n] by auto

lemma show_int_numbers: "list_all number_char (show_int i)"
  by (simp add: show_int_def show_nat_numbers number_char_def)

lemma show_int_not_float: "\<not> float_text (show_int i)"
proof -
  have "CHR ''.'' \<notin> set (show_nat n) \<and> CHR ''e'' \<notin> set (show_nat n)" for n
    using show_nat_int_text [of _ n] by blast
  then show ?thesis by (simp add: float_text_def show_int_def)
qed

lemma show_int_inj: "show_int i = show_int j \<Longrightarrow> i = j"
proof -
  assume eq: "show_int i = show_int j"
  have neg: "show_nat m \<noteq> CHR ''-'' # t" for m t
    using show_nat_int_text [of "CHR ''-''" m] by (metis list.set_intros(1))
  from eq show "i = j"
    using neg neg [symmetric] by (auto simp: show_int_def split: if_splits dest!: show_nat_inj)
qed

text \<open>The first byte tells the kinds of values apart.\<close>

definition start_kind :: "char \<Rightarrow> nat" where
  "start_kind c =
     (if number_char c then 0 else if c = CHR ''n'' then 1 else if c = CHR ''t'' then 2
      else if c = CHR ''f'' then 3 else if c = CHR 0x22 then 4 else if c = CHR ''['' then 5
      else if c = CHR ''{'' then 6 else 7)"

definition json_kind :: "json \<Rightarrow> nat" where
  "json_kind v =
     (case v of JNull \<Rightarrow> 1 | JBool b \<Rightarrow> (if b then 2 else 3) | JStr s \<Rightarrow> 4 | JArr xs \<Rightarrow> 5
      | JObj m \<Rightarrow> 6 | _ \<Rightarrow> 0)"

lemma write_canonical_start:
  assumes "json_ok v"
  shows "\<exists>c t. write_canonical v = c # t \<and> start_kind c = json_kind v"
proof (cases v)
  case (JInt i)
  have "show_int i \<noteq> []" by (simp add: show_int_def)
  with JInt show ?thesis
    using show_int_numbers [of i] by (cases "show_int i") (auto simp: json_kind_def start_kind_def)
next
  case (JFloat t)
  with assms show ?thesis by (cases t) (auto simp: float_text_def json_kind_def start_kind_def)
qed (auto simp: json_kind_def start_kind_def number_char_def write_json_string_def)

lemma same_kind:
  assumes "json_ok v" "json_ok w" "write_canonical v @ r = write_canonical w @ r'"
  shows "json_kind v = json_kind w"
  using write_canonical_start [OF assms(1)] write_canonical_start [OF assms(2)] assms(3) by auto

lemma delimiters [simp]: "delimiter (CHR '','' # r)" "delimiter (CHR '']'' # r)" "delimiter (CHR ''}'' # r)"
  by (simp_all add: delimiter_def)

text \<open>
  A list of pieces separated by commas and closed by a bracket can be cut back into its pieces,
  whenever each piece can be told apart from what follows it.
\<close>

lemma joined_unique:
  assumes piece: "\<And>x y r r'. x \<in> set xs \<Longrightarrow> y \<in> set ys \<Longrightarrow> delimiter r \<Longrightarrow> delimiter r'
      \<Longrightarrow> f x @ r = f y @ r' \<Longrightarrow> x = y \<and> r = r'"
    and start: "\<And>x. x \<in> set xs \<union> set ys \<Longrightarrow> \<exists>c t. f x = c # t \<and> c \<noteq> q"
    and q: "q = CHR '']'' \<or> q = CHR ''}''"
    and eq: "join '','' (map f xs) @ q # r = join '','' (map f ys) @ q # r'"
  shows "xs = ys \<and> r = r'"
  using piece start eq
proof (induction xs arbitrary: ys)
  case Nil
  then show ?case
  proof (cases ys)
    case (Cons y ys')
    then obtain c t where "f y = c # t" "c \<noteq> q" using Nil.prems(2) [of y] Cons by auto
    with Nil.prems(3) Cons show ?thesis by (cases ys') auto
  qed simp
next
  case (Cons x xs)
  obtain c t where x: "f x = c # t" "c \<noteq> q" using Cons.prems(2) [of x] by auto
  show ?case
  proof (cases ys)
    case Nil
    with Cons.prems(3) x show ?thesis by (cases xs) auto
  next
    case (Cons y ys')
    define rest where "rest zs u = (if zs = [] then q # u else CHR '','' # join '','' (map f zs) @ q # u)"
      for zs u
    have cons: "join '','' (map f (z # zs)) @ q # u = f z @ rest zs u" for z zs u
      by (cases zs) (simp_all add: rest_def)
    have del: "delimiter (rest zs u)" for zs u using q by (auto simp: rest_def)
    have "f x @ rest xs r = f y @ rest ys' r'"
      using Cons.prems(3) by (simp only: Cons cons)
    then have xy: "x = y" and "rest xs r = rest ys' r'"
      using Cons.prems(1) [of x y] del by (auto simp: Cons)
    then have "xs = ys' \<and> r = r'"
    proof (cases "xs = [] \<or> ys' = []")
      case True
      with \<open>rest xs r = rest ys' r'\<close> q show ?thesis by (auto simp: rest_def split: if_splits)
    next
      case False
      with \<open>rest xs r = rest ys' r'\<close>
      have "join '','' (map f xs) @ q # r = join '','' (map f ys') @ q # r'" by (simp add: rest_def)
      with Cons.IH [of ys'] Cons.prems(1,2) show ?thesis by (auto simp: Cons)
    qed
    with xy Cons show ?thesis by simp
  qed
qed

lemma write_canonical_unique:
  "json_ok v \<Longrightarrow> json_ok w \<Longrightarrow> delimiter r \<Longrightarrow> delimiter r'
   \<Longrightarrow> write_canonical v @ r = write_canonical w @ r' \<Longrightarrow> v = w \<and> r = r'"
proof (induction v arbitrary: w r r')
  case JNull
  from same_kind [OF JNull.prems(1,2,5)] JNull.prems show ?case
    by (cases w) (auto simp: json_kind_def split: if_splits)
next
  case (JBool b)
  from same_kind [OF JBool.prems(1,2,5)] JBool.prems show ?case
    by (cases w) (auto simp: json_kind_def split: if_splits)
next
  case (JInt i)
  from same_kind [OF JInt.prems(1,2,5)]
  consider j where "w = JInt j" | t where "w = JFloat t"
    by (cases w) (auto simp: json_kind_def split: if_splits)
  then show ?case
  proof cases
    case 1
    with JInt.prems number_prefix [OF show_int_numbers [of i] show_int_numbers [of j], of r r']
      show_int_inj [of i j] show ?thesis by auto
  next
    case 2
    with JInt.prems have "show_int i = t"
      using number_prefix [OF show_int_numbers] by (auto simp: float_text_def)
    with 2 JInt.prems(2) show_int_not_float show ?thesis by auto
  qed
next
  case (JFloat t)
  from same_kind [OF JFloat.prems(1,2,5)]
  consider u where "w = JFloat u" | j where "w = JInt j"
    by (cases w) (auto simp: json_kind_def split: if_splits)
  then show ?case
  proof cases
    case 1
    with JFloat.prems number_prefix [of t u r r'] show ?thesis by (auto simp: float_text_def)
  next
    case 2
    with JFloat.prems have "t = show_int j"
      using number_prefix [OF _ show_int_numbers] by (auto simp: float_text_def)
    with JFloat.prems(1) show_int_not_float show ?thesis by auto
  qed
next
  case (JStr s)
  from same_kind [OF JStr.prems(1,2,5)] obtain t where "w = JStr t"
    by (cases w) (auto simp: json_kind_def split: if_splits)
  with JStr.prems json_string_unique [of s t r r'] show ?case by simp
next
  case (JArr xs)
  from same_kind [OF JArr.prems(1,2,5)] obtain ys where w: "w = JArr ys"
    by (cases w) (auto simp: json_kind_def split: if_splits)
    have "xs = ys \<and> r = r'"
    proof (rule joined_unique [where f = write_canonical and q = "CHR '']''"])
      fix x y u u'
      assume "x \<in> set xs" "y \<in> set ys" "delimiter u" "delimiter u'"
        "write_canonical x @ u = write_canonical y @ u'"
      then show "x = y \<and> u = u'" using JArr.IH JArr.prems(1,2) w by auto
    next
      fix x assume "x \<in> set xs \<union> set ys"
      then have "json_ok x" using JArr.prems(1,2) w by auto
      have "json_kind x < 7" "start_kind (CHR '']'') = 7"
        by (auto simp: json_kind_def start_kind_def number_char_def split: json.splits)
      with write_canonical_start [OF \<open>json_ok x\<close>]
      show "\<exists>c t. write_canonical x = c # t \<and> c \<noteq> CHR '']''" by force
    next
      show "join '','' (map write_canonical xs) @ CHR '']'' # r
          = join '','' (map write_canonical ys) @ CHR '']'' # r'"
        using JArr.prems(5) w by simp
    qed simp
    with w show ?case by simp
next
  case (JObj m)
  from same_kind [OF JObj.prems(1,2,5)] obtain n where w: "w = JObj n"
    by (cases w) (auto simp: json_kind_def split: if_splits)
    let ?f = "\<lambda>(k, v). write_json_string k @ '':'' @ write_canonical v"
    have "m = n \<and> r = r'"
    proof (rule joined_unique [where f = ?f and q = "CHR ''}''"])
      fix x y u u'
      assume xy: "x \<in> set m" "y \<in> set n" "delimiter u" "delimiter u'" "?f x @ u = ?f y @ u'"
      obtain k v k' v' where kv: "x = (k, v)" "y = (k', v')" by (cases x; cases y)
      have ok: "valid_utf8 k" "valid_utf8 k'" "json_ok v" "json_ok v'"
        using xy(1,2) JObj.prems(1,2) w kv by auto
      have "write_json_string k @ CHR '':'' # write_canonical v @ u
          = write_json_string k' @ CHR '':'' # write_canonical v' @ u'"
        using xy(5) kv by simp
      then have "k = k'" "write_canonical v @ u = write_canonical v' @ u'"
        using json_string_unique [OF ok(1,2)] by blast+
      moreover have "v \<in> Basic_BNFs.snds x" "x \<in> set m" using xy(1) kv by auto
      ultimately show "x = y \<and> u = u'"
        using JObj.IH [of x v] ok xy(3,4) kv by auto
    next
      fix x assume "x \<in> set m \<union> set n"
      show "\<exists>c t. ?f x = c # t \<and> c \<noteq> CHR ''}''"
        by (auto simp: write_json_string_def split: prod.splits)
    next
      show "join '','' (map ?f m) @ CHR ''}'' # r = join '','' (map ?f n) @ CHR ''}'' # r'"
        using JObj.prems(5) w by (simp add: case_prod_unfold comp_def)
    qed simp
    with w show ?case by simp
qed

section \<open>What a signature and a commitment bind\<close>

definition redact :: "(string, json) btree \<Rightarrow> (string, json) btree" where
  "redact m = filter (\<lambda>(k, e). \<not> (k = ''signatures'' \<or> k = ''unsigned'')) m"

lemma canonical_json_redact: "canonical_json (JObj m) = write_canonical (JObj (redact m))"
  by (simp add: canonical_json_def redact_def case_prod_unfold comp_def)

lemma json_ok_redact: "json_ok (JObj m) \<Longrightarrow> json_ok (JObj (redact m))"
  by (auto simp: redact_def sorted_wrt_map sorted_wrt_filter)

lemma write_canonical_inj: "json_ok v \<Longrightarrow> json_ok w \<Longrightarrow> write_canonical v = write_canonical w \<longleftrightarrow> v = w"
  using write_canonical_unique [of v w "[]" "[]"] by (auto simp: delimiter_def)

text \<open>
  C28: Two objects are given the same bytes to sign exactly when they agree in every member other
  than the top-level signatures and unsigned ones: the signature of a device or one-time key binds
  all the rest, nested members included. The verbatim form the verification commitment hashes
  binds the whole value.
\<close>

theorem canonical_json_binds:
  assumes "json_ok (JObj m)" "json_ok (JObj n)" "json_ok v" "json_ok w"
  shows "(canonical_json (JObj m) = canonical_json (JObj n) \<longleftrightarrow> redact m = redact n)
    \<and> (canonical_json_verbatim v = canonical_json_verbatim w \<longleftrightarrow> v = w)"
  using write_canonical_inj [OF json_ok_redact [OF assms(1)] json_ok_redact [OF assms(2)]]
    write_canonical_inj [OF assms(3,4)]
  by (simp add: canonical_json_redact canonical_json_verbatim_def del: write_canonical.simps)

theorem canonical_json_binds_witness:
  "(canonical_json (JObj [(''a'', JInt 1), (''unsigned'', JNull)])
      = canonical_json (JObj [(''a'', JInt 1)])
    \<longleftrightarrow> redact [(''a'', JInt 1), (''unsigned'', JNull)] = redact [(''a'', JInt 1)])
   \<and> (canonical_json_verbatim JNull = canonical_json_verbatim (JBool True) \<longleftrightarrow> JNull = JBool True)"
proof (rule canonical_json_binds)
  have "ascii ''a''" "ascii ''unsigned''" by code_simp+
  then have "valid_utf8 ''a''" "valid_utf8 ''unsigned''" by (simp_all add: valid_utf8_ascii)
  moreover have "''a'' < ''unsigned''" by code_simp
  ultimately show "json_ok (JObj [(''a'', JInt 1), (''unsigned'', JNull)])" "json_ok (JObj [(''a'', JInt 1)])"
    by simp_all
qed simp_all

end
