(* ===== verification/Model.thy ===== *)
theory Model
  imports Json
begin

text \<open>
  The shared types of \<open>model.rs\<close> with the conversions from and to JSON that serde derives for
  them, and \<open>preview\<close>, with what the one-line preview guarantees.

  A derived decoder returns None where serde reports an error: a value of the wrong type, a number
  out of range, a missing field without a default. Fields the type does not name are skipped.
  serde's other accepted form of a struct, the positional array, is not modelled.
\<close>

section \<open>Persisted types\<close>

definition CLIENT_VERSION :: string where
  "CLIENT_VERSION = ''kmatrix 0.1.0''"

definition SYNC_FILTER :: string where
  "SYNC_FILTER =
     ''{\"presence\":{\"not_types\":[\"*\"]},'' @
     ''\"account_data\":{\"not_types\":[\"*\"]},'' @
     ''\"room\":{\"account_data\":{\"not_types\":[\"*\"]},'' @
     ''\"ephemeral\":{\"not_types\":[\"*\"]},'' @
     ''\"state\":{\"lazy_load_members\":true},'' @
     ''\"timeline\":{\"limit\":30,\"lazy_load_members\":true}}}''"

record session =
  homeserver :: string
  user_id :: string
  device_id :: string
  access_token :: string

record room =
  r_id :: string
  r_name :: string
  r_encrypted :: bool
  r_unread :: "32 word"
  r_last_ts :: "64 word"
  r_last_preview :: string

record message =
  m_event_id :: string
  m_room :: string
  m_sender :: string
  m_ts :: "64 word"
  m_sender_name :: "string option"
  m_body :: string
  m_encrypted :: bool
  m_decrypted :: bool
  m_mine :: bool
  m_session_id :: "string option"
  m_ciphertext :: "string option"

text \<open>What serde writes: the two fields marked \<open>skip\<close> never, the name only when there is one.\<close>

definition message_to_json :: "message \<Rightarrow> json" where
  "message_to_json m = obj (
     [(''event_id'', JStr (m_event_id m)), (''room'', JStr (m_room m)),
      (''sender'', JStr (m_sender m)), (''ts'', JU64 (m_ts m))]
     @ (case m_sender_name m of None \<Rightarrow> [] | Some n \<Rightarrow> [(''sender_name'', JStr n)])
     @ [(''body'', JStr (m_body m)), (''encrypted'', JBool (m_encrypted m)),
        (''decrypted'', JBool (m_decrypted m)), (''mine'', JBool (m_mine m))])"

definition room_to_json :: "room \<Rightarrow> json" where
  "room_to_json r = obj
     [(''id'', JStr (r_id r)), (''name'', JStr (r_name r)), (''encrypted'', JBool (r_encrypted r)),
      (''unread'', JInt (uint (r_unread r))), (''last_ts'', JU64 (r_last_ts r)),
      (''last_preview'', JStr (r_last_preview r))]"

text \<open>
  \<open>to_string\<close> writes the fields in the order of the struct, \<open>to_value\<close> sorts them as a map.
\<close>

definition session_fields :: "session \<Rightarrow> json" where
  "session_fields s = JObj
     [(''homeserver'', JStr (homeserver s)), (''user_id'', JStr (user_id s)),
      (''device_id'', JStr (device_id s)), (''access_token'', JStr (access_token s))]"

definition session_to_json :: "session \<Rightarrow> json" where
  "session_to_json s = obj
     [(''homeserver'', JStr (homeserver s)), (''user_id'', JStr (user_id s)),
      (''device_id'', JStr (device_id s)), (''access_token'', JStr (access_token s))]"

section \<open>Decoding\<close>

type_synonym 'a decoder = "json \<Rightarrow> 'a option"

text \<open>A field without a default, and one marked \<open>#[serde(default)]\<close>.\<close>

definition field :: "string \<Rightarrow> 'a decoder \<Rightarrow> (string, json) btree \<Rightarrow> 'a option" where
  "field k dec m = Option.bind (bt_get m k) dec"

definition field_or :: "'a \<Rightarrow> string \<Rightarrow> 'a decoder \<Rightarrow> (string, json) btree \<Rightarrow> 'a option" where
  "field_or d k dec m = (case bt_get m k of None \<Rightarrow> Some d | Some v \<Rightarrow> dec v)"

definition dec_str :: "string decoder" where
  "dec_str = as_str"

definition dec_opt :: "'a decoder \<Rightarrow> 'a option decoder" where
  "dec_opt dec v = (case v of JNull \<Rightarrow> Some None | _ \<Rightarrow> map_option Some (dec v))"

definition dec_u64 :: "64 word decoder" where
  "dec_u64 = as_u64"

definition dec_u32 :: "32 word decoder" where
  "dec_u32 v = (case v of JInt i \<Rightarrow> if 0 \<le> i \<and> i < 2 ^ 32 then Some (word_of_int i) else None
                | _ \<Rightarrow> None)"

primrec all_some :: "'a option list \<Rightarrow> 'a list option" where
  "all_some [] = Some []"
| "all_some (x # xs) = (case x of None \<Rightarrow> None | Some y \<Rightarrow> map_option ((#) y) (all_some xs))"

definition dec_list :: "'a decoder \<Rightarrow> 'a list decoder" where
  "dec_list dec v = (case v of JArr xs \<Rightarrow> all_some (map dec xs) | _ \<Rightarrow> None)"

definition dec_map :: "'a decoder \<Rightarrow> (string \<times> 'a) list decoder" where
  "dec_map dec v =
     (case v of JObj m \<Rightarrow> all_some (map (\<lambda>(k, w). map_option (Pair k) (dec w)) m) | _ \<Rightarrow> None)"

abbreviation string_field :: "string \<Rightarrow> (string, json) btree \<Rightarrow> string option" where
  "string_field k m \<equiv> field_or [] k dec_str m"

abbreviation option_field :: "string \<Rightarrow> (string, json) btree \<Rightarrow> string option option" where
  "option_field k m \<equiv> field_or None k (dec_opt dec_str) m"

definition dec_session :: "session decoder" where
  "dec_session v = Option.bind (as_object v) (\<lambda>m.
     Option.bind (field ''homeserver'' dec_str m) (\<lambda>h.
     Option.bind (field ''user_id'' dec_str m) (\<lambda>u.
     Option.bind (field ''device_id'' dec_str m) (\<lambda>d.
     Option.bind (field ''access_token'' dec_str m) (\<lambda>t.
     Some \<lparr>homeserver = h, user_id = u, device_id = d, access_token = t\<rparr>)))))"

section \<open>State and requests\<close>

datatype state = LoggedOut | Connecting | Syncing | Offline

fun state_as_str :: "state \<Rightarrow> string" where
  "state_as_str LoggedOut = ''logged_out''"
| "state_as_str Connecting = ''connecting''"
| "state_as_str Syncing = ''syncing''"
| "state_as_str Offline = ''offline''"

datatype request =
    Hello string
  | Status
  | Login string string string
  | Logout
  | Rooms
  | Messages string "32 word"
  | Send string string
  | MarkRead string string
  | SyncNow
  | LoadOlder string "32 word"
  | BackupKey string
  | VerifyConfirm string bool
  | Shutdown

definition default_backfill :: "32 word" where
  "default_backfill = 50"

definition default_limit :: "32 word" where
  "default_limit = 50"

definition dec_bool :: "bool decoder" where
  "dec_bool = as_bool"

text \<open>The internally tagged enum: \<open>cmd\<close> chooses the variant, its fields sit beside it.\<close>

definition dec_request :: "(string, json) btree \<Rightarrow> request option" where
  "dec_request m =
     (case field ''cmd'' dec_str m of
        None \<Rightarrow> None
      | Some c \<Rightarrow>
         if c = ''hello'' then map_option Hello (field ''token'' dec_str m)
         else if c = ''status'' then Some Status
         else if c = ''login'' then
           (case (field ''homeserver'' dec_str m, field ''user'' dec_str m, field ''password'' dec_str m) of
              (Some h, Some u, Some p) \<Rightarrow> Some (Login h u p) | _ \<Rightarrow> None)
         else if c = ''logout'' then Some Logout
         else if c = ''rooms'' then Some Rooms
         else if c = ''messages'' then
           (case (field ''room'' dec_str m, field_or default_limit ''limit'' dec_u32 m) of
              (Some r, Some l) \<Rightarrow> Some (Messages r l) | _ \<Rightarrow> None)
         else if c = ''send'' then
           (case (field ''room'' dec_str m, field ''body'' dec_str m) of
              (Some r, Some b) \<Rightarrow> Some (Send r b) | _ \<Rightarrow> None)
         else if c = ''mark_read'' then
           (case (field ''room'' dec_str m, field ''event_id'' dec_str m) of
              (Some r, Some e) \<Rightarrow> Some (MarkRead r e) | _ \<Rightarrow> None)
         else if c = ''sync_now'' then Some SyncNow
         else if c = ''load_older'' then
           (case (field ''room'' dec_str m, field_or default_backfill ''limit'' dec_u32 m) of
              (Some r, Some l) \<Rightarrow> Some (LoadOlder r l) | _ \<Rightarrow> None)
         else if c = ''backup_key'' then map_option BackupKey (field ''key'' dec_str m)
         else if c = ''verify_confirm'' then
           (case (field ''transaction'' dec_str m, field ''confirm'' dec_bool m) of
              (Some t, Some b) \<Rightarrow> Some (VerifyConfirm t b) | _ \<Rightarrow> None)
         else if c = ''shutdown'' then Some Shutdown
         else None)"

record envelope =
  env_id :: "64 word"
  env_cmd :: request

definition dec_envelope :: "envelope decoder" where
  "dec_envelope v = Option.bind (as_object v) (\<lambda>m.
     (case (field ''id'' dec_u64 m, dec_request m) of
        (Some i, Some c) \<Rightarrow> Some \<lparr>env_id = i, env_cmd = c\<rparr> | _ \<Rightarrow> None))"

section \<open>The sync payload\<close>

record relation =
  rel_type :: "string option"
  rel_event_id :: "string option"

text \<open>The content of every event type in one struct; an edit holds the content it puts in place.\<close>

datatype event_content = EventContent
  (c_body: "string option") (c_msgtype: "string option") (c_name: "string option")
  (c_alias: "string option") (c_displayname: "string option") (c_algorithm: "string option")
  (c_ciphertext: "string option") (c_sender_key: "string option") (c_session_id: "string option")
  (c_device_id: "string option") (c_membership: "string option")
  (c_new_content: "event_content option") (c_relates_to: "relation option")

definition empty_content :: event_content where
  "empty_content = EventContent None None None None None None None None None None None None None"

record room_event =
  e_kind :: string
  e_sender :: string
  e_event_id :: string
  e_ts :: "64 word"
  e_state_key :: "string option"
  e_content :: event_content

record timeline =
  tl_events :: "room_event list"
  tl_prev_batch :: "string option"
  tl_limited :: bool

record room_summary =
  heroes :: "string list"
  joined_member_count :: "32 word"
  invited_member_count :: "32 word"

record joined_room =
  j_timeline :: timeline
  j_state :: "room_event list"
  j_notification_count :: "32 word"
  j_summary :: room_summary

record to_device_event =
  td_kind :: string
  td_sender :: string
  td_content :: json

record sync_response =
  next_batch :: string
  sr_join :: "(string \<times> joined_room) list"
  sr_leave :: "string list"
  sr_to_device :: "to_device_event list"
  sr_otk_count :: "32 word"
  sr_changed :: "string list"
  sr_left :: "string list"

definition dec_relation :: "relation decoder" where
  "dec_relation v = Option.bind (as_object v) (\<lambda>m.
     (case (option_field ''rel_type'' m, option_field ''event_id'' m) of
        (Some r, Some e) \<Rightarrow> Some \<lparr>rel_type = r, rel_event_id = e\<rparr> | _ \<Rightarrow> None))"

lemma size_member: "bt_get m k = Some w \<Longrightarrow> size w < size (JObj m)"
proof -
  assume "bt_get m k = Some w"
  then have "(k, w) \<in> set m" by (rule map_of_SomeD)
  then show "size w < size (JObj m)" by (induction m) auto
qed

text \<open>The string fields in the order the struct declares them.\<close>

definition content_fields :: "string list" where
  "content_fields =
     [''body'', ''msgtype'', ''name'', ''alias'', ''displayname'', ''algorithm'', ''ciphertext'',
      ''sender_key'', ''session_id'', ''device_id'', ''membership'']"

function dec_content :: "json \<Rightarrow> event_content option" where
  "dec_content (JObj m) =
     (case all_some (map (\<lambda>k. option_field k m) content_fields) of
        Some [b, mt, n, a, dn, alg, ct, sk, sid, did, mem] \<Rightarrow>
          (case (case bt_get m ''m.new_content'' of
                   None \<Rightarrow> Some None
                 | Some w \<Rightarrow> if w = JNull then Some None else map_option Some (dec_content w)) of
             None \<Rightarrow> None
           | Some nc \<Rightarrow>
              map_option (\<lambda>rel. EventContent b mt n a dn alg ct sk sid did mem nc rel)
                (field_or None ''m.relates_to'' (dec_opt dec_relation) m))
      | _ \<Rightarrow> None)"
| "dec_content JNull = None"
| "dec_content (JBool b) = None"
| "dec_content (JInt i) = None"
| "dec_content (JFloat t) = None"
| "dec_content (JStr s) = None"
| "dec_content (JArr xs) = None"
  by pat_completeness auto
termination
  by (relation "measure size") (auto dest: size_member)

definition dec_room_event :: "room_event decoder" where
  "dec_room_event v = Option.bind (as_object v) (\<lambda>m.
     (case (string_field ''type'' m, string_field ''sender'' m, string_field ''event_id'' m,
            field_or 0 ''origin_server_ts'' dec_u64 m, option_field ''state_key'' m,
            field_or empty_content ''content'' dec_content m) of
        (Some k, Some s, Some e, Some t, Some sk, Some c) \<Rightarrow>
          Some \<lparr>e_kind = k, e_sender = s, e_event_id = e, e_ts = t, e_state_key = sk, e_content = c\<rparr>
      | _ \<Rightarrow> None))"

definition empty_timeline :: timeline where
  "empty_timeline = \<lparr>tl_events = [], tl_prev_batch = None, tl_limited = False\<rparr>"

definition dec_timeline :: "timeline decoder" where
  "dec_timeline v = Option.bind (as_object v) (\<lambda>m.
     (case (field_or [] ''events'' (dec_list dec_room_event) m, option_field ''prev_batch'' m,
            field_or False ''limited'' dec_bool m) of
        (Some es, Some p, Some l) \<Rightarrow> Some \<lparr>tl_events = es, tl_prev_batch = p, tl_limited = l\<rparr>
      | _ \<Rightarrow> None))"

definition dec_state_block :: "room_event list decoder" where
  "dec_state_block v = Option.bind (as_object v) (field_or [] ''events'' (dec_list dec_room_event))"

definition dec_unread :: "32 word decoder" where
  "dec_unread v = Option.bind (as_object v) (field_or 0 ''notification_count'' dec_u32)"

definition empty_summary :: room_summary where
  "empty_summary = \<lparr>heroes = [], joined_member_count = 0, invited_member_count = 0\<rparr>"

definition dec_summary :: "room_summary decoder" where
  "dec_summary v = Option.bind (as_object v) (\<lambda>m.
     (case (field_or [] ''m.heroes'' (dec_list dec_str) m,
            field_or 0 ''m.joined_member_count'' dec_u32 m,
            field_or 0 ''m.invited_member_count'' dec_u32 m) of
        (Some h, Some j, Some i) \<Rightarrow>
          Some \<lparr>heroes = h, joined_member_count = j, invited_member_count = i\<rparr>
      | _ \<Rightarrow> None))"

definition dec_joined_room :: "joined_room decoder" where
  "dec_joined_room v = Option.bind (as_object v) (\<lambda>m.
     (case (field_or empty_timeline ''timeline'' dec_timeline m,
            field_or [] ''state'' dec_state_block m,
            field_or 0 ''unread_notifications'' dec_unread m,
            field_or empty_summary ''summary'' dec_summary m) of
        (Some t, Some s, Some u, Some h) \<Rightarrow>
          Some \<lparr>j_timeline = t, j_state = s, j_notification_count = u, j_summary = h\<rparr>
      | _ \<Rightarrow> None))"

definition dec_to_device_event :: "to_device_event decoder" where
  "dec_to_device_event v = Option.bind (as_object v) (\<lambda>m.
     (case (string_field ''type'' m, string_field ''sender'' m, field_or JNull ''content'' Some m) of
        (Some k, Some s, Some c) \<Rightarrow> Some \<lparr>td_kind = k, td_sender = s, td_content = c\<rparr>
      | _ \<Rightarrow> None))"

text \<open>The two maps of \<open>rooms\<close>, of which a left room keeps only its id.\<close>

definition dec_sync_rooms :: "((string \<times> joined_room) list \<times> string list) decoder" where
  "dec_sync_rooms v = Option.bind (as_object v) (\<lambda>m.
     (case (field_or [] ''join'' (dec_map dec_joined_room) m,
            field_or [] ''leave'' (dec_map (\<lambda>_. Some ())) m) of
        (Some j, Some l) \<Rightarrow> Some (j, map fst l)
      | _ \<Rightarrow> None))"

definition dec_device_lists :: "(string list \<times> string list) decoder" where
  "dec_device_lists v = Option.bind (as_object v) (\<lambda>m.
     (case (field_or [] ''changed'' (dec_list dec_str) m, field_or [] ''left'' (dec_list dec_str) m) of
        (Some c, Some l) \<Rightarrow> Some (c, l)
      | _ \<Rightarrow> None))"

definition dec_otk_count :: "32 word decoder" where
  "dec_otk_count v = Option.bind (as_object v) (field_or 0 ''signed_curve25519'' dec_u32)"

definition dec_sync_response :: "sync_response decoder" where
  "dec_sync_response v = Option.bind (as_object v) (\<lambda>m.
     (case (field ''next_batch'' dec_str m, field_or ([], []) ''rooms'' dec_sync_rooms m,
            field_or [] ''to_device''
              (\<lambda>w. Option.bind (as_object w) (field_or [] ''events'' (dec_list dec_to_device_event))) m,
            field_or 0 ''device_one_time_keys_count'' dec_otk_count m,
            field_or ([], []) ''device_lists'' dec_device_lists m) of
        (Some b, Some (j, l), Some td, Some n, Some (ch, le)) \<Rightarrow>
          Some \<lparr>next_batch = b, sr_join = j, sr_leave = l, sr_to_device = td, sr_otk_count = n,
                sr_changed = ch, sr_left = le\<rparr>
      | _ \<Rightarrow> None))"

text \<open>The plaintext of an encrypted event, of which only the content is used.\<close>

definition dec_decrypted_event :: "event_content decoder" where
  "dec_decrypted_event v = Option.bind (as_object v) (field_or empty_content ''content'' dec_content)"

section \<open>The preview line\<close>

text \<open>Cut to \<open>limit\<close> characters (the code calls it \<open>max\<close>), an ellipsis being one of them.\<close>

definition preview_chars :: "nat list \<Rightarrow> nat \<Rightarrow> nat list" where
  "preview_chars body limit =
     (let flat = map (\<lambda>c. if is_control c then 0x20 else c) body;
          flat = join [0x20] (split_whitespace flat)
      in if length flat \<le> limit then flat else take (limit - 1) flat @ [0x2026])"

definition preview :: "string \<Rightarrow> nat \<Rightarrow> string" where
  "preview body limit = utf8 (preview_chars (chars body) limit)"

lemma split_on_append_sep:
  "(\<And>c. c \<in> set w \<Longrightarrow> \<not> P c) \<Longrightarrow> P x \<Longrightarrow> split_on P (w @ x # s) = w # split_on P s"
  by (induction w) auto

lemma split_whitespace_join:
  assumes "\<And>w. w \<in> set ws \<Longrightarrow> w \<noteq> [] \<and> (\<forall>c \<in> set w. \<not> is_whitespace c)"
  shows "split_whitespace (join [0x20] ws) = ws"
  using assms
proof (induction "[0x20] :: nat list" ws rule: join.induct)
  case 1
  then show ?case by (simp add: split_whitespace_def)
next
  case (2 x)
  then show ?case by (simp add: split_whitespace_def split_on_none)
next
  case (3 x y ys)
  have "split_on is_whitespace (join [0x20] (x # y # ys))
      = x # split_on is_whitespace (join [0x20] (y # ys))"
  proof -
    have "is_whitespace 0x20" by (simp add: is_whitespace_def)
    moreover have "\<not> is_whitespace c" if "c \<in> set x" for c using 3(2) [of x] that by simp
    ultimately show ?thesis by (simp add: split_on_append_sep)
  qed
  moreover have "split_whitespace (join [0x20] (y # ys)) = y # ys"
    by (rule 3(1), rule 3(2)) simp
  moreover have "x \<noteq> []" using 3(2) [of x] by simp
  ultimately show ?case by (simp add: split_whitespace_def)
qed

lemma split_whitespace_words:
  "w \<in> set (split_whitespace cs) \<Longrightarrow> w \<noteq> [] \<and> (\<forall>c \<in> set w. \<not> is_whitespace c)"
  unfolding split_whitespace_def using split_on_pieces by fastforce

definition flat_words :: "string \<Rightarrow> nat list list" where
  "flat_words body = split_whitespace (map (\<lambda>c. if is_control c then 0x20 else c) (chars body))"

definition preview_char :: "nat \<Rightarrow> bool" where
  "preview_char c \<longleftrightarrow> scalar c \<and> \<not> is_control c \<and> (c = 0x20 \<or> \<not> is_whitespace c)"

lemma flat_char_ok:
  assumes "valid_utf8 body"
  shows "list_all preview_char (join [0x20] (flat_words body))"
proof -
  have "preview_char c" if w: "w \<in> set (flat_words body)" and c: "c \<in> set w" for w c
  proof -
    have "\<not> is_whitespace c" using split_whitespace_words w c by (auto simp: flat_words_def)
    moreover have "c \<in> set (map (\<lambda>c. if is_control c then 0x20 else c) (chars body))"
      using w c split_on_pieces unfolding flat_words_def split_whitespace_def by fastforce
    then have "scalar c \<and> \<not> is_control c"
      using assms by (auto simp: valid_utf8_def list_all_iff is_control_def scalar_def split: if_splits)
    ultimately show ?thesis by (simp add: preview_char_def)
  qed
  moreover have "preview_char 0x20" by (simp add: preview_char_def scalar_def is_control_def)
  ultimately show ?thesis
    using set_join [of "[0x20]" "flat_words body"] by (fastforce simp: list_all_iff)
qed

lemma preview_chars_flat:
  "preview_chars (chars body) limit =
     (let flat = join [0x20] (flat_words body)
      in if length flat \<le> limit then flat else take (limit - 1) flat @ [0x2026])"
  by (simp add: preview_chars_def flat_words_def Let_def)

lemma preview_chars_ok:
  assumes "valid_utf8 body"
  shows "list_all preview_char (preview_chars (chars body) limit)"
proof -
  have "preview_char 0x2026"
    by (simp add: preview_char_def scalar_def is_control_def is_whitespace_def)
  then show ?thesis using flat_char_ok [OF assms]
    by (auto simp: preview_chars_flat Let_def list_all_iff dest: in_set_takeD)
qed

lemma chars_preview: "valid_utf8 body \<Longrightarrow> chars (preview body limit) = preview_chars (chars body) limit"
  unfolding preview_def using preview_chars_ok [of body limit]
  by (intro chars_utf8) (auto simp: list_all_iff preview_char_def)

text \<open>
  The preview of a message is a single line of at most the asked number of characters: it
  holds no control character and no white space but single blanks, and when nothing had to be
  cut its words are exactly the words of the body, in order.
\<close>

theorem preview_single_line:
  assumes "valid_utf8 body" and "0 < limit"
  shows "length (chars (preview body limit)) \<le> limit
    \<and> list_all preview_char (chars (preview body limit))
    \<and> (length (join [0x20] (flat_words body)) \<le> limit
         \<longrightarrow> split_whitespace (chars (preview body limit)) = flat_words body)"
proof (intro conjI impI)
  show "length (chars (preview body limit)) \<le> limit"
    using assms by (simp add: chars_preview preview_chars_flat Let_def)
  show "list_all preview_char (chars (preview body limit))"
    using assms by (simp add: chars_preview preview_chars_ok)
  have words: "split_whitespace (join [0x20] (flat_words body)) = flat_words body"
    by (rule split_whitespace_join) (simp add: flat_words_def split_whitespace_words)
  show "split_whitespace (chars (preview body limit)) = flat_words body"
    if "length (join [0x20] (flat_words body)) \<le> limit"
    using that assms(1) words by (simp add: chars_preview preview_chars_flat Let_def)
qed

theorem preview_single_line_witness:
  "length (chars (preview ''a  bc'' 3)) \<le> 3 \<and> list_all preview_char (chars (preview ''a  bc'' 3))"
proof -
  have "ascii ''a  bc''" by code_simp
  then have "valid_utf8 ''a  bc''" by (rule valid_utf8_ascii)
  from preview_single_line [OF this, of 3] show ?thesis by simp
qed

end
