(* ===== verification/Store.thy ===== *)
theory Store
  imports Table Seal Model
begin

text \<open>
  The store of \<open>store.rs\<close>: its six tables, and one definition per operation, each the SQL statement
  it runs with the encryption of \<open>protect\<close> and \<open>reveal\<close> around it. Reading operations are functions of
  the store, writing ones return the store they leave. Failures of the SQLite engine itself (a full
  disk, a corrupt page) are not modelled, so what can fail is what the code adds: a value that does
  not unseal, a session that does not parse.
\<close>

section \<open>Tables\<close>

text \<open>A \<open>u64\<close> timestamp is bound as \<open>i64\<close> and read back through \<open>max(0)\<close>.\<close>

definition ts_column :: "64 word \<Rightarrow> int" where
  "ts_column ts = sint ts"

definition ts_value :: "int \<Rightarrow> 64 word" where
  "ts_value i = word_of_int (max 0 i)"

record room_row =
  rr_id :: string
  rr_name :: string
  rr_encrypted :: bool
  rr_unread :: int
  rr_last_ts :: int
  rr_last_preview :: string
  rr_back_token :: "string option"
  rr_back_done :: bool

record message_row =
  mr_rowid :: int
  mr_event_id :: string
  mr_room :: string
  mr_sender :: string
  mr_ts :: int
  mr_body :: string
  mr_encrypted :: bool
  mr_decrypted :: bool
  mr_mine :: bool
  mr_session_id :: "string option"
  mr_ciphertext :: "string option"

record edit_row =
  er_target :: string
  er_ts :: int
  er_body :: string

record member_row =
  mb_rowid :: int
  mb_room :: string
  mb_user_id :: string
  mb_name :: string

record pickle_row =
  pk_kind :: string
  pk_id :: string
  pk_extra :: string
  pk_pickle :: string

record db =
  t_meta :: "(string \<times> string) list"
  t_room :: "room_row list"
  t_message :: "message_row list"
  t_edit :: "edit_row list"
  t_member :: "member_row list"
  t_pickle :: "pickle_row list"

text \<open>The connection and the master key, with the number of salts drawn so far.\<close>

record store =
  s_db :: db
  s_key :: "string option"
  s_draws :: nat

abbreviation mb_key :: "member_row \<Rightarrow> string \<times> string" where
  "mb_key r \<equiv> (mb_room r, mb_user_id r)"

abbreviation pk_key :: "pickle_row \<Rightarrow> string \<times> string" where
  "pk_key r \<equiv> (pk_kind r, pk_id r)"

definition on_db :: "(db \<Rightarrow> db) \<Rightarrow> store \<Rightarrow> store" where
  "on_db f s = s\<lparr>s_db := f (s_db s)\<rparr>"

section \<open>Encryption on the way in and out\<close>

definition protect :: "cipher_lib \<Rightarrow> string \<Rightarrow> store \<Rightarrow> string \<times> store" where
  "protect L plain s =
     (case s_key s of
        Some master \<Rightarrow> (seal L (salt_at L (s_draws s)) master plain, s\<lparr>s_draws := s_draws s + 1\<rparr>)
      | None \<Rightarrow> (plain, s))"

definition protect_opt :: "cipher_lib \<Rightarrow> string option \<Rightarrow> store \<Rightarrow> string option \<times> store" where
  "protect_opt L plain s =
     (case plain of None \<Rightarrow> (None, s) | Some p \<Rightarrow> (let (c, s') = protect L p s in (Some c, s')))"

definition reveal :: "cipher_lib \<Rightarrow> string \<Rightarrow> string \<Rightarrow> store \<Rightarrow> string result" where
  "reveal L column stored s = unseal L (s_key s) column stored"

definition reveal_opt :: "cipher_lib \<Rightarrow> string \<Rightarrow> string option \<Rightarrow> store \<Rightarrow> string option result" where
  "reveal_opt L column stored s =
     (case stored of
        Some v \<Rightarrow> bind_ok (reveal L column v s) (\<lambda>p. Inr (Some p))
      | None \<Rightarrow> Inr None)"

section \<open>meta and the session\<close>

definition put_meta_row :: "string \<Rightarrow> string \<Rightarrow> db \<Rightarrow> db" where
  "put_meta_row k v d = d\<lparr>t_meta := upsert fst (k, v) (\<lambda>r. (fst r, v)) (t_meta d)\<rparr>"

definition meta_row :: "string \<Rightarrow> db \<Rightarrow> string option" where
  "meta_row k d = map_option snd (row_at fst k (t_meta d))"

definition set_meta :: "cipher_lib \<Rightarrow> string \<Rightarrow> string \<Rightarrow> store \<Rightarrow> store" where
  "set_meta L k v s =
     (let (stored, s') = (case secret_meta_label k of Some _ \<Rightarrow> protect L v s | None \<Rightarrow> (v, s))
      in on_db (put_meta_row k stored) s')"

definition get_meta :: "cipher_lib \<Rightarrow> string \<Rightarrow> store \<Rightarrow> string option result" where
  "get_meta L k s =
     (let stored = meta_row k (s_db s) in
      case secret_meta_label k of
        Some label \<Rightarrow> reveal_opt L label stored s
      | None \<Rightarrow> Inr stored)"

definition save_session :: "cipher_lib \<Rightarrow> json_lib \<Rightarrow> session \<Rightarrow> store \<Rightarrow> store" where
  "save_session L J sess s =
     set_meta L SESSION_KEY
       (json_print J (session_fields sess)) s"

definition load_session :: "cipher_lib \<Rightarrow> json_lib \<Rightarrow> store \<Rightarrow> session option result" where
  "load_session L J s =
     bind_ok (get_meta L SESSION_KEY s) (\<lambda>m.
       case m of
         Some json \<Rightarrow>
           (case from_str J dec_session json of
              Inl e \<Rightarrow> Inl (Context ''parse stored session'' (Msg e))
            | Inr sess \<Rightarrow> Inr (Some sess))
       | None \<Rightarrow> Inr None)"

definition mark_encrypted :: "db \<Rightarrow> db" where
  "mark_encrypted d = put_meta_row ENCRYPTED_FLAG ''1'' d"

definition empty_db :: db where
  "empty_db = \<lparr>t_meta = [], t_room = [], t_message = [], t_edit = [], t_member = [], t_pickle = []\<rparr>"

definition clear :: "store \<Rightarrow> store" where
  "clear s =
     (let s' = s\<lparr>s_db := empty_db\<rparr>
      in if s_key s' \<noteq> None then on_db mark_encrypted s' else s')"

section \<open>Rooms\<close>

definition upsert_room :: "cipher_lib \<Rightarrow> room \<Rightarrow> store \<Rightarrow> store" where
  "upsert_room L r s =
     (let (name, s1) = protect L (r_name r) s;
          (preview, s2) = protect L (r_last_preview r) s1
      in on_db (\<lambda>d. d\<lparr>t_room := upsert rr_id
           \<lparr>rr_id = r_id r, rr_name = name, rr_encrypted = r_encrypted r, rr_unread = uint (r_unread r),
            rr_last_ts = ts_column (r_last_ts r), rr_last_preview = preview,
            rr_back_token = None, rr_back_done = False\<rparr>
           (\<lambda>row. row\<lparr>rr_name := name, rr_encrypted := r_encrypted r, rr_unread := uint (r_unread r),
                      rr_last_ts := ts_column (r_last_ts r), rr_last_preview := preview\<rparr>)
           (t_room d)\<rparr>) s2)"

text \<open>One row as the reading operations return it.\<close>

definition read_room :: "cipher_lib \<Rightarrow> store \<Rightarrow> room_row \<Rightarrow> room result" where
  "read_room L s row =
     bind_ok (reveal L ''room.name'' (rr_name row) s) (\<lambda>name.
     bind_ok (reveal L ''room.last_preview'' (rr_last_preview row) s) (\<lambda>preview.
       Inr \<lparr>r_id = rr_id row, r_name = name, r_encrypted = rr_encrypted row,
            r_unread = word_of_int (max 0 (rr_unread row)), r_last_ts = ts_value (rr_last_ts row),
            r_last_preview = preview\<rparr>))"

definition list_rooms :: "cipher_lib \<Rightarrow> store \<Rightarrow> room list result" where
  "list_rooms L s =
     collect (read_room L s) (order_by (\<lambda>row. (- rr_last_ts row, rr_id row)) (t_room (s_db s)))"

definition get_room :: "cipher_lib \<Rightarrow> string \<Rightarrow> store \<Rightarrow> room option result" where
  "get_room L i s =
     (case row_at rr_id i (t_room (s_db s)) of
        Some row \<Rightarrow> bind_ok (read_room L s row) (\<lambda>r. Inr (Some r))
      | None \<Rightarrow> Inr None)"

definition back_token :: "string \<Rightarrow> store \<Rightarrow> string option \<times> bool" where
  "back_token r s =
     (case row_at rr_id r (t_room (s_db s)) of
        Some row \<Rightarrow> (rr_back_token row, rr_back_done row)
      | None \<Rightarrow> (None, False))"

definition seed_back_token :: "string \<Rightarrow> string \<Rightarrow> store \<Rightarrow> bool \<times> store" where
  "seed_back_token r token s =
     (let hit = (\<lambda>row. rr_id row = r \<and> rr_back_token row = None)
      in (list_ex hit (t_room (s_db s)),
          on_db (\<lambda>d. d\<lparr>t_room := update_rows hit (\<lambda>row. row\<lparr>rr_back_token := Some token\<rparr>) (t_room d)\<rparr>) s))"

definition set_back_token :: "string \<Rightarrow> string option \<Rightarrow> bool \<Rightarrow> store \<Rightarrow> store" where
  "set_back_token r token reached_start s =
     on_db (\<lambda>d. d\<lparr>t_room := update_rows (\<lambda>row. rr_id row = r)
       (\<lambda>row. row\<lparr>rr_back_token := token, rr_back_done := reached_start\<rparr>) (t_room d)\<rparr>) s"

section \<open>Messages\<close>

definition edit_body :: "string \<Rightarrow> db \<Rightarrow> string option" where
  "edit_body target d = map_option er_body (row_at er_target target (t_edit d))"

text \<open>\<open>COALESCE((SELECT body FROM edit WHERE target = ?1), body)\<close>\<close>

definition coalesce_edit :: "string \<Rightarrow> string \<Rightarrow> db \<Rightarrow> string" where
  "coalesce_edit event_id body d = (case edit_body event_id d of Some b \<Rightarrow> b | None \<Rightarrow> body)"

definition insert_message :: "cipher_lib \<Rightarrow> message \<Rightarrow> store \<Rightarrow> store" where
  "insert_message L m s =
     (let (body, s1) = protect L (m_body m) s;
          (ciphertext, s2) = protect_opt L (m_ciphertext m) s1
      in on_db (\<lambda>d.
           let shown = coalesce_edit (m_event_id m) body d
           in d\<lparr>t_message := upsert mr_event_id
                \<lparr>mr_rowid = next_rowid mr_rowid (t_message d), mr_event_id = m_event_id m,
                 mr_room = m_room m, mr_sender = m_sender m, mr_ts = ts_column (m_ts m),
                 mr_body = shown, mr_encrypted = m_encrypted m, mr_decrypted = m_decrypted m,
                 mr_mine = m_mine m, mr_session_id = m_session_id m, mr_ciphertext = ciphertext\<rparr>
                (\<lambda>row. row\<lparr>mr_body := shown, mr_decrypted := m_decrypted m,
                           mr_session_id := m_session_id m, mr_ciphertext := ciphertext\<rparr>)
                (t_message d)\<rparr>) s2)"

definition read_message :: "cipher_lib \<Rightarrow> store \<Rightarrow> message_row \<Rightarrow> message result" where
  "read_message L s row =
     bind_ok (reveal L ''message.body'' (mr_body row) s) (\<lambda>body.
     bind_ok (reveal_opt L ''member.name''
                (map_option mb_name (row_at mb_key (mr_room row, mr_sender row) (t_member (s_db s)))) s)
       (\<lambda>name.
     bind_ok (reveal_opt L ''message.ciphertext'' (mr_ciphertext row) s) (\<lambda>ciphertext.
       Inr \<lparr>m_event_id = mr_event_id row, m_room = mr_room row, m_sender = mr_sender row,
            m_ts = ts_value (mr_ts row), m_sender_name = name, m_body = body,
            m_encrypted = mr_encrypted row, m_decrypted = mr_decrypted row, m_mine = mr_mine row,
            m_session_id = mr_session_id row, m_ciphertext = ciphertext\<rparr>)))"

definition newest_rows :: "(message_row \<Rightarrow> bool) \<Rightarrow> 32 word \<Rightarrow> store \<Rightarrow> message_row list" where
  "newest_rows P limit s =
     take (unat limit) (order_desc (\<lambda>row. (mr_ts row, mr_event_id row)) (filter P (t_message (s_db s))))"

definition recent_messages :: "cipher_lib \<Rightarrow> string \<Rightarrow> 32 word \<Rightarrow> store \<Rightarrow> message list result" where
  "recent_messages L r limit s =
     bind_ok (collect (read_message L s) (newest_rows (\<lambda>row. mr_room row = r) limit s))
       (\<lambda>out. Inr (rev out))"

definition placeholder_row :: "string \<Rightarrow> message_row \<Rightarrow> bool" where
  "placeholder_row r row \<longleftrightarrow>
     mr_room row = r \<and> mr_encrypted row \<and> \<not> mr_decrypted row \<and> mr_ciphertext row = None"

definition placeholders_without_ciphertext :: "string \<Rightarrow> 32 word \<Rightarrow> store \<Rightarrow> nat" where
  "placeholders_without_ciphertext r limit s =
     length (take (unat limit) (order_desc mr_ts (filter (placeholder_row r) (t_message (s_db s)))))"

text \<open>
  \<open>ORDER BY ts DESC\<close> alone leaves the order of equal timestamps to SQLite; no statement below
  depends on it.
\<close>

definition placeholder_event_ids :: "string \<Rightarrow> 32 word \<Rightarrow> store \<Rightarrow> string list" where
  "placeholder_event_ids r limit s =
     map mr_event_id (take (unat limit) (order_desc mr_ts (filter (placeholder_row r) (t_message (s_db s)))))"

definition retry_row :: "string \<Rightarrow> message_row \<Rightarrow> bool" where
  "retry_row r row \<longleftrightarrow>
     mr_room row = r \<and> mr_encrypted row \<and> \<not> mr_decrypted row
     \<and> mr_session_id row \<noteq> None \<and> mr_ciphertext row \<noteq> None"

definition undecrypted_in_room ::
  "cipher_lib \<Rightarrow> string \<Rightarrow> 32 word \<Rightarrow> store \<Rightarrow> (string \<times> string \<times> string) list result" where
  "undecrypted_in_room L r limit s =
     collect (\<lambda>row. bind_ok (reveal L ''message.ciphertext'' (the (mr_ciphertext row)) s)
                (\<lambda>ct. Inr (mr_event_id row, the (mr_session_id row), ct)))
       (newest_rows (retry_row r) limit s)"

definition upgrade_message :: "cipher_lib \<Rightarrow> string \<Rightarrow> string \<Rightarrow> store \<Rightarrow> store" where
  "upgrade_message L event_id body s =
     (let (body, s1) = protect L body s
      in on_db (\<lambda>d. d\<lparr>t_message := update_rows (\<lambda>row. mr_event_id row = event_id)
           (\<lambda>row. row\<lparr>mr_body := coalesce_edit event_id body d, mr_decrypted := True,
                      mr_session_id := None, mr_ciphertext := None\<rparr>) (t_message d)\<rparr>) s1)"

text \<open>
  The conditional upsert of the edit, and the update of the message it replaces, in one
  transaction.
\<close>

definition record_edit :: "cipher_lib \<Rightarrow> string \<Rightarrow> 64 word \<Rightarrow> string \<Rightarrow> store \<Rightarrow> bool \<times> store" where
  "record_edit L target ts body s =
     (let (stored, s1) = protect L body s; d = s_db s1
      in if (case row_at er_target target (t_edit d) of
               Some row \<Rightarrow> ts_column ts < er_ts row | None \<Rightarrow> False)
         then (False, s1)
         else (list_ex (\<lambda>row. mr_event_id row = target) (t_message d),
               on_db (\<lambda>d. d\<lparr>
                 t_edit := upsert er_target \<lparr>er_target = target, er_ts = ts_column ts, er_body = stored\<rparr>
                   (\<lambda>row. row\<lparr>er_ts := ts_column ts, er_body := stored\<rparr>) (t_edit d),
                 t_message := update_rows (\<lambda>row. mr_event_id row = target)
                   (\<lambda>row. row\<lparr>mr_body := stored\<rparr>) (t_message d)\<rparr>) s1))"

section \<open>Members\<close>

definition remember_member :: "cipher_lib \<Rightarrow> string \<Rightarrow> string \<times> string option \<Rightarrow> store \<Rightarrow> store" where
  "remember_member L r entry s =
     (case snd entry of
        Some name \<Rightarrow>
          if name = [] then s
          else (let (stored, s1) = protect L name s
                in on_db (\<lambda>d. d\<lparr>t_member := upsert mb_key
                     \<lparr>mb_rowid = next_rowid mb_rowid (t_member d), mb_room = r, mb_user_id = fst entry,
                      mb_name = stored\<rparr>
                     (\<lambda>row. row\<lparr>mb_name := stored\<rparr>) (t_member d)\<rparr>) s1)
      | None \<Rightarrow> s)"

definition remember_members :: "cipher_lib \<Rightarrow> string \<Rightarrow> (string, string option) btree \<Rightarrow> store \<Rightarrow> store" where
  "remember_members L r names s = fold (remember_member L r) names s"

definition member_ids :: "string \<Rightarrow> store \<Rightarrow> string list" where
  "member_ids r s = map mb_user_id (filter (\<lambda>row. mb_room row = r) (t_member (s_db s)))"

definition distinct_senders :: "string \<Rightarrow> store \<Rightarrow> nat" where
  "distinct_senders r s =
     length (remdups (map mr_sender (filter (\<lambda>row. mr_room row = r) (t_message (s_db s)))))"

section \<open>Pickles\<close>

definition put_pickle :: "string \<Rightarrow> string \<Rightarrow> string \<Rightarrow> string \<Rightarrow> store \<Rightarrow> store" where
  "put_pickle kind i extra pickle s =
     on_db (\<lambda>d. d\<lparr>t_pickle := upsert pk_key
       \<lparr>pk_kind = kind, pk_id = i, pk_extra = extra, pk_pickle = pickle\<rparr>
       (\<lambda>row. row\<lparr>pk_extra := extra, pk_pickle := pickle\<rparr>) (t_pickle d)\<rparr>) s"

definition all_pickles :: "string \<Rightarrow> store \<Rightarrow> (string \<times> string \<times> string) list" where
  "all_pickles kind s =
     map (\<lambda>row. (pk_id row, pk_extra row, pk_pickle row))
       (order_by pk_id (filter (\<lambda>row. pk_kind row = kind) (t_pickle (s_db s))))"

end
