(* ===== verification/Store_View.thy ===== *)
theory Store_View
  imports Store
begin

text \<open>
  What the store holds, with the encryption looked through: \<open>view\<close> maps a store to the plaintext
  contents its tables stand for, and every writing operation of \<open>store.rs\<close> is shown to be the
  corresponding update of those contents (\<open>write_refines\<close>), with a key and without one. The
  well-formedness of the tables and the promise that a store with a key holds no sensitive plaintext
  are invariants of every sequence of writes.
\<close>

section \<open>Contents\<close>

record contents =
  v_meta :: "string \<Rightarrow> string option"
  v_room :: "string \<Rightarrow> (room \<times> string option \<times> bool) option"
  v_message :: "string \<Rightarrow> message option"
  v_edit :: "string \<Rightarrow> (int \<times> string) option"
  v_member :: "string \<times> string \<Rightarrow> string option"
  v_pickle :: "string \<times> string \<Rightarrow> (string \<times> string) option"

text \<open>The plaintext a stored value stands for.\<close>

definition plain :: "cipher_lib \<Rightarrow> string option \<Rightarrow> string \<Rightarrow> string" where
  "plain L key v = (case unseal L key [] v of Inr p \<Rightarrow> p | Inl _ \<Rightarrow> [])"

definition readable :: "cipher_lib \<Rightarrow> string option \<Rightarrow> string \<Rightarrow> bool" where
  "readable L key v \<longleftrightarrow> reads L key v (plain L key v)"

definition plain_meta :: "cipher_lib \<Rightarrow> string option \<Rightarrow> string \<Rightarrow> string \<Rightarrow> string" where
  "plain_meta L key k v = (if secret_meta_label k = None then v else plain L key v)"

definition plain_room :: "cipher_lib \<Rightarrow> string option \<Rightarrow> room_row \<Rightarrow> room" where
  "plain_room L key row =
     \<lparr>r_id = rr_id row, r_name = plain L key (rr_name row), r_encrypted = rr_encrypted row,
      r_unread = word_of_int (max 0 (rr_unread row)), r_last_ts = ts_value (rr_last_ts row),
      r_last_preview = plain L key (rr_last_preview row)\<rparr>"

definition plain_message :: "cipher_lib \<Rightarrow> string option \<Rightarrow> message_row \<Rightarrow> message" where
  "plain_message L key row =
     \<lparr>m_event_id = mr_event_id row, m_room = mr_room row, m_sender = mr_sender row,
      m_ts = ts_value (mr_ts row), m_sender_name = None, m_body = plain L key (mr_body row),
      m_encrypted = mr_encrypted row, m_decrypted = mr_decrypted row, m_mine = mr_mine row,
      m_session_id = mr_session_id row, m_ciphertext = map_option (plain L key) (mr_ciphertext row)\<rparr>"

definition view :: "cipher_lib \<Rightarrow> store \<Rightarrow> contents" where
  "view L s =
     \<lparr>v_meta = (\<lambda>k. map_option (plain_meta L (s_key s) k) (meta_row k (s_db s))),
      v_room = (\<lambda>i. map_option (\<lambda>row. (plain_room L (s_key s) row, rr_back_token row, rr_back_done row))
                      (row_at rr_id i (t_room (s_db s)))),
      v_message = (\<lambda>e. map_option (plain_message L (s_key s)) (row_at mr_event_id e (t_message (s_db s)))),
      v_edit = (\<lambda>t. map_option (\<lambda>row. (er_ts row, plain L (s_key s) (er_body row)))
                      (row_at er_target t (t_edit (s_db s)))),
      v_member = (\<lambda>k. map_option (\<lambda>row. plain L (s_key s) (mb_name row))
                      (row_at mb_key k (t_member (s_db s)))),
      v_pickle = (\<lambda>k. map_option (\<lambda>row. (pk_extra row, pk_pickle row))
                      (row_at pk_key k (t_pickle (s_db s))))\<rparr>"

section \<open>Well-formed stores\<close>

text \<open>The primary keys, the rowids and the range of timestamps, and every value of a sensitive column satisfying \<open>Q\<close>.\<close>

definition keys_ok :: "db \<Rightarrow> bool" where
  "keys_ok d \<longleftrightarrow> distinct (map fst (t_meta d)) \<and> distinct (map rr_id (t_room d))
     \<and> distinct (map mr_event_id (t_message d)) \<and> distinct (map er_target (t_edit d))
     \<and> distinct (map mb_key (t_member d)) \<and> distinct (map pk_key (t_pickle d))"

definition rowids_ok :: "db \<Rightarrow> bool" where
  "rowids_ok d \<longleftrightarrow> sorted_wrt (<) (map mr_rowid (t_message d)) \<and> (\<forall>r \<in> set (t_message d). 0 < mr_rowid r)
     \<and> sorted_wrt (<) (map mb_rowid (t_member d)) \<and> (\<forall>r \<in> set (t_member d). 0 < mb_rowid r)
     \<and> (\<forall>r \<in> set (t_message d). mr_ts r < 2 ^ 63) \<and> (\<forall>r \<in> set (t_room d). rr_last_ts r < 2 ^ 63)"

lemma ts_column_bound [simp]: "ts_column ts < 2 ^ 63" "ts_column ts < 9223372036854775808"
  using sint_lt [of ts] by (simp_all add: ts_column_def)

definition all_sensitive :: "(string \<Rightarrow> bool) \<Rightarrow> db \<Rightarrow> bool" where
  "all_sensitive Q d \<longleftrightarrow>
     (\<forall>r \<in> set (t_meta d). secret_meta_label (fst r) \<noteq> None \<longrightarrow> Q (snd r))
     \<and> (\<forall>r \<in> set (t_room d). Q (rr_name r) \<and> Q (rr_last_preview r))
     \<and> (\<forall>r \<in> set (t_message d). Q (mr_body r) \<and> (\<forall>c. mr_ciphertext r = Some c \<longrightarrow> Q c))
     \<and> (\<forall>r \<in> set (t_edit d). Q (er_body r))
     \<and> (\<forall>r \<in> set (t_member d). Q (mb_name r))"

text \<open>
  What a stored value has to be: readable under the store's key, and sealed when there is one.
\<close>

definition value_ok :: "cipher_lib \<Rightarrow> string option \<Rightarrow> string \<Rightarrow> bool" where
  "value_ok L key v \<longleftrightarrow> readable L key v \<and> (key \<noteq> None \<longrightarrow> is_sealed v)"

definition store_ok :: "cipher_lib \<Rightarrow> store \<Rightarrow> bool" where
  "store_ok L s \<longleftrightarrow> keys_ok (s_db s) \<and> rowids_ok (s_db s) \<and> all_sensitive (value_ok L (s_key s)) (s_db s)
     \<and> (s_key s \<noteq> None \<longrightarrow> meta_row ENCRYPTED_FLAG (s_db s) = Some ''1'')"

text \<open>
  The texts the daemon may write: UTF-8, and without a key not starting with the prefix of a
  sealed value.
\<close>

definition text_ok :: "string option \<Rightarrow> string \<Rightarrow> bool" where
  "text_ok key p \<longleftrightarrow> valid_utf8 p \<and> (key = None \<longrightarrow> \<not> is_sealed p)"

lemma reads_plain_eq: "reads L key v p \<Longrightarrow> plain L key v = p"
  by (simp add: plain_def)

lemma readableI: "reads L key v p \<Longrightarrow> readable L key v"
  using reads_plain_eq [of L key v p] by (simp add: readable_def)

lemma unseal_readable: "readable L key v \<Longrightarrow> unseal L key column v = Inr (plain L key v)"
  by (simp add: readable_def)

lemma protect_frame [simp]:
  "s_db (snd (protect L p s)) = s_db s" "s_key (snd (protect L p s)) = s_key s"
  "s_db (snd (protect_opt L q s)) = s_db s" "s_key (snd (protect_opt L q s)) = s_key s"
  by (simp_all add: protect_def protect_opt_def case_prod_unfold Let_def split: option.split)

lemma protect_value:
  assumes "cipher_ok L" "text_ok (s_key s) p"
  shows "plain L (s_key s) (fst (protect L p s)) = p" "value_ok L (s_key s) (fst (protect L p s))"
proof -
  have "reads L (s_key s) (fst (protect L p s)) p \<and> (s_key s \<noteq> None \<longrightarrow> is_sealed (fst (protect L p s)))"
  proof (cases "s_key s")
    case None
    with assms show ?thesis by (simp add: protect_def text_ok_def reads_plain)
  next
    case (Some m)
    with assms show ?thesis by (simp add: protect_def text_ok_def reads_seal cipher_ok_def)
  qed
  then show "plain L (s_key s) (fst (protect L p s)) = p" "value_ok L (s_key s) (fst (protect L p s))"
    by (auto simp: value_ok_def reads_plain_eq intro: readableI)
qed

lemma protect_opt_value:
  assumes "cipher_ok L" "\<forall>q. p = Some q \<longrightarrow> text_ok (s_key s) q"
  shows "map_option (plain L (s_key s)) (fst (protect_opt L p s)) = p"
    "fst (protect_opt L p s) = Some v \<Longrightarrow> value_ok L (s_key s) v"
  using assms protect_value [of L s]
  by (auto simp: protect_opt_def case_prod_unfold Let_def split: option.splits)

section \<open>Writes and their specification\<close>

datatype store_write =
    SetMeta string string
  | Clear
  | UpsertRoom room
  | SeedBackToken string string
  | SetBackToken string "string option" bool
  | InsertMessage message
  | UpgradeMessage string string
  | RecordEdit string "64 word" string
  | RememberMembers string "(string, string option) btree"
  | PutPickle string string string string

fun run_write :: "cipher_lib \<Rightarrow> store_write \<Rightarrow> store \<Rightarrow> store" where
  "run_write L (SetMeta k v) s = set_meta L k v s"
| "run_write L Clear s = clear s"
| "run_write L (UpsertRoom r) s = upsert_room L r s"
| "run_write L (SeedBackToken r t) s = snd (seed_back_token r t s)"
| "run_write L (SetBackToken r t d) s = set_back_token r t d s"
| "run_write L (InsertMessage m) s = insert_message L m s"
| "run_write L (UpgradeMessage e b) s = upgrade_message L e b s"
| "run_write L (RecordEdit t ts b) s = snd (record_edit L t ts b s)"
| "run_write L (RememberMembers r names) s = remember_members L r names s"
| "run_write L (PutPickle k i x p) s = put_pickle k i x p s"

text \<open>The texts of a write that go into sensitive columns; the flag is not the caller's to write.\<close>

fun write_ok :: "string option \<Rightarrow> store_write \<Rightarrow> bool" where
  "write_ok key (SetMeta k v) \<longleftrightarrow> k \<noteq> ENCRYPTED_FLAG \<and> (secret_meta_label k \<noteq> None \<longrightarrow> text_ok key v)"
| "write_ok key (UpsertRoom r) \<longleftrightarrow> text_ok key (r_name r) \<and> text_ok key (r_last_preview r)"
| "write_ok key (InsertMessage m) \<longleftrightarrow> text_ok key (m_body m) \<and> (\<forall>c. m_ciphertext m = Some c \<longrightarrow> text_ok key c)"
| "write_ok key (UpgradeMessage e b) \<longleftrightarrow> text_ok key b"
| "write_ok key (RecordEdit t ts b) \<longleftrightarrow> text_ok key b"
| "write_ok key (RememberMembers r names) \<longleftrightarrow> (\<forall>e \<in> set names. \<forall>n. snd e = Some n \<longrightarrow> text_ok key n)"
| "write_ok key _ \<longleftrightarrow> True"

definition stored_ts :: "64 word \<Rightarrow> 64 word" where
  "stored_ts ts = ts_value (ts_column ts)"

definition stored_room :: "room \<Rightarrow> room" where
  "stored_room r =
     \<lparr>r_id = r_id r, r_name = r_name r, r_encrypted = r_encrypted r, r_unread = r_unread r,
      r_last_ts = stored_ts (r_last_ts r), r_last_preview = r_last_preview r\<rparr>"

definition shown_body :: "string \<Rightarrow> string \<Rightarrow> contents \<Rightarrow> string" where
  "shown_body e b v = (case v_edit v e of Some (_, eb) \<Rightarrow> eb | None \<Rightarrow> b)"

fun spec_write :: "bool \<Rightarrow> store_write \<Rightarrow> contents \<Rightarrow> contents" where
  "spec_write keyed (SetMeta k x) v = v\<lparr>v_meta := (v_meta v)(k \<mapsto> x)\<rparr>"
| "spec_write keyed Clear v =
     \<lparr>v_meta = (if keyed then [ENCRYPTED_FLAG \<mapsto> ''1''] else Map.empty), v_room = Map.empty,
      v_message = Map.empty, v_edit = Map.empty, v_member = Map.empty, v_pickle = Map.empty\<rparr>"
| "spec_write keyed (UpsertRoom r) v =
     v\<lparr>v_room := (v_room v)(r_id r \<mapsto>
       (stored_room r, case v_room v (r_id r) of Some (_, edge) \<Rightarrow> edge | None \<Rightarrow> (None, False)))\<rparr>"
| "spec_write keyed (SeedBackToken r t) v =
     (case v_room v r of
        Some (x, None, d) \<Rightarrow> v\<lparr>v_room := (v_room v)(r \<mapsto> (x, Some t, d))\<rparr>
      | _ \<Rightarrow> v)"
| "spec_write keyed (SetBackToken r t d) v =
     (case v_room v r of
        Some (x, _) \<Rightarrow> v\<lparr>v_room := (v_room v)(r \<mapsto> (x, t, d))\<rparr>
      | None \<Rightarrow> v)"
| "spec_write keyed (InsertMessage m) v =
     v\<lparr>v_message := (v_message v)(m_event_id m \<mapsto>
       (case v_message v (m_event_id m) of
          None \<Rightarrow> m\<lparr>m_ts := stored_ts (m_ts m), m_sender_name := None,
                    m_body := shown_body (m_event_id m) (m_body m) v\<rparr>
        | Some old \<Rightarrow> old\<lparr>m_body := shown_body (m_event_id m) (m_body m) v, m_decrypted := m_decrypted m,
                          m_session_id := m_session_id m, m_ciphertext := m_ciphertext m\<rparr>))\<rparr>"
| "spec_write keyed (UpgradeMessage e b) v =
     v\<lparr>v_message := (v_message v)(e := map_option
       (\<lambda>old. old\<lparr>m_body := shown_body e b v, m_decrypted := True, m_session_id := None,
                  m_ciphertext := None\<rparr>) (v_message v e))\<rparr>"
| "spec_write keyed (RecordEdit t ts b) v =
     (if (case v_edit v t of Some (old, _) \<Rightarrow> sint ts < old | None \<Rightarrow> False) then v
      else v\<lparr>v_edit := (v_edit v)(t \<mapsto> (sint ts, b)),
             v_message := (v_message v)(t := map_option (\<lambda>old. old\<lparr>m_body := b\<rparr>) (v_message v t))\<rparr>)"
| "spec_write keyed (RememberMembers r names) v =
     v\<lparr>v_member := fold (\<lambda>(u, n) m. case n of Some x \<Rightarrow> if x = [] then m else m((r, u) \<mapsto> x) | None \<Rightarrow> m)
                    names (v_member v)\<rparr>"
| "spec_write keyed (PutPickle k i x p) v = v\<lparr>v_pickle := (v_pickle v)((k, i) \<mapsto> (x, p))\<rparr>"

section \<open>Each write is its specification\<close>

text \<open>Where the tables change, only the changed one has to be compared.\<close>

lemmas view_ops = view_def on_db_def fun_eq_iff case_prod_unfold Let_def option.map_comp comp_def

lemma meta_row_put: "meta_row k' (put_meta_row k v d) = (if k' = k then Some v else meta_row k' d)"
  unfolding meta_row_def put_meta_row_def
  by (simp add: row_at_upsert split: option.split)

lemma meta_row_frame [simp]:
  "meta_row k (d\<lparr>t_room := a\<rparr>) = meta_row k d" "meta_row k (d\<lparr>t_message := b\<rparr>) = meta_row k d"
  "meta_row k (d\<lparr>t_edit := c\<rparr>) = meta_row k d" "meta_row k (d\<lparr>t_member := e\<rparr>) = meta_row k d"
  "meta_row k (d\<lparr>t_pickle := f\<rparr>) = meta_row k d"
  by (simp_all add: meta_row_def)

lemma put_meta_row_frame [simp]:
  "t_room (put_meta_row k v d) = t_room d" "t_message (put_meta_row k v d) = t_message d"
  "t_edit (put_meta_row k v d) = t_edit d" "t_member (put_meta_row k v d) = t_member d"
  "t_pickle (put_meta_row k v d) = t_pickle d"
  by (simp_all add: put_meta_row_def)

lemma view_set_meta:
  assumes "cipher_ok L" "write_ok (s_key s) (SetMeta k v)"
  shows "view L (set_meta L k v s) = spec_write keyed (SetMeta k v) (view L s)"
  using assms protect_value [of L s v]
  by (cases "secret_meta_label k") (simp_all add: set_meta_def view_ops meta_row_put plain_meta_def)

lemma flag_not_secret: "secret_meta_label ENCRYPTED_FLAG = None"
  by code_simp

lemma view_clear: "view L (clear s) = spec_write (s_key s \<noteq> None) Clear (view L s)"
  by (simp add: clear_def view_ops Let_def mark_encrypted_def meta_row_put plain_meta_def flag_not_secret)
    (simp add: empty_db_def meta_row_def)

lemma view_upsert_room:
  assumes "cipher_ok L" "write_ok (s_key s) (UpsertRoom r)"
  shows "view L (upsert_room L r s) = spec_write keyed (UpsertRoom r) (view L s)"
  using assms protect_value [of L s "r_name r"] row_at_SomeD [of rr_id "r_id r" "t_room (s_db s)"]
    protect_value [of L "snd (protect L (r_name r) s)" "r_last_preview r"]
  by (auto simp: upsert_room_def view_ops row_at_upsert plain_room_def stored_room_def stored_ts_def
      split: option.splits)

lemma view_seed_back_token:
  assumes "keys_ok (s_db s)"
  shows "view L (snd (seed_back_token r t s)) = spec_write keyed (SeedBackToken r t) (view L s)"
    "fst (seed_back_token r t s) \<longleftrightarrow> (case v_room (view L s) r of Some (_, None, _) \<Rightarrow> True | _ \<Rightarrow> False)"
proof -
  have dist: "distinct (map rr_id (t_room (s_db s)))" using assms by (simp add: keys_ok_def)
  show "view L (snd (seed_back_token r t s)) = spec_write keyed (SeedBackToken r t) (view L s)"
    by (auto simp: seed_back_token_def view_ops row_at_update_key plain_room_def split: option.splits prod.splits)
  show "fst (seed_back_token r t s) \<longleftrightarrow> (case v_room (view L s) r of Some (_, None, _) \<Rightarrow> True | _ \<Rightarrow> False)"
    by (auto simp: seed_back_token_def Let_def row_at_ex [OF dist] view_def split: option.splits)
qed

lemma view_set_back_token:
  "view L (set_back_token r t d s) = spec_write keyed (SetBackToken r t d) (view L s)"
  by (auto simp: set_back_token_def view_ops row_at_update_key plain_room_def split: option.splits prod.splits)

lemma view_insert_message:
  assumes "cipher_ok L" "write_ok (s_key s) (InsertMessage m)"
  shows "view L (insert_message L m s) = spec_write keyed (InsertMessage m) (view L s)"
  using assms protect_value [of L s "m_body m"]
    protect_opt_value [of L "m_ciphertext m" "snd (protect L (m_body m) s)"]
  by (auto simp: insert_message_def view_ops row_at_upsert plain_message_def stored_ts_def
      coalesce_edit_def edit_body_def shown_body_def split: option.splits)

lemma view_upgrade_message:
  assumes "cipher_ok L" "write_ok (s_key s) (UpgradeMessage e b)"
  shows "view L (upgrade_message L e b s) = spec_write keyed (UpgradeMessage e b) (view L s)"
  using assms protect_value [of L s b]
  by (auto simp: upgrade_message_def view_ops row_at_update_key plain_message_def
      coalesce_edit_def edit_body_def shown_body_def split: option.splits)

lemma view_record_edit:
  assumes "cipher_ok L" "keys_ok (s_db s)" "write_ok (s_key s) (RecordEdit t ts b)"
  shows "view L (snd (record_edit L t ts b s)) = spec_write keyed (RecordEdit t ts b) (view L s)"
    "fst (record_edit L t ts b s) \<longleftrightarrow> v_message (view L s) t \<noteq> None
       \<and> \<not> (case v_edit (view L s) t of Some (old, _) \<Rightarrow> sint ts < old | None \<Rightarrow> False)"
proof -
  have dist: "distinct (map mr_event_id (t_message (s_db s)))" using assms by (simp add: keys_ok_def)
  show "view L (snd (record_edit L t ts b s)) = spec_write keyed (RecordEdit t ts b) (view L s)"
    using assms protect_value [of L s b]
    by (auto simp: record_edit_def view_ops row_at_update_key row_at_upsert plain_message_def
        ts_column_def split: option.splits if_splits)
  show "fst (record_edit L t ts b s) \<longleftrightarrow> v_message (view L s) t \<noteq> None
       \<and> \<not> (case v_edit (view L s) t of Some (old, _) \<Rightarrow> sint ts < old | None \<Rightarrow> False)"
    using row_at_ex [OF dist, of t "\<lambda>_. True"]
    by (auto simp: record_edit_def view_ops ts_column_def split: option.splits if_splits)
qed

lemma view_remember_member:
  assumes "cipher_ok L" "\<forall>n. snd e = Some n \<longrightarrow> text_ok (s_key s) n"
  shows "view L (remember_member L r e s) = (view L s)\<lparr>v_member :=
    (case snd e of Some x \<Rightarrow> if x = [] then v_member (view L s) else (v_member (view L s))((r, fst e) \<mapsto> x)
     | None \<Rightarrow> v_member (view L s))\<rparr>"
  using assms protect_value [of L s "the (snd e)"]
  by (cases "snd e") (auto simp: remember_member_def view_ops row_at_upsert split: option.splits)

lemma key_remember_member [simp]: "s_key (remember_member L r e s) = s_key s"
  by (simp add: remember_member_def on_db_def case_prod_unfold Let_def split: option.split)

lemma view_remember_members:
  assumes "cipher_ok L" "write_ok (s_key s) (RememberMembers r names)"
  shows "view L (remember_members L r names s) = spec_write keyed (RememberMembers r names) (view L s)"
  using assms(2) unfolding remember_members_def
proof (induction names arbitrary: s)
  case (Cons e names)
  then show ?case
    by (cases e) (simp add: view_remember_member [OF assms(1)] split: option.split)
qed simp

lemma view_put_pickle: "view L (put_pickle k i x p s) = spec_write keyed (PutPickle k i x p) (view L s)"
  by (auto simp: put_pickle_def view_ops row_at_upsert split: option.splits)

section \<open>Every write keeps the store well-formed\<close>

lemma rowids_upsert:
  assumes "sorted_wrt (<) (map rid t)" "\<forall>r \<in> set t. 0 < rid r"
    and "rid new = next_rowid rid t" "\<And>r. rid (f r) = rid r"
  shows "sorted_wrt (<) (map rid (upsert key new f t)) \<and> (\<forall>r \<in> set (upsert key new f t). 0 < rid r)"
proof (cases "row_at key (key new) t")
  case None
  have "rid r < next_rowid rid t" if "r \<in> set t" for r
    using that Max_ge [of "rid ` set t" "rid r"] by (auto simp: next_rowid_def)
  moreover have "0 < next_rowid rid t"
  proof (cases "t = []")
    case False
    then have "Max (rid ` set t) \<in> rid ` set t" by (intro Max_in) simp_all
    then have "0 < Max (rid ` set t)" using assms(2) by auto
    with False show ?thesis by (simp add: next_rowid_def)
  qed (simp add: next_rowid_def)
  ultimately show ?thesis using assms(1-3) None by (simp add: upsert_def sorted_wrt_append)
next
  case (Some r)
  have "map rid (update_rows (\<lambda>r. key r = key new) f t) = map rid t"
    by (rule map_key_update) (rule assms(4))
  moreover from this have "rid ` set (update_rows (\<lambda>r. key r = key new) f t) = rid ` set t"
    by (metis list.set_map)
  then have "\<forall>r \<in> set (update_rows (\<lambda>r. key r = key new) f t). 0 < rid r"
    using assms(2) by (metis imageE image_eqI)
  ultimately show ?thesis using assms(1) Some by (simp add: upsert_def)
qed

lemmas rowids_upsert_parts =
  rowids_upsert [where rid = mr_rowid, THEN conjunct1] rowids_upsert [where rid = mr_rowid, THEN conjunct2]
  rowids_upsert [where rid = mb_rowid, THEN conjunct1] rowids_upsert [where rid = mb_rowid, THEN conjunct2]

lemmas ok_defs = store_ok_def keys_ok_def rowids_ok_def all_sensitive_def on_db_def case_prod_unfold Let_def

lemma store_okI:
  assumes "store_ok L s" "s_key s' = s_key s" "keys_ok (s_db s')" "rowids_ok (s_db s')"
    "all_sensitive (value_ok L (s_key s)) (s_db s')" "meta_row ENCRYPTED_FLAG (s_db s') = meta_row ENCRYPTED_FLAG (s_db s)"
  shows "store_ok L s'"
  using assms by (simp add: store_ok_def)

lemma ok_set_meta:
  assumes "cipher_ok L" "store_ok L s" "write_ok (s_key s) (SetMeta k v)"
  shows "store_ok L (set_meta L k v s)"
proof (rule store_okI [OF assms(2)])
  let ?c = "fst (case secret_meta_label k of Some _ \<Rightarrow> protect L v s | None \<Rightarrow> (v, s))"
  have key: "s_key (set_meta L k v s) = s_key s"
    and db: "s_db (set_meta L k v s) = put_meta_row k ?c (s_db s)"
    by (simp_all add: set_meta_def on_db_def case_prod_unfold Let_def split: option.split)
  show "s_key (set_meta L k v s) = s_key s" by (fact key)
  show "keys_ok (s_db (set_meta L k v s))"
    using assms(2) unfolding db by (simp add: ok_defs) (simp add: put_meta_row_def distinct_upsert)
  show "rowids_ok (s_db (set_meta L k v s))"
    using assms(2) unfolding db by (simp add: ok_defs)
  have "secret_meta_label k \<noteq> None \<Longrightarrow> value_ok L (s_key s) ?c"
    using assms protect_value [OF assms(1), of s v] by auto
  then show "all_sensitive (value_ok L (s_key s)) (s_db (set_meta L k v s))"
    using assms(2) unfolding db all_sensitive_def store_ok_def
    by (auto simp: put_meta_row_def dest!: set_upsert)
  show "meta_row ENCRYPTED_FLAG (s_db (set_meta L k v s)) = meta_row ENCRYPTED_FLAG (s_db s)"
    unfolding db using assms(3) by (auto simp: meta_row_put)
qed

lemma ok_clear: "store_ok L (clear s)"
  by (cases "s_key s") (simp_all add: clear_def ok_defs mark_encrypted_def meta_row_put,
      simp_all add: empty_db_def put_meta_row_def upsert_def flag_not_secret)

lemma ok_upsert_room:
  assumes "cipher_ok L" "store_ok L s" "write_ok (s_key s) (UpsertRoom r)"
  shows "store_ok L (upsert_room L r s)"
  using assms protect_value [of L s "r_name r"]
    protect_value [of L "snd (protect L (r_name r) s)" "r_last_preview r"]
  by (intro store_okI [OF assms(2)])
    (auto simp: ok_defs upsert_room_def intro!: distinct_upsert dest!: set_upsert)

lemma ok_seed_back_token: "store_ok L s \<Longrightarrow> store_ok L (snd (seed_back_token r t s))"
  by (rule store_okI, assumption) (auto simp: ok_defs seed_back_token_def map_key_update dest!: set_update)

lemma ok_set_back_token: "store_ok L s \<Longrightarrow> store_ok L (set_back_token r t d s)"
  by (rule store_okI, assumption) (auto simp: ok_defs set_back_token_def map_key_update dest!: set_update)

lemma ok_insert_message:
  assumes "cipher_ok L" "store_ok L s" "write_ok (s_key s) (InsertMessage m)"
  shows "store_ok L (insert_message L m s)"
proof (rule store_okI [OF assms(2)])
  let ?b = "fst (protect L (m_body m) s)" and ?s1 = "snd (protect L (m_body m) s)"
  let ?c = "fst (protect_opt L (m_ciphertext m) ?s1)"
  let ?shown = "coalesce_edit (m_event_id m) ?b (s_db s)"
  have body: "value_ok L (s_key s) ?shown"
    using assms protect_value [of L s "m_body m"] row_at_SomeD [of er_target "m_event_id m" "t_edit (s_db s)"]
    by (auto simp: coalesce_edit_def edit_body_def ok_defs split: option.split)
  have cipher: "value_ok L (s_key s) c" if "?c = Some c" for c
    using protect_opt_value(2) [OF assms(1), of "m_ciphertext m" ?s1 c] assms(3) that by simp
  show "s_key (insert_message L m s) = s_key s"
    by (simp add: insert_message_def on_db_def case_prod_unfold Let_def)
  show "keys_ok (s_db (insert_message L m s))"
    using assms(2) by (auto simp: ok_defs insert_message_def intro!: distinct_upsert)
  show "rowids_ok (s_db (insert_message L m s))"
    using assms(2)
    by (simp add: ok_defs insert_message_def rowids_upsert_parts(1))
      (intro conjI, rule rowids_upsert_parts(2), auto dest!: set_upsert)
  show "all_sensitive (value_ok L (s_key s)) (s_db (insert_message L m s))"
    using assms(2) body cipher by (auto simp: ok_defs insert_message_def dest!: set_upsert)
  show "meta_row ENCRYPTED_FLAG (s_db (insert_message L m s)) = meta_row ENCRYPTED_FLAG (s_db s)"
    by (simp add: insert_message_def on_db_def case_prod_unfold Let_def)
qed

lemma ok_upgrade_message:
  assumes "cipher_ok L" "store_ok L s" "write_ok (s_key s) (UpgradeMessage e b)"
  shows "store_ok L (upgrade_message L e b s)"
proof -
  have body: "value_ok L (s_key s) (coalesce_edit e (fst (protect L b s)) (s_db s))"
    using assms protect_value [of L s b] row_at_SomeD [of er_target e "t_edit (s_db s)"]
    by (auto simp: coalesce_edit_def edit_body_def ok_defs split: option.split)
  show ?thesis
    by (rule store_okI [OF assms(2)])
      (use assms(2) body in \<open>auto simp: ok_defs upgrade_message_def map_key_update dest!: set_update\<close>)
qed

lemma ok_record_edit:
  assumes "cipher_ok L" "store_ok L s" "write_ok (s_key s) (RecordEdit t ts b)"
  shows "store_ok L (snd (record_edit L t ts b s))"
proof -
  have body: "value_ok L (s_key s) (fst (protect L b s))"
    using assms protect_value [of L s b] by simp
  show ?thesis
    by (rule store_okI [OF assms(2)])
      (use assms(2) body in \<open>auto simp: ok_defs record_edit_def map_key_update intro!: distinct_upsert
         dest!: set_update set_upsert split: option.split\<close>)
qed

lemma ok_remember_member:
  assumes "cipher_ok L" "store_ok L s" "\<forall>n. snd e = Some n \<longrightarrow> text_ok (s_key s) n"
  shows "store_ok L (remember_member L r e s)"
proof (cases "snd e = None \<or> snd e = Some []")
  case True
  with assms(2) show ?thesis by (auto simp: remember_member_def)
next
  case False
  then obtain n where n: "snd e = Some n" "n \<noteq> []" by auto
  then have body: "value_ok L (s_key s) (fst (protect L n s))"
    using assms protect_value [of L s n] by simp
  show ?thesis
  proof (rule store_okI [OF assms(2)])
    show "rowids_ok (s_db (remember_member L r e s))"
      using assms(2) n
      by (simp add: ok_defs remember_member_def rowids_upsert_parts(3)) (rule rowids_upsert_parts(4); simp)
    show "meta_row ENCRYPTED_FLAG (s_db (remember_member L r e s)) = meta_row ENCRYPTED_FLAG (s_db s)"
      using n by (simp add: remember_member_def on_db_def case_prod_unfold Let_def)
  qed (use assms(2) n body in \<open>auto simp: ok_defs remember_member_def intro!: distinct_upsert dest!: set_upsert\<close>)
qed

lemma ok_remember_members:
  assumes "cipher_ok L" "store_ok L s" "write_ok (s_key s) (RememberMembers r names)"
  shows "store_ok L (remember_members L r names s)"
  using assms(2,3) unfolding remember_members_def
proof (induction names arbitrary: s)
  case (Cons e names)
  then show ?case using ok_remember_member [OF assms(1), of s e r] by simp
qed simp

lemma ok_put_pickle: "store_ok L s \<Longrightarrow> store_ok L (put_pickle k i x p s)"
  by (rule store_okI, assumption) (auto simp: ok_defs put_pickle_def intro!: distinct_upsert)

lemma key_run_write [simp]: "s_key (run_write L w s) = s_key s"
proof -
  have "s_key (fold (remember_member L r) names s) = s_key s" for r names
    by (induction names arbitrary: s) simp_all
  then show ?thesis
    by (cases w) (simp_all add: set_meta_def clear_def upsert_room_def seed_back_token_def
        set_back_token_def insert_message_def upgrade_message_def record_edit_def remember_members_def
        put_pickle_def on_db_def case_prod_unfold Let_def split: option.split)
qed

lemma run_write_refines:
  assumes "cipher_ok L" "store_ok L s" "write_ok (s_key s) w"
  shows "view L (run_write L w s) = spec_write (s_key s \<noteq> None) w (view L s)"
    "store_ok L (run_write L w s)"
proof -
  have keys: "keys_ok (s_db s)" using assms(2) by (simp add: store_ok_def)
  show "view L (run_write L w s) = spec_write (s_key s \<noteq> None) w (view L s)"
    using assms keys
    by (cases w) (simp_all only: run_write.simps view_set_meta view_clear view_upsert_room
        view_seed_back_token view_set_back_token view_insert_message view_upgrade_message
        view_record_edit view_remember_members view_put_pickle)
  show "store_ok L (run_write L w s)"
    using assms
    by (cases w) (simp_all only: run_write.simps ok_set_meta ok_clear ok_upsert_room
        ok_seed_back_token ok_set_back_token ok_insert_message ok_upgrade_message
        ok_record_edit ok_remember_members ok_put_pickle)
qed

interpretation writes: simulation "run_write L" "spec_write (key \<noteq> None)" "view L"
    "\<lambda>s. cipher_ok L \<and> store_ok L s \<and> s_key s = key" "write_ok key" for L key
  by unfold_locales (auto simp: run_write_refines)

section \<open>What the reading operations return\<close>

lemma value_ok_reveal: "value_ok L key v \<Longrightarrow> unseal L key column v = Inr (plain L key v)"
  by (simp add: value_ok_def unseal_readable)

lemma plain_meta_public: "secret_meta_label k = None \<Longrightarrow> plain_meta L key k = (\<lambda>v. v)"
  by (simp add: plain_meta_def [abs_def])

lemma get_meta_view: "store_ok L s \<Longrightarrow> get_meta L k s = Inr (v_meta (view L s) k)"
proof -
  assume ok: "store_ok L s"
  have "value_ok L (s_key s) v" if "row_at fst k (t_meta (s_db s)) = Some (k', v)" "secret_meta_label k \<noteq> None" for k' v
    using ok that row_at_SomeD [OF that(1)] by (force simp: ok_defs)
  then show ?thesis
    by (cases "secret_meta_label k") (auto simp: get_meta_def view_def plain_meta_public plain_meta_def
        reveal_opt_def reveal_def meta_row_def Let_def option.map_ident value_ok_reveal split: option.split)
qed

lemma read_room_ok:
  assumes "store_ok L s" "row \<in> set (t_room (s_db s))"
  shows "read_room L s row = Inr (plain_room L (s_key s) row)"
  using assms by (auto simp: read_room_def reveal_def plain_room_def ok_defs value_ok_reveal)

lemma get_room_view:
  assumes "store_ok L s"
  shows "get_room L i s = Inr (map_option fst (v_room (view L s) i))"
  using read_room_ok [OF assms] row_at_SomeD [of rr_id i "t_room (s_db s)"]
  by (auto simp: get_room_def view_def split: option.split)

lemma back_token_view:
  "back_token i s = (case v_room (view L s) i of Some (_, edge) \<Rightarrow> edge | None \<Rightarrow> (None, False))"
  by (auto simp: back_token_def view_def split: option.split)

lemma ts_value_mono: "i \<le> j \<Longrightarrow> j < 2 ^ 64 \<Longrightarrow> ts_value i \<le> ts_value j"
  unfolding ts_value_def word_le_def by (simp add: uint_word_of_int take_bit_int_eq_self max_def)

lemma list_rooms_view:
  assumes "store_ok L s"
  shows "list_rooms L s = Inr (map (plain_room L (s_key s))
    (order_by (\<lambda>row. (- rr_last_ts row, rr_id row)) (t_room (s_db s))))"
  unfolding list_rooms_def by (rule collect_Inr) (use read_room_ok [OF assms] in simp)

definition named :: "contents \<Rightarrow> message \<Rightarrow> message" where
  "named v m = m\<lparr>m_sender_name := v_member v (m_room m, m_sender m)\<rparr>"

lemma read_message_ok:
  assumes "store_ok L s" "row \<in> set (t_message (s_db s))"
  shows "read_message L s row = Inr (named (view L s) (plain_message L (s_key s) row))"
proof -
  have name: "value_ok L (s_key s) (mb_name r)" if "row_at mb_key k (t_member (s_db s)) = Some r" for k r
    using assms row_at_SomeD [OF that] by (auto simp: ok_defs)
  have "value_ok L (s_key s) (mr_body row)" "\<And>c. mr_ciphertext row = Some c \<Longrightarrow> value_ok L (s_key s) c"
    using assms by (auto simp: ok_defs)
  with name show ?thesis
    by (auto simp: read_message_def reveal_opt_def reveal_def plain_message_def named_def view_def value_ok_reveal
        split: option.splits)
qed

lemma recent_messages_view:
  assumes "store_ok L s"
  shows "recent_messages L r limit s = Inr (map (named (view L s) \<circ> plain_message L (s_key s))
    (rev (newest_rows (\<lambda>row. mr_room row = r) limit s)))"
proof -
  have "collect (read_message L s) (newest_rows (\<lambda>row. mr_room row = r) limit s)
      = Inr (map (named (view L s) \<circ> plain_message L (s_key s)) (newest_rows (\<lambda>row. mr_room row = r) limit s))"
    by (rule collect_Inr)
      (use read_message_ok [OF assms] in \<open>auto simp: newest_rows_def dest: in_set_takeD\<close>)
  then show ?thesis by (simp add: recent_messages_def rev_map)
qed

lemma undecrypted_view:
  assumes "store_ok L s"
  shows "undecrypted_in_room L r limit s = Inr (map
    (\<lambda>row. (mr_event_id row, the (mr_session_id row), plain L (s_key s) (the (mr_ciphertext row))))
    (newest_rows (retry_row r) limit s))"
  unfolding undecrypted_in_room_def
proof (rule collect_Inr)
  fix row assume "row \<in> set (newest_rows (retry_row r) limit s)"
  then have "row \<in> set (t_message (s_db s))" "mr_ciphertext row \<noteq> None"
    by (auto simp: newest_rows_def retry_row_def dest: in_set_takeD)
  then have "value_ok L (s_key s) (the (mr_ciphertext row))" using assms by (auto simp: ok_defs)
  then show "bind_ok (reveal L ''message.ciphertext'' (the (mr_ciphertext row)) s)
      (\<lambda>ct. Inr (mr_event_id row, the (mr_session_id row), ct))
    = Inr (mr_event_id row, the (mr_session_id row), plain L (s_key s) (the (mr_ciphertext row)))"
    by (simp add: reveal_def value_ok_reveal)
qed

text \<open>The newest rows: how many, which, and in which order.\<close>

lemma newest_rows_facts:
  assumes "store_ok L s"
  shows "sorted_wrt (\<lambda>a b. (mr_ts b, mr_event_id b) \<le> (mr_ts a, mr_event_id a)) (newest_rows P limit s)"
    and "length (newest_rows P limit s) = min (unat limit) (length (filter P (t_message (s_db s))))"
    and "set (newest_rows P limit s) \<subseteq> {row \<in> set (t_message (s_db s)). P row}"
    and "distinct (map mr_event_id (newest_rows P limit s))"
    and "a \<in> set (newest_rows P limit s) \<Longrightarrow> b \<in> set (t_message (s_db s)) \<Longrightarrow> P b
      \<Longrightarrow> b \<notin> set (newest_rows P limit s) \<Longrightarrow> mr_ts b \<le> mr_ts a"
proof -
  let ?t = "filter P (t_message (s_db s))" and ?f = "\<lambda>row. (mr_ts row, mr_event_id row)"
  show "sorted_wrt (\<lambda>a b. ?f b \<le> ?f a) (newest_rows P limit s)"
    unfolding newest_rows_def by (rule sorted_wrt_take) (rule sorted_order(2))
  show "length (newest_rows P limit s) = min (unat limit) (length ?t)"
    by (simp add: newest_rows_def order_desc_def min.commute)
  show "set (newest_rows P limit s) \<subseteq> {row \<in> set (t_message (s_db s)). P row}"
    by (auto simp: newest_rows_def dest: in_set_takeD)
  have "distinct (map mr_event_id ?t)"
    using assms distinct_map_filter by (auto simp: ok_defs)
  then have "distinct (map mr_event_id (order_desc ?f ?t))"
    by (simp add: order_desc_def distinct_map flip: rev_map)
  then show "distinct (map mr_event_id (newest_rows P limit s))"
    unfolding newest_rows_def take_map [symmetric] by (rule distinct_take)
  show "mr_ts b \<le> mr_ts a" if "a \<in> set (newest_rows P limit s)" "b \<in> set (t_message (s_db s))" "P b"
      "b \<notin> set (newest_rows P limit s)"
    using limit_newest [of a "unat limit" ?f ?t b] that by (auto simp: newest_rows_def)
qed

section \<open>Keyed access\<close>

interpretation meta: key_value "\<lambda>k s. case get_meta L k s of Inr v \<Rightarrow> v | Inl _ \<Rightarrow> None" "set_meta L"
    "\<lambda>s. cipher_ok L \<and> store_ok L s \<and> s_key s = key" "\<lambda>k v. write_ok key (SetMeta k v)" for L key
proof unfold_locales
  fix k k' v s assume s: "cipher_ok L \<and> store_ok L s \<and> s_key s = key" and v: "write_ok key (SetMeta k v)"
  then have ok: "store_ok L (set_meta L k v s)" and vw: "view L (set_meta L k v s) = spec_write True (SetMeta k v) (view L s)"
    using ok_set_meta view_set_meta by blast+
  show "(case get_meta L k (set_meta L k v s) of Inl _ \<Rightarrow> None | Inr v \<Rightarrow> v) = Some v"
    by (simp add: get_meta_view [OF ok] vw)
  show "(case get_meta L k' (set_meta L k v s) of Inl _ \<Rightarrow> None | Inr v \<Rightarrow> v)
      = (case get_meta L k' s of Inl _ \<Rightarrow> None | Inr v \<Rightarrow> v)" if "k' \<noteq> k"
    using that s by (simp add: get_meta_view [OF ok] get_meta_view vw)
  show "cipher_ok L \<and> store_ok L (set_meta L k v s) \<and> s_key (set_meta L k v s) = key"
    using s ok key_run_write [of L "SetMeta k v" s] by simp
qed

interpretation rooms: key_value "\<lambda>i s. case get_room L i s of Inr r \<Rightarrow> r | Inl _ \<Rightarrow> None" "\<lambda>i. upsert_room L"
    "\<lambda>s. cipher_ok L \<and> store_ok L s \<and> s_key s = key"
    "\<lambda>i r. write_ok key (UpsertRoom r) \<and> r_id r = i \<and> stored_ts (r_last_ts r) = r_last_ts r" for L key
proof unfold_locales
  fix i j r s
  assume s: "cipher_ok L \<and> store_ok L s \<and> s_key s = key"
    and r: "write_ok key (UpsertRoom r) \<and> r_id r = i \<and> stored_ts (r_last_ts r) = r_last_ts r"
  then have ok: "store_ok L (upsert_room L r s)"
    and vw: "view L (upsert_room L r s) = spec_write True (UpsertRoom r) (view L s)"
    using ok_upsert_room view_upsert_room by blast+
  have "stored_room r = r" using r by (simp add: stored_room_def)
  then show "(case get_room L i (upsert_room L r s) of Inl _ \<Rightarrow> None | Inr r \<Rightarrow> r) = Some r"
    using r by (simp add: get_room_view [OF ok] vw)
  show "(case get_room L j (upsert_room L r s) of Inl _ \<Rightarrow> None | Inr r \<Rightarrow> r)
      = (case get_room L j s of Inl _ \<Rightarrow> None | Inr r \<Rightarrow> r)" if "j \<noteq> i"
    using that r s by (simp add: get_room_view [OF ok] get_room_view vw)
  show "cipher_ok L \<and> store_ok L (upsert_room L r s) \<and> s_key (upsert_room L r s) = key"
    using s ok key_run_write [of L "UpsertRoom r" s] by simp
qed

section \<open>Properties of the store\<close>

text \<open>A store as it is after the first open with this key, to evaluate the model on.\<close>

definition fresh_store :: "string option \<Rightarrow> store" where
  "fresh_store key = clear \<lparr>s_db = empty_db, s_key = key, s_draws = 0\<rparr>"

lemma fresh_store_ok [simp]: "store_ok L (fresh_store key)" "s_key (fresh_store key) = key"
  by (simp_all add: fresh_store_def ok_clear) (simp add: clear_def on_db_def Let_def)

lemma ascii_text_ok: "ascii t \<Longrightarrow> text_ok (Some k) t"
  by (simp add: text_ok_def valid_utf8_ascii)

text \<open>
  C9: Whatever the daemon writes, in whatever order, what the tables stand for is what the plain
  specification of the writes says, whether or not the store is encrypted: a room upsert never
  moves the pagination edge, an edit outranks the body it replaces, a re-inserted message keeps
  its sender and time. With a key no sensitive column ever holds a value that is not sealed, and
  every stored value stays readable.
\<close>

theorem store_refines_plain_contents:
  assumes "cipher_ok L" "store_ok L s" "list_all (write_ok (s_key s)) ws"
  shows "view L (fold (run_write L) ws s) = fold (spec_write (s_key s \<noteq> None)) ws (view L s)
    \<and> store_ok L (fold (run_write L) ws s)
    \<and> (s_key s \<noteq> None \<longrightarrow> all_sensitive is_sealed (s_db (fold (run_write L) ws s)))"
proof -
  let ?s = "fold (run_write L) ws s"
  have inv: "store_ok L ?s \<and> s_key ?s = s_key s"
    using writes.run_inv [of L s "s_key s" ws] assms by simp
  have "all_sensitive is_sealed (s_db ?s)" if "s_key s \<noteq> None"
    using inv that by (auto simp: store_ok_def all_sensitive_def value_ok_def)
  with inv show ?thesis
    using writes.run_simulates [of L s "s_key s" ws] assms by simp
qed

definition demo_message :: message where
  "demo_message = \<lparr>m_event_id = ''e1'', m_room = ''r'', m_sender = ''a'', m_ts = 5, m_sender_name = None,
     m_body = ''hello'', m_encrypted = False, m_decrypted = True, m_mine = False, m_session_id = None,
     m_ciphertext = None\<rparr>"

theorem store_refines_plain_contents_witness:
  "view demo_cipher (fold (run_write demo_cipher) [RecordEdit ''e1'' 9 ''new'', InsertMessage demo_message]
       (fresh_store (Some ''k'')))
     = fold (spec_write True) [RecordEdit ''e1'' 9 ''new'', InsertMessage demo_message]
         (view demo_cipher (fresh_store (Some ''k'')))"
proof -
  have "ascii ''new''" "ascii ''hello''" by code_simp+
  then have "list_all (write_ok (Some ''k'')) [RecordEdit ''e1'' 9 ''new'', InsertMessage demo_message]"
    by (simp add: ascii_text_ok demo_message_def)
  then show ?thesis
    using store_refines_plain_contents [of demo_cipher "fresh_store (Some ''k'')"
      "[RecordEdit ''e1'' 9 ''new'', InsertMessage demo_message]"] by simp
qed

text \<open>
  C34: The messages of a room come back oldest first, each at most once and only from that room,
  as many as asked for or all there are, and none that was left out is newer than one that was
  returned; each carries its plaintext and the name the room gave its sender, when one is stored.
\<close>

theorem recent_messages_newest:
  assumes "store_ok L s" "recent_messages L r limit s = Inr ms"
  shows "sorted_wrt (\<lambda>a b. m_ts a \<le> m_ts b) ms \<and> distinct (map m_event_id ms)
    \<and> length ms = min (unat limit) (length (filter (\<lambda>row. mr_room row = r) (t_message (s_db s))))
    \<and> list_all (\<lambda>m. m_room m = r \<and> m_sender_name m = v_member (view L s) (r, m_sender m)
         \<and> map_option (named (view L s)) (v_message (view L s) (m_event_id m)) = Some m) ms
    \<and> (\<forall>row \<in> set (t_message (s_db s)). mr_room row = r \<and> mr_event_id row \<notin> m_event_id ` set ms
         \<longrightarrow> list_all (\<lambda>m. ts_value (mr_ts row) \<le> m_ts m) ms)"
proof -
  let ?rows = "newest_rows (\<lambda>row. mr_room row = r) limit s"
  let ?m = "\<lambda>row. named (view L s) (plain_message L (s_key s) row)"
  have ms: "ms = map ?m (rev ?rows)" using assms recent_messages_view by (simp add: comp_def)
  note facts = newest_rows_facts [OF assms(1), where P = "\<lambda>row. mr_room row = r" and limit = limit]
  have m: "m_event_id (?m row) = mr_event_id row" "m_ts (?m row) = ts_value (mr_ts row)"
    "m_room (?m row) = mr_room row" "m_sender (?m row) = mr_sender row"
    "m_sender_name (?m row) = v_member (view L s) (mr_room row, mr_sender row)" for row
    by (simp_all add: named_def plain_message_def)
  have mono: "ts_value (mr_ts a) \<le> ts_value (mr_ts b)"
    if "mr_ts a \<le> mr_ts b" "b \<in> set (t_message (s_db s))" for a b
    using that assms(1) by (intro ts_value_mono) (auto simp: ok_defs)
  have dist: "distinct (map mr_event_id (t_message (s_db s)))" using assms(1) by (simp add: ok_defs)
  have sub: "row \<in> set (t_message (s_db s)) \<and> mr_room row = r" if "row \<in> set ?rows" for row
    using facts(3) that by blast
  have "sorted_wrt (\<lambda>a b. mr_ts b \<le> mr_ts a) ?rows"
    by (rule sorted_wrt_mono_rel [OF _ facts(1)]) auto
  then have "sorted_wrt (\<lambda>a b. ts_value (mr_ts b) \<le> ts_value (mr_ts a)) ?rows"
    by (rule sorted_wrt_mono_rel [rotated]) (use mono sub in blast)
  then have "sorted_wrt (\<lambda>a b. m_ts a \<le> m_ts b) ms"
    by (simp add: ms m sorted_wrt_map sorted_wrt_rev)
  moreover have "distinct (map m_event_id ms)"
    using facts(4) by (simp add: ms m comp_def flip: rev_map)
  moreover have "map_option (named (view L s)) (v_message (view L s) (mr_event_id row)) = Some (?m row)"
    if "row \<in> set ?rows" for row
    using row_at_member [OF dist] sub [OF that] by (simp add: view_def)
  then have "list_all (\<lambda>m. m_room m = r \<and> m_sender_name m = v_member (view L s) (r, m_sender m)
         \<and> map_option (named (view L s)) (v_message (view L s) (m_event_id m)) = Some m) ms"
    using sub by (auto simp: ms m list_all_iff)
  moreover have "list_all (\<lambda>m. ts_value (mr_ts row) \<le> m_ts m) ms"
    if row: "row \<in> set (t_message (s_db s))" "mr_room row = r" "mr_event_id row \<notin> m_event_id ` set ms" for row
  proof -
    have new: "row \<notin> set ?rows" using row(3) by (force simp: ms m image_iff)
    have "ts_value (mr_ts row) \<le> ts_value (mr_ts a)" if "a \<in> set ?rows" for a
      using facts(5) [OF that row(1,2) new] sub [OF that] mono by blast
    then show ?thesis by (simp add: ms m list_all_iff)
  qed
  moreover have "length ms = min (unat limit) (length (filter (\<lambda>row. mr_room row = r) (t_message (s_db s))))"
    using facts(2) by (simp add: ms)
  ultimately show ?thesis by blast
qed

theorem recent_messages_newest_witness:
  "\<exists>ms. recent_messages demo_cipher ''r'' 10 (insert_message demo_cipher demo_message (fresh_store (Some ''k'')))
     = Inr ms \<and> length ms = 1 \<and> sorted_wrt (\<lambda>a b. m_ts a \<le> m_ts b) ms"
proof -
  let ?s = "insert_message demo_cipher demo_message (fresh_store (Some ''k''))"
  have "ascii ''hello''" by code_simp
  then have "write_ok (Some ''k'') (InsertMessage demo_message)" by (simp add: demo_message_def ascii_text_ok)
  then have ok: "store_ok demo_cipher ?s"
    using ok_insert_message [of demo_cipher "fresh_store (Some ''k'')" demo_message] by simp
  obtain ms where ms: "recent_messages demo_cipher ''r'' 10 ?s = Inr ms"
    using recent_messages_view [OF ok] by blast
  have "length (filter (\<lambda>row. mr_room row = ''r'') (t_message (s_db ?s))) = 1"
    by (simp add: insert_message_def fresh_store_def clear_def on_db_def case_prod_unfold Let_def
        empty_db_def mark_encrypted_def upsert_def demo_message_def)
  with recent_messages_newest [OF ok ms] ms show ?thesis by simp
qed

end
