(* ===== verification/Store_Laws.thy ===== *)
theory Store_Laws
  imports Store_View
begin

text \<open>
  What the store promises over whole histories of writes, proved on the specification of
  \<open>Store_View\<close> and carried over to the SQL operations: the newest edit wins in whatever order an
  event and its edits arrive, the pagination edge is seeded once and moved only by paging, the room
  list is ordered, a saved session is loaded back and a wiped store is empty.
\<close>

section \<open>Edits\<close>

text \<open>The edits of one event among the writes, and which of them counts.\<close>

fun edits_of :: "string \<Rightarrow> store_write list \<Rightarrow> (int \<times> string) list" where
  "edits_of e [] = []"
| "edits_of e (RecordEdit t ts b # ws) = (if t = e then (sint ts, b) # edits_of e ws else edits_of e ws)"
| "edits_of e (_ # ws) = edits_of e ws"

definition newest_of :: "(int \<times> string) option \<Rightarrow> (int \<times> string) \<Rightarrow> (int \<times> string) option" where
  "newest_of old new = (case old of Some (t, _) \<Rightarrow> if fst new < t then old else Some new | None \<Rightarrow> Some new)"

definition newest_edit :: "(int \<times> string) option \<Rightarrow> (int \<times> string) list \<Rightarrow> (int \<times> string) option" where
  "newest_edit old es = foldl newest_of old es"

lemma newest_edit_simps [simp]:
  "newest_edit old [] = old" "newest_edit old (x # es) = newest_edit (newest_of old x) es"
  by (simp_all add: newest_edit_def)

lemma newest_edit_max:
  "newest_edit old es = Some (t, b) \<Longrightarrow>
     (\<forall>x \<in> set es. fst x \<le> t) \<and> (\<forall>t' b'. old = Some (t', b') \<longrightarrow> t' \<le> t)
     \<and> ((t, b) \<in> set es \<or> old = Some (t, b))"
proof (induction es arbitrary: old)
  case (Cons x es)
  from Cons.prems have "newest_edit (newest_of old x) es = Some (t, b)" by simp
  from Cons.IH [OF this] show ?case
    by (cases old; cases x) (auto simp: newest_of_def split: if_splits)
qed simp

lemma newest_edit_None: "newest_edit None es = None \<longleftrightarrow> es = []"
proof -
  have "newest_edit (Some x) es \<noteq> None" for x es
    by (induction es arbitrary: x) (auto simp: newest_of_def)
  then show ?thesis by (cases es) (auto simp: newest_of_def)
qed

text \<open>A message whose edit is known shows the edit.\<close>

definition edit_shown :: "string \<Rightarrow> contents \<Rightarrow> bool" where
  "edit_shown e v = (case (v_edit v e, v_message v e) of
     (Some (_, b), Some m) \<Rightarrow> m_body m = b | _ \<Rightarrow> True)"

lemma spec_edit:
  assumes "w \<noteq> Clear"
  shows "v_edit (spec_write keyed w v) e = newest_edit (v_edit v e) (edits_of e [w])"
  using assms
  by (cases w) (auto simp: newest_of_def split: option.splits prod.splits)

lemma spec_edit_shown: "edit_shown e v \<Longrightarrow> edit_shown e (spec_write keyed w v)"
  by (cases w) (auto simp: edit_shown_def shown_body_def split: option.splits prod.splits if_splits)

lemma edits_of_Cons: "edits_of e (w # ws) = edits_of e [w] @ edits_of e ws"
  by (cases w) simp_all

lemma newest_edit_append: "newest_edit old (xs @ ys) = newest_edit (newest_edit old xs) ys"
  by (simp add: newest_edit_def)

lemma spec_run_edit:
  "Clear \<notin> set ws \<Longrightarrow> v_edit (fold (spec_write keyed) ws v) e = newest_edit (v_edit v e) (edits_of e ws)"
proof (induction ws arbitrary: v)
  case (Cons w ws)
  then have "w \<noteq> Clear" by auto
  from spec_edit [OF this] Cons show ?case
    by (subst edits_of_Cons) (simp add: newest_edit_append)
qed simp

text \<open>
  C14: However an event, its re-deliveries, its late decryption and its edits are interleaved, the
  text the store ends up showing is that of the newest edit (the last to arrive among equally new
  ones), never the original the edit replaced.
\<close>

theorem newest_edit_wins:
  assumes "cipher_ok L" "store_ok L s" "list_all (write_ok (s_key s)) ws" "Clear \<notin> set ws"
    and "v_edit (view L s) e = None" "edits_of e ws \<noteq> []"
  shows "\<exists>t b. (t, b) \<in> set (edits_of e ws) \<and> (\<forall>x \<in> set (edits_of e ws). fst x \<le> t)
    \<and> v_edit (view L (fold (run_write L) ws s)) e = Some (t, b)
    \<and> (case v_message (view L (fold (run_write L) ws s)) e of Some m \<Rightarrow> m_body m = b | None \<Rightarrow> True)"
proof -
  let ?v = "fold (spec_write (s_key s \<noteq> None)) ws (view L s)"
  have run: "view L (fold (run_write L) ws s) = ?v"
    using writes.run_simulates [of L s "s_key s" ws] assms by simp
  have edit: "v_edit ?v e = newest_edit None (edits_of e ws)"
    using spec_run_edit [OF assms(4)] assms(5) by simp
  then obtain t b where tb: "v_edit ?v e = Some (t, b)"
    using newest_edit_None assms(6) by (cases "v_edit ?v e") auto
  have "edit_shown e (fold (spec_write (s_key s \<noteq> None)) us v)" if "edit_shown e v" for us v
    using that by (induction us arbitrary: v) (simp_all add: spec_edit_shown)
  moreover have "edit_shown e (view L s)" using assms(5) by (simp add: edit_shown_def)
  ultimately have "edit_shown e ?v" by blast
  with tb newest_edit_max [of None "edits_of e ws" t b] edit show ?thesis
    unfolding run by (auto simp: edit_shown_def split: option.splits)
qed

theorem newest_edit_wins_witness:
  "\<exists>t b. (t, b) \<in> set [(9, ''new''), (3, ''old'')] \<and> (\<forall>x \<in> set [(9, ''new''), (3, ''old'')]. fst x \<le> t)
    \<and> v_edit (view demo_cipher (fold (run_write demo_cipher)
        [RecordEdit ''e1'' 9 ''new'', InsertMessage demo_message, RecordEdit ''e1'' 3 ''old'']
        (fresh_store (Some ''k'')))) ''e1'' = Some (t, b)"
proof -
  let ?ws = "[RecordEdit ''e1'' 9 ''new'', InsertMessage demo_message, RecordEdit ''e1'' 3 ''old'']"
  have "ascii ''new''" "ascii ''hello''" "ascii ''old''" by code_simp+
  then have legal: "list_all (write_ok (Some ''k'')) ?ws" by (simp add: ascii_text_ok demo_message_def)
  have "v_edit (view demo_cipher (fresh_store (Some ''k''))) ''e1'' = None"
    by (simp add: view_def fresh_store_def clear_def on_db_def Let_def empty_db_def mark_encrypted_def)
  with newest_edit_wins [of demo_cipher "fresh_store (Some ''k'')" ?ws "''e1''"] legal
  show ?thesis by (auto simp: edits_of.simps)
qed

section \<open>The pagination edge\<close>

text \<open>The token of the first seeding of a room among the writes.\<close>

fun first_seed :: "string \<Rightarrow> store_write list \<Rightarrow> string option" where
  "first_seed r [] = None"
| "first_seed r (SeedBackToken q t # ws) = (if q = r then Some t else first_seed r ws)"
| "first_seed r (_ # ws) = first_seed r ws"

abbreviation seeded :: "string option \<Rightarrow> string option \<Rightarrow> string option" where
  "seeded tok new \<equiv> (case tok of Some t \<Rightarrow> Some t | None \<Rightarrow> new)"

lemma spec_edge:
  assumes "v_room v r = Some (x, tok, d)" "w \<noteq> Clear" "\<And>t' d'. w \<noteq> SetBackToken r t' d'"
  shows "\<exists>x'. v_room (spec_write keyed w v) r = Some (x', seeded tok (first_seed r [w]), d)"
  using assms by (cases w) (auto split: option.splits prod.splits)

lemma first_seed_Cons: "first_seed r (w # ws) = seeded (first_seed r [w]) (first_seed r ws)"
  by (cases w) simp_all

lemma spec_run_edge:
  assumes "v_room v r = Some (x, tok, d)" "Clear \<notin> set ws" "\<forall>t d. SetBackToken r t d \<notin> set ws"
  shows "\<exists>x'. v_room (fold (spec_write keyed) ws v) r = Some (x', seeded tok (first_seed r ws), d)"
  using assms
proof (induction ws arbitrary: v x tok)
  case Nil
  then show ?case by (auto split: option.split)
next
  case (Cons w ws)
  then obtain x' where "v_room (spec_write keyed w v) r = Some (x', seeded tok (first_seed r [w]), d)"
    using spec_edge [of v r x tok d w keyed] by auto
  from Cons.IH [OF this] Cons.prems(2,3) show ?case
    by (subst first_seed_Cons) (auto split: option.splits)
qed

text \<open>
  C31: Outside paging the edge of a room's history is set once. Whatever is written to the store short
  of a wipe or a page of that room, an edge that has a token keeps it, an edge that has none takes the
  token of the first seeding and no later one, and the mark that the beginning was reached stays as
  it is. Seeding says whether it wrote: exactly when the room had no token. Seeding a room the store
  does not know does nothing.
\<close>

theorem edge_seeded_once:
  assumes "cipher_ok L" "store_ok L s" "list_all (write_ok (s_key s)) ws" "Clear \<notin> set ws"
    and "\<forall>t d. SetBackToken r t d \<notin> set ws" "r \<in> rr_id ` set (t_room (s_db s))" "back_token r s = (tok, d)"
  shows "back_token r (fold (run_write L) ws s) = (case tok of Some t \<Rightarrow> Some t | None \<Rightarrow> first_seed r ws, d)
    \<and> fst (seed_back_token r t' s) = (tok = None)
    \<and> (if q \<in> rr_id ` set (t_room (s_db s)) then True else seed_back_token q t' s = (False, s))"
proof (intro conjI)
  let ?v = "fold (spec_write (s_key s \<noteq> None)) ws (view L s)"
  have dist: "distinct (map rr_id (t_room (s_db s)))" using assms(2) by (simp add: ok_defs)
  obtain row where "row_at rr_id r (t_room (s_db s)) = Some row" using assms(6) row_at_member [OF dist] by auto
  then obtain x where x: "v_room (view L s) r = Some (x, tok, d)"
    using assms(7) by (auto simp: back_token_view [where L = L] view_def)
  have run: "view L (fold (run_write L) ws s) = ?v"
    using writes.run_simulates [of L s "s_key s" ws] assms by simp
  show "back_token r (fold (run_write L) ws s) = (seeded tok (first_seed r ws), d)"
    using spec_run_edge [OF x assms(4,5), of "s_key s \<noteq> None"] unfolding back_token_view [where L = L] run
    by (elim exE) simp
  show "fst (seed_back_token r t' s) = (tok = None)"
    using view_seed_back_token(2) [of s r t' L] assms(2) x by (auto simp: store_ok_def split: option.split)
  have same: "update_rows hit f xs = xs" if "\<And>x. x \<in> set xs \<Longrightarrow> \<not> hit x" for hit and f :: "room_row \<Rightarrow> room_row" and xs
    using that by (induction xs) (auto simp: update_rows_def)
  show "if q \<in> rr_id ` set (t_room (s_db s)) then True else seed_back_token q t' s = (False, s)"
  proof (cases "q \<in> rr_id ` set (t_room (s_db s))")
    case False
    then have none: "\<not> (rr_id row = q \<and> rr_back_token row = None)" if "row \<in> set (t_room (s_db s))" for row using that by auto
    then show ?thesis using False by (auto simp: seed_back_token_def on_db_def list_ex_iff Let_def same [OF none])
  qed simp
qed

definition demo_room :: room where
  "demo_room = \<lparr>r_id = ''r'', r_name = ''Mum'', r_encrypted = True, r_unread = 2, r_last_ts = 7,
     r_last_preview = ''hi''\<rparr>"

lemma demo_room_legal:
  "text_ok (Some ''k'') (r_name demo_room)" "text_ok (Some ''k'') (r_last_preview demo_room)"
proof -
  have "ascii ''Mum''" "ascii ''hi''" by code_simp+
  then show "text_ok (Some ''k'') (r_name demo_room)" "text_ok (Some ''k'') (r_last_preview demo_room)"
    by (simp_all add: demo_room_def ascii_text_ok)
qed

definition demo_unpaged :: store where
  "demo_unpaged = run_write demo_cipher (UpsertRoom demo_room) (fresh_store (Some ''k''))"

lemma demo_unpaged_facts:
  "store_ok demo_cipher demo_unpaged" "s_key demo_unpaged = Some ''k''"
  "''r'' \<in> rr_id ` set (t_room (s_db demo_unpaged))" "back_token ''r'' demo_unpaged = (None, False)"
proof -
  let ?ws = "[UpsertRoom demo_room]"
  have run: "demo_unpaged = fold (run_write demo_cipher) ?ws (fresh_store (Some ''k''))"
    by (simp add: demo_unpaged_def)
  have legal: "list_all (write_ok (Some ''k'')) ?ws" using demo_room_legal by simp
  show "store_ok demo_cipher demo_unpaged" "s_key demo_unpaged = Some ''k''"
    unfolding run using writes.run_inv [of demo_cipher "fresh_store (Some ''k'')" "Some ''k''" ?ws] legal by simp_all
  have "view demo_cipher demo_unpaged = fold (spec_write True) ?ws (view demo_cipher (fresh_store (Some ''k'')))"
    unfolding run using writes.run_simulates [of demo_cipher "fresh_store (Some ''k'')" "Some ''k''" ?ws] legal by simp
  moreover have "v_room (view demo_cipher (fresh_store (Some ''k''))) ''r'' = None"
    by (simp add: view_def fresh_store_def clear_def on_db_def Let_def empty_db_def mark_encrypted_def put_meta_row_def)
  ultimately have room: "v_room (view demo_cipher demo_unpaged) ''r'' = Some (stored_room demo_room, None, False)"
    by (simp add: demo_room_def)
  then show "back_token ''r'' demo_unpaged = (None, False)"
    unfolding back_token_view [where L = demo_cipher] by simp
  from room show "''r'' \<in> rr_id ` set (t_room (s_db demo_unpaged))"
    by (auto simp: view_def intro: image_eqI [OF sym] dest!: row_at_SomeD)
qed

theorem edge_seeded_once_witness:
  "back_token ''r'' (fold (run_write demo_cipher)
      [UpsertRoom demo_room, SeedBackToken ''r'' ''t1'', SeedBackToken ''r'' ''t9''] demo_unpaged) = (Some ''t1'', False)
   \<and> fst (seed_back_token ''r'' ''t1'' demo_unpaged)"
  using edge_seeded_once [of demo_cipher demo_unpaged "[UpsertRoom demo_room, SeedBackToken ''r'' ''t1'', SeedBackToken ''r'' ''t9'']" "''r''"
      None False "''t1''"] demo_unpaged_facts demo_room_legal
  by simp

section \<open>The room list\<close>

lemma ts_value_inj: "0 < ts_value i \<Longrightarrow> ts_value i = ts_value j \<Longrightarrow> i < 2 ^ 63 \<Longrightarrow> j < 2 ^ 63 \<Longrightarrow> i = j"
proof -
  assume a: "0 < ts_value i" "ts_value i = ts_value j" "i < 2 ^ 63" "j < 2 ^ 63"
  have u: "uint (ts_value k) = max 0 k" if "k < 2 ^ 63" for k
    using that by (simp add: ts_value_def uint_word_of_int take_bit_int_eq_self max_def)
  have "0 < uint (ts_value i)" using a(1) by (simp add: word_less_def)
  then have "0 < max 0 i" unfolding u [OF a(3)] .
  moreover have "max 0 i = max 0 j" using u [OF a(3)] u [OF a(4)] a(2) by metis
  ultimately show "i = j" by linarith
qed

text \<open>
  The room list holds every stored room exactly once, with the values last written for it,
  most recently active first and by id among equally recent ones.
\<close>

theorem room_list_ordered:
  assumes "store_ok L s"
  shows "\<exists>rs. list_rooms L s = Inr rs \<and> distinct (map r_id rs)
    \<and> (\<forall>r. r \<in> set rs \<longleftrightarrow> (\<exists>edge. v_room (view L s) (r_id r) = Some (r, edge)))
    \<and> sorted_wrt (\<lambda>a b. r_last_ts b \<le> r_last_ts a) rs
    \<and> sorted_wrt (\<lambda>a b. 0 < r_last_ts a \<and> r_last_ts a = r_last_ts b \<longrightarrow> r_id a \<le> r_id b) rs"
proof -
  let ?t = "t_room (s_db s)" and ?f = "\<lambda>row. (- rr_last_ts row, rr_id row)"
  let ?p = "plain_room L (s_key s)"
  let ?rs = "map ?p (order_by ?f ?t)"
  have res: "list_rooms L s = Inr ?rs" by (rule list_rooms_view [OF assms])
  have dist: "distinct (map rr_id ?t)" using assms by (simp add: ok_defs)
  have p: "r_id (?p row) = rr_id row" "r_last_ts (?p row) = ts_value (rr_last_ts row)" for row
    by (simp_all add: plain_room_def)
  have bound: "rr_last_ts row < 2 ^ 63" if "row \<in> set ?t" for row using assms that by (auto simp: ok_defs)
  have order: "sorted_wrt (\<lambda>a b. ?f a \<le> ?f b) (order_by ?f ?t)" by (rule sorted_order)
  have "distinct (map rr_id (order_by ?f ?t))"
    using dist by (simp add: order_by_def distinct_map)
  then have "distinct (map r_id ?rs)" by (simp add: p comp_def)
  moreover have "r \<in> set ?rs \<longleftrightarrow> (\<exists>edge. v_room (view L s) (r_id r) = Some (r, edge))" for r
  proof
    assume "r \<in> set ?rs"
    then obtain row where "row \<in> set ?t" "r = ?p row" by auto
    then show "\<exists>edge. v_room (view L s) (r_id r) = Some (r, edge)"
      using row_at_member [OF dist] by (simp add: view_def p)
  next
    assume "\<exists>edge. v_room (view L s) (r_id r) = Some (r, edge)"
    then obtain row where "row_at rr_id (r_id r) ?t = Some row" "r = ?p row" by (auto simp: view_def)
    then show "r \<in> set ?rs" using row_at_SomeD [of rr_id "r_id r" ?t row] by auto
  qed
  moreover have "sorted_wrt (\<lambda>a b. r_last_ts b \<le> r_last_ts a) ?rs"
    unfolding sorted_wrt_map
  proof (rule sorted_wrt_mono_rel [OF _ order])
    fix a b assume "a \<in> set (order_by ?f ?t)" "b \<in> set (order_by ?f ?t)" "?f a \<le> ?f b"
    then show "r_last_ts (?p b) \<le> r_last_ts (?p a)"
      unfolding p using bound [of a] by (intro ts_value_mono) auto
  qed
  moreover have "sorted_wrt (\<lambda>a b. 0 < r_last_ts a \<and> r_last_ts a = r_last_ts b \<longrightarrow> r_id a \<le> r_id b) ?rs"
    unfolding sorted_wrt_map
  proof (rule sorted_wrt_mono_rel [OF _ order])
    fix a b assume ab: "a \<in> set (order_by ?f ?t)" "b \<in> set (order_by ?f ?t)" "?f a \<le> ?f b"
    have "rr_last_ts a = rr_last_ts b" if "0 < ts_value (rr_last_ts a)" "ts_value (rr_last_ts a) = ts_value (rr_last_ts b)"
      using that bound [of a] bound [of b] ab ts_value_inj by auto
    with ab show "0 < r_last_ts (?p a) \<and> r_last_ts (?p a) = r_last_ts (?p b) \<longrightarrow> r_id (?p a) \<le> r_id (?p b)"
      unfolding p by auto
  qed
  ultimately show ?thesis using res by blast
qed

theorem room_list_ordered_witness:
  "\<exists>rs. list_rooms demo_cipher demo_unpaged = Inr rs \<and> distinct (map r_id rs)"
  using room_list_ordered [OF demo_unpaged_facts(1)] by blast

section \<open>The session\<close>

text \<open>What a wipe leaves: no row in any table, but for the mark that the store is encrypted.\<close>

definition wiped :: "store \<Rightarrow> bool" where
  "wiped s \<longleftrightarrow>
     t_room (s_db s) = [] \<and> t_message (s_db s) = [] \<and> t_edit (s_db s) = [] \<and> t_member (s_db s) = []
     \<and> t_pickle (s_db s) = [] \<and> t_meta (s_db s) = (if s_key s = None then [] else [(ENCRYPTED_FLAG, ''1'')])"

lemma wiped_clear: "wiped (clear s)"
  by (simp add: wiped_def clear_def on_db_def mark_encrypted_def put_meta_row_def upsert_def empty_db_def Let_def)

lemma wiped_meta: "wiped s \<Longrightarrow> k \<noteq> ENCRYPTED_FLAG \<Longrightarrow> meta_row k (s_db s) = None"
  by (simp add: wiped_def meta_row_def)

lemma s_key_clear [simp]: "s_key (clear s) = s_key s"
  by (simp add: clear_def on_db_def Let_def)

text \<open>
  C35: The session that is saved at login is the session the next start loads, under encryption too.
  The wipe of a logout leaves nothing: every table is empty, rooms, messages, pending edits, names of
  members and pickled keys, and of the meta rows only the mark remains that says the store is
  encrypted, if it is; so no session is loaded from it. The key of the store itself stays in use.
\<close>

theorem session_saved_and_wiped:
  assumes "cipher_ok L" "json_lib_ok J" "store_ok L s"
    and utf8: "valid_utf8 (homeserver x)" "valid_utf8 (user_id x)" "valid_utf8 (device_id x)" "valid_utf8 (access_token x)"
    and "text_ok (s_key s) (json_print J (session_fields x))"
  shows "load_session L J (save_session L J x s) = Inr (Some x)
    \<and> load_session L J (clear s) = Inr None \<and> s_key (clear s) = s_key s
    \<and> t_room (s_db (clear s)) = [] \<and> t_message (s_db (clear s)) = [] \<and> t_edit (s_db (clear s)) = []
    \<and> t_member (s_db (clear s)) = [] \<and> t_pickle (s_db (clear s)) = []
    \<and> t_meta (s_db (clear s)) = (if s_key s = None then [] else [(ENCRYPTED_FLAG, ''1'')])"
proof -
  let ?v = "session_fields x"
  have flag: "SESSION_KEY \<noteq> ENCRYPTED_FLAG" by code_simp
  then have legal: "write_ok (s_key s) (SetMeta SESSION_KEY (json_print J ?v))" using assms(8) by simp
  have ok: "store_ok L (save_session L J x s)"
    using ok_set_meta [OF assms(1,3) legal] by (simp add: save_session_def)
  have "get_meta L SESSION_KEY (save_session L J x s) = Inr (Some (json_print J ?v))"
    unfolding get_meta_view [OF ok] unfolding save_session_def view_set_meta [OF assms(1) legal, of True] by simp
  moreover have "ascii ''homeserver''" "ascii ''user_id''" "ascii ''device_id''" "ascii ''access_token''" by code_simp+
  then have "json_ok (json_norm ?v)" using utf8 valid_utf8_ascii by (simp add: session_fields_def obj_def bt_collect_def)
  then have "json_parse J (json_print J ?v) = Inr (json_norm ?v)" using assms(2) by (simp add: json_lib_ok_def)
  moreover have "dec_session (json_norm ?v) = Some x"
    by (simp add: session_fields_def obj_def dec_session_def field_def dec_str_def bt_collect_def)
  ultimately have "load_session L J (save_session L J x s) = Inr (Some x)"
    by (simp add: load_session_def from_str_def)
  moreover have "load_session L J (clear s) = Inr None"
    using wiped_meta [OF wiped_clear flag, of s] by (simp add: load_session_def get_meta_def reveal_opt_def Let_def split: option.split)
  ultimately show ?thesis using wiped_clear [of s] by (simp add: wiped_def)
qed

definition demo_session :: session where
  "demo_session = \<lparr>homeserver = ''https://a.io'', user_id = ''@a:a.io'', device_id = ''D'', access_token = ''t''\<rparr>"

theorem session_saved_and_wiped_witness:
  "load_session demo_cipher unary_json (save_session demo_cipher unary_json demo_session (fresh_store (Some ''k'')))
      = Inr (Some demo_session)
    \<and> load_session demo_cipher unary_json (clear (fresh_store (Some ''k''))) = Inr None"
proof -
  have "ascii ''https://a.io''" "ascii ''@a:a.io''" "ascii ''D''" "ascii ''t''" by code_simp+
  then have "valid_utf8 ''https://a.io''" "valid_utf8 ''@a:a.io''" "valid_utf8 ''D''" "valid_utf8 ''t''"
    by (simp_all add: valid_utf8_ascii)
  then show ?thesis
    using session_saved_and_wiped [of demo_cipher unary_json "fresh_store (Some ''k'')" demo_session]
      unary_json_ok ascii_text_ok [OF unary_print_ascii] by (simp add: demo_session_def)
qed

end
