(* ===== verification/Migration.thy ===== *)
theory Migration
  imports Store_View
begin

text \<open>
  Opening a store (\<open>Store::open\<close>, \<open>migrate\<close>, \<open>mark_encrypted\<close> and \<open>encrypt_existing\<close> of
  \<open>store.rs\<close>): the columns added after a release, the refusal to open an encrypted database without
  its key, and the one-time encryption of a database that predates the key. The chunked scan is
  proved to be a single pass over the table, and the migration to seal every sensitive value while
  leaving what the tables stand for unchanged.
\<close>

section \<open>Schema\<close>

text \<open>A database file: the tables, and the columns each table was created or altered with.\<close>

record disk =
  d_db :: db
  d_columns :: "string \<Rightarrow> string list"

definition ADDED :: "(string \<times> (string \<times> string) list) list" where
  "ADDED =
     [(''message'', [(''session_id'', ''TEXT''), (''ciphertext'', ''TEXT'')]),
      (''room'', [(''back_token'', ''TEXT''), (''back_done'', ''INTEGER NOT NULL DEFAULT 0'')])]"

text \<open>\<open>ALTER TABLE\<close> gives the column its default in every row; the model's rows hold that value.\<close>

definition add_column :: "string \<Rightarrow> string \<Rightarrow> disk \<Rightarrow> disk" where
  "add_column table column d = d\<lparr>d_columns := (d_columns d)(table := d_columns d table @ [column])\<rparr>"

definition migrate_table :: "string \<times> (string \<times> string) list \<Rightarrow> disk \<Rightarrow> disk" where
  "migrate_table tc d =
     (let present = d_columns d (fst tc)
      in fold (\<lambda>(column, decl) d. if column \<in> set present then d else add_column (fst tc) column d)
           (snd tc) d)"

definition migrate :: "disk \<Rightarrow> disk" where
  "migrate d = fold migrate_table ADDED d"

text \<open>A column that is not there yet reads as its default.\<close>

definition absent_default :: "disk \<Rightarrow> bool" where
  "absent_default d \<longleftrightarrow>
     (''session_id'' \<notin> set (d_columns d ''message'') \<longrightarrow> (\<forall>r \<in> set (t_message (d_db d)). mr_session_id r = None))
     \<and> (''ciphertext'' \<notin> set (d_columns d ''message'') \<longrightarrow> (\<forall>r \<in> set (t_message (d_db d)). mr_ciphertext r = None))
     \<and> (''back_token'' \<notin> set (d_columns d ''room'') \<longrightarrow> (\<forall>r \<in> set (t_room (d_db d)). rr_back_token r = None))
     \<and> (''back_done'' \<notin> set (d_columns d ''room'') \<longrightarrow> (\<forall>r \<in> set (t_room (d_db d)). \<not> rr_back_done r))"

definition has_columns :: "disk \<Rightarrow> bool" where
  "has_columns d \<longleftrightarrow> list_all (\<lambda>(table, columns). list_all (\<lambda>(c, decl). c \<in> set (d_columns d table)) columns) ADDED"

section \<open>Encrypting what is there\<close>

text \<open>The state of the transaction: the tables and the number of salts drawn.\<close>

definition seal_once :: "cipher_lib \<Rightarrow> string \<Rightarrow> string \<Rightarrow> nat \<Rightarrow> string \<times> nat" where
  "seal_once L master v n =
     (if starts_with v ENC_PREFIX then (v, n) else (seal L (salt_at L n) master v, n + 1))"

definition encrypt_meta :: "cipher_lib \<Rightarrow> string \<Rightarrow> string \<Rightarrow> db \<times> nat \<Rightarrow> db \<times> nat" where
  "encrypt_meta L master k dn =
     (case meta_row k (fst dn) of
        None \<Rightarrow> dn
      | Some value \<Rightarrow>
          if starts_with value ENC_PREFIX then dn
          else ((fst dn)\<lparr>t_meta := update_rows (\<lambda>r. fst r = k)
                  (\<lambda>r. (fst r, seal L (salt_at L (snd dn)) master value)) (t_meta (fst dn))\<rparr>, snd dn + 1))"

text \<open>One row of each table, with the values it already has sealed left alone.\<close>

definition encrypt_room_row :: "cipher_lib \<Rightarrow> string \<Rightarrow> room_row \<Rightarrow> nat \<Rightarrow> room_row \<times> nat" where
  "encrypt_room_row L master r n =
     (let (name, n1) = seal_once L master (rr_name r) n;
          (preview, n2) = seal_once L master (rr_last_preview r) n1
      in (r\<lparr>rr_name := name, rr_last_preview := preview\<rparr>, n2))"

definition encrypt_message_row :: "cipher_lib \<Rightarrow> string \<Rightarrow> message_row \<Rightarrow> nat \<Rightarrow> message_row \<times> nat" where
  "encrypt_message_row L master r n =
     (let (body, n1) = seal_once L master (mr_body r) n;
          (ciphertext, n2) = (case mr_ciphertext r of
             Some c \<Rightarrow> (let (c', n') = seal_once L master c n1 in (Some c', n')) | None \<Rightarrow> (None, n1))
      in (r\<lparr>mr_body := body, mr_ciphertext := ciphertext\<rparr>, n2))"

definition encrypt_edit_row :: "cipher_lib \<Rightarrow> string \<Rightarrow> edit_row \<Rightarrow> nat \<Rightarrow> edit_row \<times> nat" where
  "encrypt_edit_row L master r n =
     (let (body, n1) = seal_once L master (er_body r) n in (r\<lparr>er_body := body\<rparr>, n1))"

definition encrypt_member_row :: "cipher_lib \<Rightarrow> string \<Rightarrow> member_row \<Rightarrow> nat \<Rightarrow> member_row \<times> nat" where
  "encrypt_member_row L master r n =
     (let (name, n1) = seal_once L master (mb_name r) n in (r\<lparr>mb_name := name\<rparr>, n1))"

text \<open>For each row read, an \<open>UPDATE ... WHERE key = ?\<close> with its new values.\<close>

definition update_each ::
  "('r \<Rightarrow> 'k) \<Rightarrow> ('r \<Rightarrow> nat \<Rightarrow> 'r \<times> nat) \<Rightarrow> 'r list \<Rightarrow> 'r list \<times> nat \<Rightarrow> 'r list \<times> nat" where
  "update_each key f rows tn =
     fold (\<lambda>r (t, n). let (r', n') = f r n in (update_rows (\<lambda>q. key q = key r) (\<lambda>_. r') t, n')) rows tn"

definition CHUNK :: nat where
  "CHUNK = 512"

text \<open>
  The scan in rowid-ordered chunks. Each round reads at most \<open>CHUNK\<close> rows above the cursor; the
  first argument bounds the number of rounds.
\<close>

definition batch :: "('r \<Rightarrow> int) \<Rightarrow> int \<Rightarrow> 'r list \<Rightarrow> 'r list" where
  "batch rid after t = take CHUNK (order_by rid (filter (\<lambda>r. after < rid r) t))"

fun walk ::
  "nat \<Rightarrow> ('r \<Rightarrow> int) \<Rightarrow> ('r \<Rightarrow> nat \<Rightarrow> 'r \<times> nat) \<Rightarrow> int \<Rightarrow> 'r list \<times> nat \<Rightarrow> ('r list \<times> nat) option" where
  "walk 0 rid f after tn = None"
| "walk (Suc rounds) rid f after tn =
     (let rows = batch rid after (fst tn)
      in if rows = [] then Some tn
         else walk rounds rid f (rid (last rows)) (update_each rid f rows tn))"

definition walk_all ::
  "('r \<Rightarrow> int) \<Rightarrow> ('r \<Rightarrow> nat \<Rightarrow> 'r \<times> nat) \<Rightarrow> 'r list \<times> nat \<Rightarrow> 'r list \<times> nat" where
  "walk_all rid f tn = the (walk (length (fst tn) + 1) rid f 0 tn)"

definition encrypt_existing :: "cipher_lib \<Rightarrow> string \<Rightarrow> db \<times> nat \<Rightarrow> db \<times> nat" where
  "encrypt_existing L master dn =
     (let (d, n) = fold (\<lambda>(k, label). encrypt_meta L master k) SECRET_META_KEYS dn;
          (rooms, n) = update_each rr_id (encrypt_room_row L master) (t_room d) (t_room d, n);
          (messages, n) = walk_all mr_rowid (encrypt_message_row L master) (t_message d, n);
          (edits, n) = update_each er_target (encrypt_edit_row L master) (t_edit d) (t_edit d, n);
          (members, n) = walk_all mb_rowid (encrypt_member_row L master) (t_member d, n)
      in (mark_encrypted (d\<lparr>t_room := rooms, t_message := messages, t_edit := edits, t_member := members\<rparr>), n))"

definition no_key_error :: "string \<Rightarrow> error" where
  "no_key_error path = Msg (''store database '' @ path @
     '' is encrypted but no store key was supplied -- the key file is missing or unreadable.'' @
     '' The message history, the room list and the access token in it cannot be read or recovered'' @
     '' without that key. Nothing has been modified; restore the key file.'')"

text \<open>The open database, or why it is refused; and what is on the disk either way.\<close>

definition open_store :: "cipher_lib \<Rightarrow> string \<Rightarrow> string option \<Rightarrow> nat \<Rightarrow> disk \<Rightarrow> store result \<times> disk" where
  "open_store L path key draws d =
     (let d1 = migrate d; encrypted = (meta_row ENCRYPTED_FLAG (d_db d1) = Some ''1'')
      in case key of
           Some master \<Rightarrow>
             if encrypted then (Inr \<lparr>s_db = d_db d1, s_key = key, s_draws = draws\<rparr>, d1)
             else (let (db', n) = encrypt_existing L master (d_db d1, draws)
                   in (Inr \<lparr>s_db = db', s_key = key, s_draws = n\<rparr>, d1\<lparr>d_db := db'\<rparr>))
         | None \<Rightarrow>
             if encrypted then (Inl (no_key_error path), d1)
             else (Inr \<lparr>s_db = d_db d1, s_key = None, s_draws = draws\<rparr>, d1))"

section \<open>The chunked scan is one pass\<close>

fun pass :: "('r \<Rightarrow> nat \<Rightarrow> 'r \<times> nat) \<Rightarrow> 'r list \<Rightarrow> nat \<Rightarrow> 'r list \<times> nat" where
  "pass f [] n = ([], n)"
| "pass f (r # t) n = (let (r', n1) = f r n; (t', n2) = pass f t n1 in (r' # t', n2))"

lemma pass_append:
  "pass f (t @ u) n = (fst (pass f t n) @ fst (pass f u (snd (pass f t n))), snd (pass f u (snd (pass f t n))))"
  by (induction t arbitrary: n) (auto simp: case_prod_unfold Let_def)

lemma update_one:
  assumes "distinct (map key (pre @ r # post))"
  shows "update_rows (\<lambda>q. key q = key r) (\<lambda>_. r') (pre @ r # post) = pre @ r' # post"
proof -
  have "map (\<lambda>q. if key q = key r then r' else q) us = us" if "key r \<notin> key ` set us" for us
    using that by (induction us) auto
  then show ?thesis using assms by (simp add: update_rows_def)
qed

lemma update_each_pass:
  assumes "distinct (map key (pre @ rows @ post))" "\<And>r n. key (fst (f r n)) = key r"
  shows "update_each key f rows (pre @ rows @ post, n) = (pre @ fst (pass f rows n) @ post, snd (pass f rows n))"
  using assms(1)
proof (induction rows arbitrary: pre n)
  case Nil
  then show ?case by (simp add: update_each_def)
next
  case (Cons r rows)
  obtain r' n' where r': "f r n = (r', n')" by force
  then have key: "key r' = key r" using assms(2) [of r n] by simp
  have "update_each key f (r # rows) (pre @ (r # rows) @ post, n)
      = update_each key f rows ((pre @ [r']) @ rows @ post, n')"
    using update_one [of key pre r "rows @ post" r'] Cons.prems by (simp add: update_each_def r')
  also have "\<dots> = ((pre @ [r']) @ fst (pass f rows n') @ post, snd (pass f rows n'))"
    by (rule Cons.IH) (use Cons.prems key in simp)
  finally show ?case by (simp add: r' case_prod_unfold Let_def)
qed

lemma map_key_pass: "(\<And>r n. key (fst (f r n)) = key r) \<Longrightarrow> map key (fst (pass f t n)) = map key t"
  by (induction t arbitrary: n) (simp_all add: case_prod_unfold Let_def)

lemma length_pass [simp]: "length (fst (pass f t n)) = length t"
  by (induction t arbitrary: n) (simp_all add: case_prod_unfold Let_def)

lemma sorted_le_last: "sorted xs \<Longrightarrow> x \<in> set xs \<Longrightarrow> x \<le> last xs"
  by (cases xs rule: rev_cases) (auto simp: sorted_append)

lemma walk_pass:
  assumes "sorted_wrt (<) (map rid (pre @ post))" "\<And>r n. rid (fst (f r n)) = rid r"
    and "\<forall>r \<in> set pre. rid r \<le> after" "\<forall>r \<in> set post. after < rid r" "length post < rounds"
  shows "walk rounds rid f after (pre @ post, n) = Some (pre @ fst (pass f post n), snd (pass f post n))"
  using assms(1,3-5)
proof (induction rounds arbitrary: pre post after n)
  case (Suc rounds)
  have "sorted_wrt (<) (map rid post)" using Suc.prems(1) by (simp add: sorted_wrt_append)
  then have sorted: "sorted (map rid post)" by (simp add: strict_sorted_iff)
  have "filter (\<lambda>r. after < rid r) (pre @ post) = post"
    using Suc.prems(2,3) by (simp add: filter_empty_iff filter_id_conv) (force simp: filter_empty_iff)
  then have batch: "batch rid after (pre @ post) = take CHUNK post"
    using sorted by (simp add: batch_def order_by_def sorted_sort_id sort_key_id_if_sorted)
  show ?case
  proof (cases "post = []")
    case True
    with batch show ?thesis by (simp add: Let_def)
  next
    case False
    let ?b = "take CHUNK post" and ?rest = "drop CHUNK post"
    have b: "?b \<noteq> []" using False by (simp add: CHUNK_def)
    have dist: "distinct (map rid (pre @ ?b @ ?rest))"
      using Suc.prems(1) by (simp add: strict_sorted_iff)
    have upd: "update_each rid f ?b (pre @ post, n)
        = ((pre @ fst (pass f ?b n)) @ ?rest, snd (pass f ?b n))"
    proof -
      have "update_each rid f ?b (pre @ ?b @ ?rest, n) = (pre @ fst (pass f ?b n) @ ?rest, snd (pass f ?b n))"
        by (rule update_each_pass [OF dist]) (rule assms(2))
      then show ?thesis by simp
    qed
    have keys: "map rid (fst (pass f ?b n)) = map rid ?b" by (rule map_key_pass) (rule assms(2))
    have last: "rid (last ?b) \<in> rid ` set ?b" using b by simp
    have split: "sorted_wrt (<) (map rid ?b @ map rid ?rest)"
      using \<open>sorted_wrt (<) (map rid post)\<close> by (simp flip: map_append)
    have "walk rounds rid f (rid (last ?b)) ((pre @ fst (pass f ?b n)) @ ?rest, snd (pass f ?b n))
        = Some ((pre @ fst (pass f ?b n)) @ fst (pass f ?rest (snd (pass f ?b n))),
                snd (pass f ?rest (snd (pass f ?b n))))"
    proof (rule Suc.IH)
      show "sorted_wrt (<) (map rid ((pre @ fst (pass f ?b n)) @ ?rest))"
      proof -
        have "map rid ((pre @ fst (pass f ?b n)) @ ?rest) = map rid (pre @ post)"
          by (simp add: keys) (metis append_take_drop_id map_append)
        with Suc.prems(1) show ?thesis by metis
      qed
      show "\<forall>r \<in> set (pre @ fst (pass f ?b n)). rid r \<le> rid (last ?b)"
      proof
        fix r assume "r \<in> set (pre @ fst (pass f ?b n))"
        then have "r \<in> set pre \<or> rid r \<in> set (map rid ?b)" using keys by (metis Un_iff imageI list.set_map set_append)
        moreover have "x \<le> rid (last ?b)" if "x \<in> set (map rid ?b)" for x
        proof -
          have "sorted (map rid ?b)" using sorted by (simp add: sorted_wrt_take flip: take_map)
          from sorted_le_last [OF this that] b show ?thesis by (simp add: last_map)
        qed
        moreover have "after < rid (last ?b)" using Suc.prems(3) b by (meson in_set_takeD last_in_set)
        ultimately show "rid r \<le> rid (last ?b)" using Suc.prems(2) by fastforce
      qed
      show "\<forall>r \<in> set ?rest. rid (last ?b) < rid r"
        using split last by (auto simp: sorted_wrt_append)
      have "0 < length post" using False by simp
      moreover have "length ?rest \<le> length post - 1" by (simp add: CHUNK_def diff_le_mono2)
      ultimately show "length ?rest < rounds" using Suc.prems(4) by linarith
    qed
    then show ?thesis
      using b pass_append [of f ?b ?rest n] by (simp add: batch upd Let_def)
  qed
qed simp

lemma walk_all_pass:
  assumes "sorted_wrt (<) (map rid t)" "\<forall>r \<in> set t. 0 < rid r" "\<And>r n. rid (fst (f r n)) = rid r"
  shows "walk_all rid f (t, n) = pass f t n"
  unfolding walk_all_def using walk_pass [of rid "[]" t f 0 "length t + 1" n] assms by simp

lemma update_all_pass:
  assumes "distinct (map key t)" "\<And>r n. key (fst (f r n)) = key r"
  shows "update_each key f t (t, n) = pass f t n"
proof -
  have "update_each key f t ([] @ t @ [], n) = ([] @ fst (pass f t n) @ [], snd (pass f t n))"
    by (rule update_each_pass) (use assms in simp_all)
  then show ?thesis by simp
qed

lemma set_pass: "r' \<in> set (fst (pass f t n)) \<Longrightarrow> \<exists>r \<in> set t. \<exists>k. r' = fst (f r k)"
  by (induction t arbitrary: n) (auto simp: case_prod_unfold Let_def)

lemma row_at_pass:
  assumes "\<And>r n. key (fst (f r n)) = key r" "\<And>r n. r \<in> set t \<Longrightarrow> g (fst (f r n)) = g r"
  shows "map_option g (row_at key k (fst (pass f t n))) = map_option g (row_at key k t)"
  using assms(2) by (induction t arbitrary: n) (simp_all add: case_prod_unfold Let_def assms(1))

section \<open>What the migration does\<close>

text \<open>A value as it may be before the migration: sealed under this key, or plain UTF-8 text.\<close>

definition old_value :: "cipher_lib \<Rightarrow> string \<Rightarrow> string \<Rightarrow> bool" where
  "old_value L master v \<longleftrightarrow> (if is_sealed v then readable L (Some master) v else valid_utf8 v)"

lemma seal_once_value:
  assumes "cipher_ok L" "old_value L master v"
  shows "value_ok L (Some master) (fst (seal_once L master v n))"
    "plain L (Some master) (fst (seal_once L master v n)) = plain L (Some master) v"
proof -
  have "value_ok L (Some master) (fst (seal_once L master v n))
    \<and> plain L (Some master) (fst (seal_once L master v n)) = plain L (Some master) v"
  proof (cases "is_sealed v")
    case True
    with assms(2) show ?thesis by (simp add: seal_once_def old_value_def value_ok_def flip: is_sealed_def)
  next
    case False
    let ?c = "seal L (salt_at L n) master v"
    have "reads L (Some master) ?c v"
      using assms False by (intro reads_seal) (simp_all add: cipher_ok_def old_value_def)
    moreover have "reads L (Some master) v v" using False by (rule reads_plain)
    ultimately show ?thesis
      using False by (auto simp: seal_once_def value_ok_def reads_plain_eq is_sealed_def [symmetric] intro: readableI)
  qed
  then show "value_ok L (Some master) (fst (seal_once L master v n))"
    "plain L (Some master) (fst (seal_once L master v n)) = plain L (Some master) v" by simp_all
qed

lemmas encrypt_rows = encrypt_room_row_def encrypt_message_row_def encrypt_edit_row_def
  encrypt_member_row_def case_prod_unfold Let_def

lemma encrypt_row_keys:
  "rr_id (fst (encrypt_room_row L master r n)) = rr_id r"
  "mr_event_id (fst (encrypt_message_row L master m n)) = mr_event_id m"
  "mr_rowid (fst (encrypt_message_row L master m n)) = mr_rowid m"
  "er_target (fst (encrypt_edit_row L master e n)) = er_target e"
  "mb_key (fst (encrypt_member_row L master b n)) = mb_key b"
  "mb_rowid (fst (encrypt_member_row L master b n)) = mb_rowid b"
  by (simp_all add: encrypt_rows)

text \<open>The three secret entries, each sealed where it stands.\<close>

definition meta_map :: "cipher_lib \<Rightarrow> string \<Rightarrow> (string \<Rightarrow> bool) \<Rightarrow> (string \<times> string \<Rightarrow> string \<times> string) \<Rightarrow> bool" where
  "meta_map L master P h \<longleftrightarrow> (\<forall>r. fst (h r) = fst r \<and> (\<not> P (fst r) \<longrightarrow> h r = r)
     \<and> (P (fst r) \<longrightarrow> (\<exists>n. snd (h r) = fst (seal_once L master (snd r) n))))"

lemma meta_mapD:
  assumes "meta_map L master P h"
  shows "fst (h r) = fst r" "\<not> P (fst r) \<Longrightarrow> h r = r"
    "P (fst r) \<Longrightarrow> \<exists>n. snd (h r) = fst (seal_once L master (snd r) n)"
  using assms unfolding meta_map_def by blast+

lemma encrypt_meta_map:
  assumes "distinct (map fst (t_meta (fst dn)))"
  shows "\<exists>h. meta_map L master (\<lambda>j. j = k) h
    \<and> fst (encrypt_meta L master k dn) = (fst dn)\<lparr>t_meta := map h (t_meta (fst dn))\<rparr>"
proof -
  let ?t = "t_meta (fst dn)"
  let ?h = "\<lambda>r. if fst r = k then (k, fst (seal_once L master (snd r) (snd dn))) else r"
  have h: "meta_map L master (\<lambda>j. j = k) ?h" by (auto simp: meta_map_def)
  have at: "snd r = v" if "meta_row k (fst dn) = Some v" "r \<in> set ?t" "fst r = k" for r v
    using that row_at_member [OF assms that(2)] by (auto simp: meta_row_def)
  have none: "fst r \<noteq> k" if "meta_row k (fst dn) = None" "r \<in> set ?t" for r
    using that by (auto simp: meta_row_def row_at_None)
  have "fst (encrypt_meta L master k dn) = (fst dn)\<lparr>t_meta := map ?h ?t\<rparr>"
  proof (cases "meta_row k (fst dn)")
    case None
    then have "map ?h ?t = ?t" using none by (intro map_idI) auto
    with None show ?thesis by (simp add: encrypt_meta_def)
  next
    case (Some v)
    show ?thesis
    proof (cases "starts_with v ENC_PREFIX")
      case True
      have "?h r = r" if "r \<in> set ?t" for r
        using at [OF Some that] True by (cases r) (auto simp: seal_once_def)
      then have "map ?h ?t = ?t" by (intro map_idI)
      with Some True show ?thesis by (simp add: encrypt_meta_def)
    next
      case False
      have "(if fst r = k then (fst r, seal L (salt_at L (snd dn)) master v) else r) = ?h r" if "r \<in> set ?t" for r
        using at [OF Some that] False by (simp add: seal_once_def)
      then have "update_rows (\<lambda>r. fst r = k) (\<lambda>r. (fst r, seal L (salt_at L (snd dn)) master v)) ?t = map ?h ?t"
        unfolding update_rows_def by (intro map_cong) simp_all
      with Some False show ?thesis by (simp add: encrypt_meta_def)
    qed
  qed
  with h show ?thesis by blast
qed

lemma meta_map_comp:
  assumes "meta_map L master P g" "meta_map L master Q h" "\<And>k. \<not> (P k \<and> Q k)"
  shows "meta_map L master (\<lambda>k. P k \<or> Q k) (h \<circ> g)"
  unfolding meta_map_def
proof
  fix r
  note g = meta_mapD [OF assms(1), of r] and h = meta_mapD [OF assms(2), of "g r"]
  show "fst ((h \<circ> g) r) = fst r \<and> (\<not> (P (fst r) \<or> Q (fst r)) \<longrightarrow> (h \<circ> g) r = r)
     \<and> (P (fst r) \<or> Q (fst r) \<longrightarrow> (\<exists>n. snd ((h \<circ> g) r) = fst (seal_once L master (snd r) n)))"
    using g h assms(3) [of "fst r"] by (metis comp_apply)
qed

lemma encrypt_metas:
  assumes "distinct (map fst (t_meta (fst dn)))"
  shows "\<exists>h. meta_map L master (\<lambda>k. secret_meta_label k \<noteq> None) h
    \<and> fst (fold (\<lambda>(k, label). encrypt_meta L master k) SECRET_META_KEYS dn)
        = (fst dn)\<lparr>t_meta := map h (t_meta (fst dn))\<rparr>"
proof -
  define k1 k2 k3 where "k1 = SESSION_KEY" and "k2 = ''backup_key''" and "k3 = ''pickle_key''"
  have keys: "secret_meta_label k \<noteq> None \<longleftrightarrow> (k = k1 \<or> k = k2) \<or> k = k3" for k
    by (auto simp: secret_meta_label_def SECRET_META_KEYS_def k1_def k2_def k3_def)
  have diff: "k1 \<noteq> k2" "k1 \<noteq> k3" "k2 \<noteq> k3" by (simp_all add: k1_def k2_def k3_def SESSION_KEY_def)
  let ?e = "encrypt_meta L master"
  obtain h1 where h1: "meta_map L master (\<lambda>j. j = k1) h1"
    "fst (?e k1 dn) = (fst dn)\<lparr>t_meta := map h1 (t_meta (fst dn))\<rparr>"
    using encrypt_meta_map [OF assms] by blast
  then have "distinct (map fst (t_meta (fst (?e k1 dn))))" using assms by (simp add: comp_def meta_mapD(1) [OF h1(1)])
  then obtain h2 where h2: "meta_map L master (\<lambda>j. j = k2) h2"
    "fst (?e k2 (?e k1 dn)) = (fst (?e k1 dn))\<lparr>t_meta := map h2 (t_meta (fst (?e k1 dn)))\<rparr>"
    using encrypt_meta_map by blast
  then have "distinct (map fst (t_meta (fst (?e k2 (?e k1 dn)))))"
    using assms by (simp add: h1(2) h2(2) comp_def meta_mapD(1) [OF h1(1)] meta_mapD(1) [OF h2(1)])
  then obtain h3 where h3: "meta_map L master (\<lambda>j. j = k3) h3"
    "fst (?e k3 (?e k2 (?e k1 dn))) = (fst (?e k2 (?e k1 dn)))\<lparr>t_meta := map h3 (t_meta (fst (?e k2 (?e k1 dn))))\<rparr>"
    using encrypt_meta_map by blast
  have "meta_map L master (\<lambda>k. (k = k1 \<or> k = k2) \<or> k = k3) (h3 \<circ> (h2 \<circ> h1))"
    using h1(1) h2(1) h3(1) diff by (intro meta_map_comp) auto
  moreover have "fst (fold (\<lambda>(k, label). ?e k) SECRET_META_KEYS dn)
      = (fst dn)\<lparr>t_meta := map (h3 \<circ> (h2 \<circ> h1)) (t_meta (fst dn))\<rparr>"
    using h1(2) h2(2) h3(2) by (simp add: SECRET_META_KEYS_def k1_def k2_def k3_def)
  ultimately show ?thesis unfolding keys by blast
qed

text \<open>The tables afterwards, each a pass over what it was.\<close>

lemma encrypt_existing_tables:
  assumes "keys_ok d" "rowids_ok d"
  obtains h n1 n2 n3 n4 where "meta_map L master (\<lambda>k. secret_meta_label k \<noteq> None) h"
    "fst (encrypt_existing L master (d, n)) = mark_encrypted
       (d\<lparr>t_meta := map h (t_meta d), t_room := fst (pass (encrypt_room_row L master) (t_room d) n1),
          t_message := fst (pass (encrypt_message_row L master) (t_message d) n2),
          t_edit := fst (pass (encrypt_edit_row L master) (t_edit d) n3),
          t_member := fst (pass (encrypt_member_row L master) (t_member d) n4)\<rparr>)"
proof -
  define dn where "dn = fold (\<lambda>(k, label). encrypt_meta L master k) SECRET_META_KEYS (d, n)"
  obtain h where h: "meta_map L master (\<lambda>k. secret_meta_label k \<noteq> None) h"
    "fst dn = d\<lparr>t_meta := map h (t_meta d)\<rparr>"
    using encrypt_metas [of "(d, n)" L master] assms(1) by (auto simp: dn_def keys_ok_def)
  have passes:
    "update_each rr_id (encrypt_room_row L master) (t_room d) (t_room d, k) = pass (encrypt_room_row L master) (t_room d) k"
    "walk_all mr_rowid (encrypt_message_row L master) (t_message d, k) = pass (encrypt_message_row L master) (t_message d) k"
    "update_each er_target (encrypt_edit_row L master) (t_edit d) (t_edit d, k) = pass (encrypt_edit_row L master) (t_edit d) k"
    "walk_all mb_rowid (encrypt_member_row L master) (t_member d, k) = pass (encrypt_member_row L master) (t_member d) k"
    for k
    using assms by (auto intro!: update_all_pass walk_all_pass simp: encrypt_row_keys keys_ok_def rowids_ok_def)
  show ?thesis
    by (rule that [OF h(1)])
      (simp add: encrypt_existing_def dn_def [symmetric, unfolded case_prod_unfold] case_prod_unfold Let_def
        h(2) passes)
qed

lemma old_sensitive_rows:
  assumes "cipher_ok L"
  shows "old_value L m (rr_name r) \<and> old_value L m (rr_last_preview r) \<Longrightarrow>
      plain_room L (Some m) (fst (encrypt_room_row L m r n)) = plain_room L (Some m) r
      \<and> value_ok L (Some m) (rr_name (fst (encrypt_room_row L m r n)))
      \<and> value_ok L (Some m) (rr_last_preview (fst (encrypt_room_row L m r n)))"
    "old_value L m (mr_body q) \<and> (\<forall>c. mr_ciphertext q = Some c \<longrightarrow> old_value L m c) \<Longrightarrow>
      plain_message L (Some m) (fst (encrypt_message_row L m q n)) = plain_message L (Some m) q
      \<and> value_ok L (Some m) (mr_body (fst (encrypt_message_row L m q n)))
      \<and> (\<forall>c. mr_ciphertext (fst (encrypt_message_row L m q n)) = Some c \<longrightarrow> value_ok L (Some m) c)"
    "old_value L m (er_body e) \<Longrightarrow> value_ok L (Some m) (er_body (fst (encrypt_edit_row L m e n)))
      \<and> plain L (Some m) (er_body (fst (encrypt_edit_row L m e n))) = plain L (Some m) (er_body e)"
    "old_value L m (mb_name b) \<Longrightarrow> value_ok L (Some m) (mb_name (fst (encrypt_member_row L m b n)))
      \<and> plain L (Some m) (mb_name (fst (encrypt_member_row L m b n))) = plain L (Some m) (mb_name b)"
  using seal_once_value [OF assms]
  by (auto simp: encrypt_rows plain_room_def plain_message_def split: option.splits)

abbreviation opened :: "db \<Rightarrow> string \<Rightarrow> nat \<Rightarrow> store" where
  "opened d m n \<equiv> \<lparr>s_db = d, s_key = Some m, s_draws = n\<rparr>"

lemma encrypt_existing_contents:
  assumes "cipher_ok L" "keys_ok d" "rowids_ok d" "all_sensitive (old_value L m) d"
    and d'_def: "d' = fst (encrypt_existing L m (d, n))"
  shows "view L (opened d' m k) = (view L (opened d m k))\<lparr>v_meta := (v_meta (view L (opened d m k)))(ENCRYPTED_FLAG \<mapsto> ''1'')\<rparr>"
    and "store_ok L (opened d' m k)"
proof -
  obtain h n1 n2 n3 n4 where h: "meta_map L m (\<lambda>k. secret_meta_label k \<noteq> None) h"
    and d': "d' = mark_encrypted
       (d\<lparr>t_meta := map h (t_meta d), t_room := fst (pass (encrypt_room_row L m) (t_room d) n1),
          t_message := fst (pass (encrypt_message_row L m) (t_message d) n2),
          t_edit := fst (pass (encrypt_edit_row L m) (t_edit d) n3),
          t_member := fst (pass (encrypt_member_row L m) (t_member d) n4)\<rparr>)"
    unfolding d'_def by (rule encrypt_existing_tables [OF assms(2,3)])
  note rows = old_sensitive_rows [OF assms(1), of m]
  have room: "old_value L m (rr_name r) \<and> old_value L m (rr_last_preview r)" if "r \<in> set (t_room d)" for r
    using assms(4) that by (auto simp: all_sensitive_def)
  have message: "old_value L m (mr_body r) \<and> (\<forall>c. mr_ciphertext r = Some c \<longrightarrow> old_value L m c)"
    if "r \<in> set (t_message d)" for r
    using assms(4) that by (auto simp: all_sensitive_def)
  have edit: "old_value L m (er_body r)" if "r \<in> set (t_edit d)" for r
    using assms(4) that by (auto simp: all_sensitive_def)
  have member: "old_value L m (mb_name r)" if "r \<in> set (t_member d)" for r
    using assms(4) that by (auto simp: all_sensitive_def)
  have meta: "value_ok L (Some m) (snd (h r)) \<and> plain L (Some m) (snd (h r)) = plain L (Some m) (snd r)"
    if r: "r \<in> set (t_meta d)" "secret_meta_label (fst r) \<noteq> None" for r
  proof -
    have "old_value L m (snd r)" using assms(4) r by (auto simp: all_sensitive_def)
    moreover obtain n where "snd (h r) = fst (seal_once L m (snd r) n)" using meta_mapD(3) [OF h r(2)] by blast
    ultimately show ?thesis using seal_once_value [OF assms(1)] by simp
  qed
  have meta_at: "map_option (plain_meta L (Some m) j) (map_option snd (row_at fst j (map h t)))
      = map_option (plain_meta L (Some m) j) (map_option snd (row_at fst j t))" if "set t \<subseteq> set (t_meta d)" for j t
    using that
  proof (induction t)
    case (Cons r t)
    have "plain_meta L (Some m) (fst r) (snd (h r)) = plain_meta L (Some m) (fst r) (snd r)"
      using meta [of r] meta_mapD(2) [OF h, of r] Cons.prems by (auto simp: plain_meta_def)
    with Cons show ?case by (auto simp: meta_mapD(1) [OF h])
  qed simp
  have "map_option (\<lambda>row. (plain_room L (Some m) row, rr_back_token row, rr_back_done row))
        (row_at rr_id i (fst (pass (encrypt_room_row L m) (t_room d) n1)))
      = map_option (\<lambda>row. (plain_room L (Some m) row, rr_back_token row, rr_back_done row)) (row_at rr_id i (t_room d))" for i
    by (rule row_at_pass) (use rows(1) room in \<open>auto simp: encrypt_row_keys\<close>, auto simp: encrypt_rows)
  moreover have "map_option (plain_message L (Some m)) (row_at mr_event_id e (fst (pass (encrypt_message_row L m) (t_message d) n2)))
      = map_option (plain_message L (Some m)) (row_at mr_event_id e (t_message d))" for e
    by (rule row_at_pass) (use rows(2) message in \<open>auto simp: encrypt_row_keys\<close>)
  moreover have "map_option (\<lambda>row. (er_ts row, plain L (Some m) (er_body row))) (row_at er_target t (fst (pass (encrypt_edit_row L m) (t_edit d) n3)))
      = map_option (\<lambda>row. (er_ts row, plain L (Some m) (er_body row))) (row_at er_target t (t_edit d))" for t
    by (rule row_at_pass) (use rows(3) edit in \<open>auto simp: encrypt_row_keys\<close>, auto simp: encrypt_rows)
  moreover have "map_option (\<lambda>row. plain L (Some m) (mb_name row)) (row_at mb_key u (fst (pass (encrypt_member_row L m) (t_member d) n4)))
      = map_option (\<lambda>row. plain L (Some m) (mb_name row)) (row_at mb_key u (t_member d))" for u
    by (rule row_at_pass) (use rows(4) member encrypt_row_keys(5) in \<open>auto\<close>)
  moreover have "meta_row j d' = (if j = ENCRYPTED_FLAG then Some ''1'' else map_option snd (row_at fst j (map h (t_meta d))))" for j
    unfolding d' mark_encrypted_def meta_row_put by (simp add: meta_row_def)
  ultimately show "view L (opened d' m k) = (view L (opened d m k))\<lparr>v_meta := (v_meta (view L (opened d m k)))(ENCRYPTED_FLAG \<mapsto> ''1'')\<rparr>"
    using meta_at [of "t_meta d"] flag_not_secret
    by (simp add: view_def fun_eq_iff plain_meta_public) (simp add: d' mark_encrypted_def meta_row_def)
  show "store_ok L (opened d' m k)"
    unfolding store_ok_def
  proof (intro conjI)
    have ids: "map rr_id (fst (pass (encrypt_room_row L m) (t_room d) n1)) = map rr_id (t_room d)"
      "map mr_event_id (fst (pass (encrypt_message_row L m) (t_message d) n2)) = map mr_event_id (t_message d)"
      "map mr_rowid (fst (pass (encrypt_message_row L m) (t_message d) n2)) = map mr_rowid (t_message d)"
      "map er_target (fst (pass (encrypt_edit_row L m) (t_edit d) n3)) = map er_target (t_edit d)"
      "map mb_rowid (fst (pass (encrypt_member_row L m) (t_member d) n4)) = map mb_rowid (t_member d)"
      "map mb_key (fst (pass (encrypt_member_row L m) (t_member d) n4)) = map mb_key (t_member d)"
      by (intro map_key_pass encrypt_row_keys)+
    have metas: "map fst (map h (t_meta d)) = map fst (t_meta d)" using meta_mapD(1) [OF h] by simp
    have "distinct (map fst (t_meta d'))"
    proof -
      have "distinct (map fst (map h (t_meta d)))" unfolding metas using assms(2) by (simp add: keys_ok_def)
      then have "distinct (map fst (upsert fst (ENCRYPTED_FLAG, ''1'') (\<lambda>r. (fst r, ''1'')) (map h (t_meta d))))"
        by (rule distinct_upsert [rotated]) simp
      then show ?thesis by (simp add: d' mark_encrypted_def put_meta_row_def)
    qed
    then show "keys_ok (s_db (opened d' m k))"
      using assms(2) ids by (simp add: keys_ok_def) (simp add: d' mark_encrypted_def)
    show "rowids_ok (s_db (opened d' m k))"
      using assms(3) ids(3,5) set_pass [of _ "encrypt_message_row L m" "t_message d" n2]
        set_pass [of _ "encrypt_member_row L m" "t_member d" n4] set_pass [of _ "encrypt_room_row L m" "t_room d" n1]
      by (simp add: rowids_ok_def d' mark_encrypted_def) (fastforce simp: encrypt_rows)
    have flag_only: "r = (ENCRYPTED_FLAG, ''1'') \<or> r \<in> h ` set (t_meta d) \<or> fst r = ENCRYPTED_FLAG" if "r \<in> set (t_meta d')" for r
      using that set_upsert [of r fst "(ENCRYPTED_FLAG, ''1'')" "\<lambda>r. (fst r, ''1'')" "map h (t_meta d)"]
      by (auto simp: d' mark_encrypted_def put_meta_row_def)
    have room': "value_ok L (Some m) (rr_name r) \<and> value_ok L (Some m) (rr_last_preview r)"
      if r: "r \<in> set (t_room d')" for r
      using r set_pass [of r "encrypt_room_row L m" "t_room d" n1] rows(1) [OF room]
      by (auto simp: d' mark_encrypted_def)
    have message': "value_ok L (Some m) (mr_body r) \<and> (\<forall>c. mr_ciphertext r = Some c \<longrightarrow> value_ok L (Some m) c)"
      if r: "r \<in> set (t_message d')" for r
      using r set_pass [of r "encrypt_message_row L m" "t_message d" n2] rows(2) [OF message]
      by (auto simp: d' mark_encrypted_def)
    have edit': "value_ok L (Some m) (er_body r)" if r: "r \<in> set (t_edit d')" for r
      using r set_pass [of r "encrypt_edit_row L m" "t_edit d" n3] rows(3) [OF edit]
      by (auto simp: d' mark_encrypted_def)
    have member': "value_ok L (Some m) (mb_name r)" if r: "r \<in> set (t_member d')" for r
      using r set_pass [of r "encrypt_member_row L m" "t_member d" n4] rows(4) [OF member]
      by (auto simp: d' mark_encrypted_def)
    show "all_sensitive (value_ok L (s_key (opened d' m k))) (s_db (opened d' m k))"
      unfolding all_sensitive_def
    proof (intro conjI ballI)
      fix r assume "r \<in> set (t_meta (s_db (opened d' m k)))"
      then have r: "r \<in> set (t_meta d')" by simp
      show "secret_meta_label (fst r) \<noteq> None \<longrightarrow> value_ok L (s_key (opened d' m k)) (snd r)"
        using flag_only [OF r] meta meta_mapD(1) [OF h] flag_not_secret by auto
    qed (simp_all add: room' message' edit' member')
    show "s_key (opened d' m k) \<noteq> None \<longrightarrow> meta_row ENCRYPTED_FLAG (s_db (opened d' m k)) = Some ''1''"
      by (simp add: d' mark_encrypted_def meta_row_put)
  qed
qed

lemma migrate_columns:
  "d_db (migrate d) = d_db d" "has_columns (migrate d)" "has_columns d \<Longrightarrow> migrate d = d"
  by (auto simp: migrate_def migrate_table_def ADDED_def has_columns_def add_column_def Let_def)

lemma migrate_default: "absent_default d \<Longrightarrow> absent_default (migrate d)"
  by (auto simp: migrate_def migrate_table_def ADDED_def absent_default_def add_column_def Let_def)

text \<open>
  C20: The first open of an unencrypted database with a key seals every sensitive value it holds,
  in one pass whatever the number of chunks, and changes nothing of what the tables stand for
  except to set the flag; opening it again with the key leaves the file exactly as it is, and
  opening it without the key is refused and leaves it untouched. The added columns are there
  afterwards in every case.
\<close>

theorem first_open_encrypts:
  assumes "cipher_ok L" "keys_ok (d_db d)" "rowids_ok (d_db d)" "all_sensitive (old_value L m) (d_db d)"
    and "meta_row ENCRYPTED_FLAG (d_db d) \<noteq> Some ''1''"
  shows "\<exists>s d'. open_store L path (Some m) n d = (Inr s, d') \<and> s_db s = d_db d' \<and> has_columns d'
    \<and> store_ok L s \<and> all_sensitive is_sealed (d_db d')
    \<and> view L s = (view L (opened (d_db d) m n))\<lparr>v_meta := (v_meta (view L (opened (d_db d) m n)))(ENCRYPTED_FLAG \<mapsto> ''1'')\<rparr>
    \<and> open_store L path (Some m) k d' = (Inr (opened (d_db d') m k), d')
    \<and> open_store L path None k d' = (Inl (no_key_error path), d')"
proof -
  obtain db' n' where enc: "encrypt_existing L m (d_db d, n) = (db', n')" by force
  let ?s = "opened db' m n'" and ?d = "(migrate d)\<lparr>d_db := db'\<rparr>"
  note c = encrypt_existing_contents [OF assms(1-4), of db' n n', unfolded enc fst_conv, OF refl]
  have open1: "open_store L path (Some m) n d = (Inr ?s, ?d)"
    using assms(5) by (simp add: open_store_def Let_def migrate_columns enc)
  have cols: "has_columns ?d" using migrate_columns(2) [of d] by (simp add: has_columns_def)
  have flag: "meta_row ENCRYPTED_FLAG db' = Some ''1''" using c(2) by (simp add: store_ok_def)
  have "all_sensitive is_sealed db'" using c(2) by (auto simp: store_ok_def all_sensitive_def value_ok_def)
  moreover have "view L ?s = (view L (opened (d_db d) m n))\<lparr>v_meta := (v_meta (view L (opened (d_db d) m n)))(ENCRYPTED_FLAG \<mapsto> ''1'')\<rparr>"
    using c(1) by (simp add: view_def)
  moreover have "open_store L path (Some m) k ?d = (Inr (opened (d_db ?d) m k), ?d)"
    "open_store L path None k ?d = (Inl (no_key_error path), ?d)"
    using flag by (simp_all add: open_store_def Let_def migrate_columns(3) [OF cols])
  ultimately show ?thesis using open1 cols c(2) by (intro exI conjI) simp_all
qed

text \<open>A database from before the key and before the added columns.\<close>

definition demo_disk :: disk where
  "demo_disk = \<lparr>d_db = empty_db\<lparr>t_meta := [(''session'', ''tok''), (''sync_token'', ''s1'')],
       t_message := [\<lparr>mr_rowid = 1, mr_event_id = ''e1'', mr_room = ''r'', mr_sender = ''a'', mr_ts = 5,
         mr_body = ''hello'', mr_encrypted = False, mr_decrypted = True, mr_mine = False,
         mr_session_id = None, mr_ciphertext = None\<rparr>]\<rparr>,
     d_columns = (\<lambda>_. [''body''])\<rparr>"

theorem first_open_encrypts_witness:
  "\<exists>s d'. open_store demo_cipher ''db'' (Some ''k'') 0 demo_disk = (Inr s, d')
     \<and> all_sensitive is_sealed (d_db d') \<and> open_store demo_cipher ''db'' None 0 d' = (Inl (no_key_error ''db''), d')"
proof -
  have "ascii ''tok''" "ascii ''hello''" by code_simp+
  then have "valid_utf8 ''tok''" "valid_utf8 ''hello''" by (simp_all add: valid_utf8_ascii)
  moreover have "\<not> is_sealed ''tok''" "\<not> is_sealed ''hello''" by code_simp+
  moreover have "secret_meta_label ''sync_token'' = None" by code_simp
  ultimately have "all_sensitive (old_value demo_cipher ''k'') (d_db demo_disk)"
    by (simp add: demo_disk_def empty_db_def all_sensitive_def old_value_def)
  moreover have "keys_ok (d_db demo_disk)" "rowids_ok (d_db demo_disk)"
    "meta_row ENCRYPTED_FLAG (d_db demo_disk) \<noteq> Some ''1''"
    by (simp_all add: demo_disk_def empty_db_def keys_ok_def rowids_ok_def meta_row_def ENCRYPTED_FLAG_def)
  ultimately show ?thesis
    using first_open_encrypts [of demo_cipher demo_disk "''k''" "''db''" 0 0] by fastforce
qed

end
