(* ===== verification/Http_Util.thy ===== *)
theory Http_Util
  imports Rust_Text
begin

text \<open>
  The helper functions of \<open>api.rs\<close> that need no network: \<open>bearer\<close>, \<open>normalize_base\<close>,
  \<open>parse_http_date_ms\<close>, \<open>truncate\<close> and \<open>encode_segment\<close>, with what each guarantees.
\<close>

section \<open>The code\<close>

definition bearer :: "string \<Rightarrow> string" where
  "bearer token = ''Bearer '' @ token"

definition has_scheme :: "string \<Rightarrow> bool" where
  "has_scheme s \<longleftrightarrow>
     starts_with (to_ascii_lowercase s) ''https://'' \<or> starts_with (to_ascii_lowercase s) ''http://''"

definition normalize_base :: "string \<Rightarrow> string result" where
  "normalize_base input =
     (let trimmed = trim input in
      if trimmed = [] then Inl (Msg ''empty homeserver'')
      else
        (let base = (if has_scheme trimmed then trimmed else ''https://'' @ trimmed);
             base = trim_end_matches (CHR ''/'') base;
             authority = (case split_once ''://'' base of Some (_, rest) \<Rightarrow> rest | None \<Rightarrow> [])
         in if authority = [] then Inl (Msg (''invalid homeserver: '' @ input)) else Inr base))"

text \<open>Cut after \<open>limit\<close> characters (the code calls it \<open>max\<close>), never inside one.\<close>

definition truncate :: "string \<Rightarrow> nat \<Rightarrow> string" where
  "truncate s limit =
     (if length (chars s) \<le> limit then s else utf8 (take limit (chars s)) @ ''...'')"

definition unreserved :: "char \<Rightarrow> bool" where
  "unreserved b \<longleftrightarrow> 65 \<le> byte_val b \<and> byte_val b \<le> 90 \<or> 97 \<le> byte_val b \<and> byte_val b \<le> 122
     \<or> 48 \<le> byte_val b \<and> byte_val b \<le> 57
     \<or> b = CHR ''-'' \<or> b = CHR ''.'' \<or> b = CHR ''_'' \<or> b = CHR ''~''"

definition HEX :: string where
  "HEX = ''0123456789ABCDEF''"

definition encode_byte :: "char \<Rightarrow> string" where
  "encode_byte b =
     (if unreserved b then [b]
      else [CHR ''%'', HEX ! (byte_val b div 16), HEX ! (byte_val b mod 16)])"

definition encode_segment :: "string \<Rightarrow> string" where
  "encode_segment s = concat (map encode_byte s)"

text \<open>
  \<open>i64\<close> arithmetic of a release build: results are reduced to 64 bit two's complement, and
  division truncates towards zero.
\<close>

definition i64 :: "int \<Rightarrow> int" where
  "i64 x = signed_take_bit 63 x"

definition div64 :: "int \<Rightarrow> int \<Rightarrow> int" where
  "div64 a b = i64 (sgn a * sgn b * (\<bar>a\<bar> div \<bar>b\<bar>))"

definition rem64 :: "int \<Rightarrow> int \<Rightarrow> int" where
  "rem64 a b = sgn a * (\<bar>a\<bar> mod \<bar>b\<bar>)"

definition parse_i64 :: "string \<Rightarrow> int option" where
  "parse_i64 = parse_int (- (2 ^ 63)) (2 ^ 63 - 1)"

definition MONTHS :: "string list" where
  "MONTHS = [''Jan'', ''Feb'', ''Mar'', ''Apr'', ''May'', ''Jun'', ''Jul'', ''Aug'', ''Sep'', ''Oct'',
             ''Nov'', ''Dec'']"

fun index_of :: "'a \<Rightarrow> 'a list \<Rightarrow> nat option" where
  "index_of x [] = None"
| "index_of x (y # ys) = (if x = y then Some 0 else map_option Suc (index_of x ys))"

text \<open>The arithmetic after the fields have been read: Hinnant's civil-days algorithm.\<close>

definition civil_days :: "int \<Rightarrow> int \<Rightarrow> int \<Rightarrow> int" where
  "civil_days year month day =
     (let y = (if month \<le> 2 then i64 (year - 1) else year);
          era = div64 (if y \<ge> 0 then y else i64 (y - 399)) 400;
          yoe = i64 (y - i64 (era * 400));
          mp = rem64 (i64 (month + 9)) 12;
          doy = i64 (i64 (div64 (i64 (i64 (153 * mp) + 2)) 5 + day) - 1);
          doe = i64 (i64 (i64 (i64 (yoe * 365) + div64 yoe 4) - div64 yoe 100) + doy)
      in i64 (i64 (i64 (era * 146097) + doe) - 719468))"

definition parse_http_date_ms :: "string \<Rightarrow> int option" where
  "parse_http_date_ms s =
     (case split_once '', '' s of
        None \<Rightarrow> None
      | Some (_, rest) \<Rightarrow>
       (case split_on (\<lambda>c. c = CHR '' '') rest of
          d # mn # yr # time # _ \<Rightarrow>
           (case (parse_i64 d, parse_i64 yr, index_of mn MONTHS) of
              (Some day, Some year, Some m) \<Rightarrow>
               (case split_on (\<lambda>c. c = CHR '':'') time of
                  h # mi # se # _ \<Rightarrow>
                   (case (parse_i64 h, parse_i64 mi, parse_i64 se) of
                      (Some hour, Some minute, Some sec) \<Rightarrow>
                        (let days = civil_days year (int m + 1) day in
                         Some (i64 (i64 (i64 (i64 (i64 (days * 86400) + i64 (hour * 3600))
                                            + i64 (minute * 60)) + sec) * 1000)))
                    | _ \<Rightarrow> None)
                | _ \<Rightarrow> None)
            | _ \<Rightarrow> None)
        | _ \<Rightarrow> None))"

section \<open>Percent-encoding\<close>

text \<open>The reference decoder of a path segment (RFC 3986).\<close>

definition hex_digit :: "char \<Rightarrow> nat option" where
  "hex_digit c = (if c \<in> set HEX then index_of c HEX else None)"

fun percent_decode :: "string \<Rightarrow> string option" where
  "percent_decode [] = Some []"
| "percent_decode (c # s) =
     (if c = CHR ''%'' then
        (case s of
           h # l # r \<Rightarrow>
            (case (hex_digit h, hex_digit l) of
               (Some a, Some b) \<Rightarrow> map_option (\<lambda>t. byte (16 * a + b) # t) (percent_decode r)
             | _ \<Rightarrow> None)
         | _ \<Rightarrow> None)
      else map_option (\<lambda>t. c # t) (percent_decode s))"

lemma length_HEX [simp]: "length HEX = 16"
  by (simp add: HEX_def)

lemma hex_digit_HEX: "d < 16 \<Longrightarrow> hex_digit (HEX ! d) = Some d"
proof -
  have "\<forall>d \<in> set [0..<16]. hex_digit (HEX ! d) = Some d"
    by (simp add: upt_rec hex_digit_def HEX_def)
  then show "d < 16 \<Longrightarrow> hex_digit (HEX ! d) = Some d" by simp
qed

lemma HEX_unreserved: "d < 16 \<Longrightarrow> unreserved (HEX ! d)"
proof -
  have "list_all unreserved HEX" by (simp add: HEX_def unreserved_def)
  then show "d < 16 \<Longrightarrow> unreserved (HEX ! d)" by (simp add: list_all_length)
qed

lemma percent_decode_encode_byte: "percent_decode (encode_byte b @ s) = map_option (\<lambda>t. b # t) (percent_decode s)"
proof (cases "unreserved b")
  case True
  then have "b \<noteq> CHR ''%''" by (auto simp: unreserved_def)
  with True show ?thesis by (simp add: encode_byte_def)
next
  case False
  have "byte_val b div 16 < (16 :: nat)" using nat_of_char_less_256 [of b] by linarith
  then show ?thesis using False
    by (simp add: encode_byte_def hex_digit_HEX)
qed

lemma percent_decode_encode: "percent_decode (encode_segment s) = Some s"
  by (induction s) (simp_all add: encode_segment_def percent_decode_encode_byte)

lemma encode_segment_chars: "c \<in> set (encode_segment s) \<Longrightarrow> unreserved c \<or> c = CHR ''%''"
proof -
  have "byte_val b div 16 < (16 :: nat)" for b :: char using nat_of_char_less_256 [of b] by linarith
  then show "c \<in> set (encode_segment s) \<Longrightarrow> unreserved c \<or> c = CHR ''%''"
    by (auto simp: encode_segment_def encode_byte_def HEX_unreserved split: if_splits)
qed

interpretation segment: codec encode_segment percent_decode "\<lambda>_. True"
  by unfold_locales (rule percent_decode_encode)

section \<open>Homeserver addresses\<close>

definition lower_char :: "char \<Rightarrow> char" where
  "lower_char c = (if 65 \<le> byte_val c \<and> byte_val c \<le> 90 then byte (byte_val c + 32) else c)"

lemma to_ascii_lowercase_map: "to_ascii_lowercase = map lower_char"
  by (simp add: to_ascii_lowercase_def lower_char_def [abs_def])

lemma lower_char_slash: "lower_char c = CHR ''/'' \<longleftrightarrow> c = CHR ''/''"
proof (cases "65 \<le> byte_val c \<and> byte_val c \<le> (90 :: nat)")
  case True
  then have val: "byte_val (lower_char c) = byte_val c + (32 :: nat)"
    by (simp only: lower_char_def if_P) (intro byte_val_byte, linarith)
  have "lower_char c \<noteq> CHR ''/''"
  proof
    assume "lower_char c = CHR ''/''"
    then have "byte_val c + 32 = (47 :: nat)" using val by simp
    with True show False by linarith
  qed
  moreover have "c \<noteq> CHR ''/''" using True by auto
  ultimately show ?thesis by simp
next
  case False
  then show ?thesis by (simp only: lower_char_def if_False)
qed

lemma scheme_survives:
  assumes p: "prefix (sch @ ''//'') (to_ascii_lowercase (base @ slashes))"
    and sch: "CHR ''/'' \<notin> set sch"
    and last: "base \<noteq> [] \<Longrightarrow> last base \<noteq> CHR ''/''" and slash: "CHR ''/'' \<in> set base"
  shows "prefix (sch @ ''//'') (to_ascii_lowercase base)"
proof -
  let ?l = "to_ascii_lowercase base"
  have "prefix ?l (to_ascii_lowercase (base @ slashes))" by (simp add: to_ascii_lowercase_map)
  with p consider "prefix (sch @ ''//'') ?l" | "prefix ?l (sch @ ''//'')"
    using prefix_same_cases by blast
  then show ?thesis
  proof cases
    case 2
    have in_l: "CHR ''/'' \<in> set ?l"
      using slash by (metis imageI lower_char_slash set_map to_ascii_lowercase_map)
    have "last ?l \<noteq> CHR ''/''"
      using slash last by (cases "base = []") (simp_all add: to_ascii_lowercase_map last_map lower_char_slash)
    moreover have "prefix ?l sch \<or> ?l = sch @ ''/'' \<or> ?l = sch @ ''//''"
      using 2 by (auto simp: prefix_append prefix_Cons)
    moreover have "\<not> prefix ?l sch"
      using in_l sch set_mono_prefix by blast
    ultimately show ?thesis by auto
  qed
qed

lemma trim_end_matches_decomp: "\<exists>n. s = trim_end_matches c s @ replicate n c"
proof
  have "rev s = replicate (length (takeWhile (\<lambda>d. d = c) (rev s))) c @ dropWhile (\<lambda>d. d = c) (rev s)"
    by (induction s rule: rev_induct) auto
  then show "s = trim_end_matches c s @ replicate (length (takeWhile (\<lambda>d. d = c) (rev s))) c"
    unfolding trim_end_matches_def by (metis rev_append rev_replicate rev_rev_ident)
qed

text \<open>What the normalised address looks like, and that normalising again changes nothing.\<close>

definition good_base :: "string \<Rightarrow> bool" where
  "good_base b \<longleftrightarrow> has_scheme b \<and> b \<noteq> [] \<and> last b \<noteq> CHR ''/''
     \<and> (\<exists>sch host. split_once ''://'' b = Some (sch, host) \<and> host \<noteq> [])"

lemma normalize_base_good:
  assumes "normalize_base s = Inr b"
  shows "good_base b"
proof -
  define base where "base = (if has_scheme (trim s) then trim s else ''https://'' @ trim s)"
  from assms have b: "b = trim_end_matches (CHR ''/'') base"
    and auth: "\<exists>sch host. split_once ''://'' b = Some (sch, host) \<and> host \<noteq> []"
    by (auto simp: normalize_base_def Let_def base_def split: if_splits option.splits)
  obtain sch host where "split_once ''://'' b = Some (sch, host)" using auth by blast
  then have "b = sch @ ''://'' @ host" by (rule split_once_Some)
  then have slash: "CHR ''/'' \<in> set b" and ne: "b \<noteq> []" by simp_all
  have last: "last b \<noteq> CHR ''/''"
    unfolding b by (rule trim_end_matches_last) (use ne b in simp)
  obtain n where n: "base = b @ replicate n (CHR ''/'')"
    using trim_end_matches_decomp b by metis
  have "has_scheme base"
    by (simp add: base_def has_scheme_def to_ascii_lowercase_def)
  then have "has_scheme b"
    using scheme_survives [of "''https:''" b] scheme_survives [of "''http:''" b] slash last
    by (auto simp: has_scheme_def n)
  with auth ne last show ?thesis by (simp add: good_base_def)
qed

lemma normalize_base_fixed:
  assumes "good_base b" "trim b = b"
  shows "normalize_base b = Inr b"
  using assms trim_end_matches_id [of b "CHR ''/''"]
  by (auto simp: normalize_base_def good_base_def Let_def)

section \<open>HTTP dates\<close>

text \<open>
  The reference calendar: the number of days from 1970-01-01, counted year by year and month by
  month.
\<close>

definition leap_year :: "int \<Rightarrow> bool" where
  "leap_year y \<longleftrightarrow> 4 dvd y \<and> (\<not> 100 dvd y \<or> 400 dvd y)"

definition year_length :: "int \<Rightarrow> int" where
  "year_length y = (if leap_year y then 366 else 365)"

definition month_length :: "int \<Rightarrow> nat \<Rightarrow> int" where
  "month_length y m =
     [31, if leap_year y then 29 else 28, 31, 30, 31, 30, 31, 31, 30, 31, 30, 31] ! m"

definition epoch_days :: "int \<Rightarrow> nat \<Rightarrow> int \<Rightarrow> int" where
  "epoch_days y m d = (\<Sum>k \<in> {1970..<y}. year_length k) + (\<Sum>j < m. month_length y j) + d - 1"

lemma i64_small: "- (2 ^ 63) \<le> x \<Longrightarrow> x < 2 ^ 63 \<Longrightarrow> i64 x = x"
  by (simp add: i64_def signed_take_bit_int_eq_self)

lemma div_step:
  assumes "0 < k"
  shows "(y :: int) div k = (y - 1) div k + (if k dvd y then 1 else 0)"
proof (cases "k dvd y")
  case True
  then obtain q where y: "y = k * q" by (elim dvdE)
  have "(y - 1) div k = q - 1"
    by (rule int_div_pos_eq [of _ _ _ "k - 1"]) (use assms in \<open>simp_all add: y algebra_simps\<close>)
  with True assms show ?thesis by (simp add: y)
next
  case False
  then have "y mod k \<noteq> 0" by (simp add: dvd_eq_mod_eq_0)
  moreover have "0 \<le> y mod k" "y mod k < k" using assms by simp_all
  ultimately have r: "0 \<le> y mod k - 1" "y mod k - 1 < k" by linarith+
  have "y - 1 = k * (y div k) + (y mod k - 1)" by (simp add: algebra_simps)
  then have "(y - 1) div k = y div k" using r by (rule int_div_pos_eq)
  with False show ?thesis by simp
qed

lemma leap_arith:
  "(a :: int) = a' + (if P then 1 else 0) \<Longrightarrow> b = b' + (if Q then 1 else 0)
   \<Longrightarrow> c = c' + (if R then 1 else 0) \<Longrightarrow> (R \<Longrightarrow> Q) \<Longrightarrow> (Q \<Longrightarrow> P)
   \<Longrightarrow> a - b + c = a' - b' + c' + (if P \<and> (\<not> Q \<or> R) then 1 else 0)"
  by (cases P; cases Q; cases R) simp_all

lemma leap_step:
  "(y :: int) div 4 - y div 100 + y div 400
   = (y - 1) div 4 - (y - 1) div 100 + (y - 1) div 400 + (if leap_year y then 1 else 0)"
  unfolding leap_year_def
proof (rule leap_arith [OF div_step div_step div_step])
  show "400 dvd y \<Longrightarrow> 100 dvd y" by (rule dvd_trans [of 100 400]) simp
  show "100 dvd y \<Longrightarrow> 4 dvd y" by (rule dvd_trans [of 4 100]) simp
qed simp_all

lemma sum_year_length:
  assumes "1970 \<le> y"
  shows "(\<Sum>k \<in> {1970..<y}. year_length k)
    = 365 * (y - 1970) + ((y - 1) div 4 - (y - 1) div 100 + (y - 1) div 400) - 477"
  using assms
proof (induction y rule: int_ge_induct)
  case (step y)
  define A where "A = y div 4 - y div 100 + y div 400"
  define B where "B = (y - 1) div 4 - (y - 1) div 100 + (y - 1) div 400"
  have "A = B + (if leap_year y then 1 else 0)"
    unfolding A_def B_def by (rule leap_step)
  moreover have "(\<Sum>k \<in> {1970..<y + 1}. year_length k) = year_length y + (\<Sum>k \<in> {1970..<y}. year_length k)"
  proof -
    have "{1970..<y + 1} = insert y {1970..<y}" using step by auto
    then show ?thesis by simp
  qed
  moreover have "(\<Sum>k \<in> {1970..<y}. year_length k) = 365 * (y - 1970) + B - 477"
    unfolding B_def by (rule step.IH)
  moreover have "year_length y = 365 + (if leap_year y then 1 else 0)"
    by (simp add: year_length_def)
  ultimately have "(\<Sum>k \<in> {1970..<y + 1}. year_length k) = 365 * (y + 1 - 1970) + A - 477"
    by (cases "leap_year y") simp_all
  then show ?case by (simp add: A_def)
qed simp

text \<open>
  In the range of a date with a four-digit year nothing wraps, and the division and the
  remainder are the mathematical ones.
\<close>

lemma div64_pos: "0 \<le> a \<Longrightarrow> a < 2 ^ 63 \<Longrightarrow> 0 < b \<Longrightarrow> div64 a b = a div b"
proof -
  assume a: "0 \<le> a" "a < 2 ^ 63" and b: "0 < b"
  have "a div b \<le> a div 1" using a b by (intro zdiv_mono2) simp_all
  then have "a div b \<le> a" by simp
  moreover have "0 \<le> a div b" using a b by (simp add: pos_imp_zdiv_nonneg_iff)
  ultimately have "i64 (a div b) = a div b"
    using a b by - (rule i64_small; linarith)
  then show ?thesis using a b by (cases "a = 0") (simp_all add: div64_def)
qed

lemma rem64_pos: "0 \<le> a \<Longrightarrow> 0 < b \<Longrightarrow> rem64 a b = a mod b"
  by (cases "a = 0") (simp_all add: rem64_def)

lemma era_days:
  "(Y :: int) div 400 * 146097 + (Y mod 400 * 365 + Y mod 400 div 4 - Y mod 400 div 100)
   = 365 * Y + (Y div 4 - Y div 100 + Y div 400)"
proof -
  define q r where "q = Y div 400" and "r = Y mod 400"
  have Y: "Y = r + 400 * q" by (simp add: q_def r_def)
  have "Y div 4 = r div 4 + 100 * q" "Y div 100 = r div 100 + 4 * q"
    using div_mult_self2 [of 4 r "100 * q"] div_mult_self2 [of 100 r "4 * q"]
    by (simp_all add: Y)
  then show ?thesis by (simp flip: q_def r_def) (simp add: Y)
qed

definition shifted_year :: "int \<Rightarrow> int \<Rightarrow> int" where
  "shifted_year year month = (if month \<le> 2 then year - 1 else year)"

definition day_of_year :: "int \<Rightarrow> int \<Rightarrow> int" where
  "day_of_year month day = (153 * ((month + 9) mod 12) + 2) div 5 + day - 1"

lemma civil_days_nowrap:
  assumes "1970 \<le> year" "year \<le> 9999" "1 \<le> month" "month \<le> 12" "1 \<le> day" "day \<le> 31"
  shows "civil_days year month day =
    365 * shifted_year year month
      + (shifted_year year month div 4 - shifted_year year month div 100 + shifted_year year month div 400)
      + day_of_year month day - 719468"
proof -
  define Y mp where "Y = shifted_year year month" and "mp = (month + 9) mod 12"
  have Y: "1969 \<le> Y" "Y \<le> 9999" using assms by (auto simp: Y_def shifted_year_def)
  have mp: "0 \<le> mp" "mp \<le> 11"
    using pos_mod_bound [of 12 "month + 9"] by (simp_all add: mp_def)
  define q r where "q = Y div 400" and "r = Y mod 400"
  have q: "0 \<le> q" "q \<le> 24"
    using Y zdiv_mono1 [of Y 9999 400] by (simp_all add: q_def pos_imp_zdiv_nonneg_iff)
  have r: "0 \<le> r" "r \<le> 399" using pos_mod_bound [of 400 Y] by (simp_all add: r_def)
  have Yqr: "Y - q * 400 = r" by (simp add: q_def r_def minus_div_mult_eq_mod)
  define u v w where "u = r div 4" and "v = r div 100" and "w = (153 * mp + 2) div 5"
  have u: "0 \<le> u" "u \<le> 99" using r zdiv_mono1 [of r 399 4] by (simp_all add: u_def pos_imp_zdiv_nonneg_iff)
  have v: "0 \<le> v" "v \<le> 3" using r zdiv_mono1 [of r 399 100] by (simp_all add: v_def pos_imp_zdiv_nonneg_iff)
  have w: "0 \<le> w" "w \<le> 337"
    using mp zdiv_mono1 [of "153 * mp + 2" 1685 5] by (simp_all add: w_def pos_imp_zdiv_nonneg_iff)
  have small: "i64 x = x" if "- 1000000000 \<le> x" "x \<le> 1000000000" for x
    by (rule i64_small) (use that in simp_all)
  have Yi: "(if month \<le> 2 then i64 (year - 1) else year) = Y"
    using assms by (simp add: Y_def shifted_year_def small)
  have mpi: "rem64 (i64 (month + 9)) 12 = mp"
    using assms by (simp add: small rem64_pos mp_def)
  have divs: "div64 Y 400 = q" "div64 r 4 = u" "div64 r 100 = v" "div64 (153 * mp + 2) 5 = w"
    using Y r mp by (simp_all add: div64_pos q_def u_def v_def w_def)
  have "civil_days year month day = q * 146097 + (r * 365 + u - v + (w + day - 1)) - 719468"
    unfolding civil_days_def Let_def Yi mpi
    using Y mp q r u v w assms(5,6)
    by (simp add: small divs Yqr)
  moreover have "q * 146097 + (r * 365 + u - v) = 365 * Y + (Y div 4 - Y div 100 + Y div 400)"
    unfolding q_def u_def v_def r_def by (rule era_days)
  ultimately show ?thesis
    by (simp add: day_of_year_def flip: Y_def mp_def w_def)
qed

text \<open>The algorithm and the calendar agree, month by month.\<close>

lemma month_prefix_sums:
  "month_length y 0 = 31" "month_length y (Suc 0) = (if leap_year y then 29 else 28)"
  "m \<in> {2..<12} \<Longrightarrow> month_length y m = [31, 30, 31, 30, 31, 31, 30, 31, 30, 31] ! (m - 2) + (0 :: int)"
proof -
  have tail: "(a # b # xs) ! m = xs ! (m - 2)" if "2 \<le> m" for a b :: int and xs
    using that by (cases m; cases "m - 1") (simp_all add: nth_Cons')
  show "month_length y 0 = 31" "month_length y (Suc 0) = (if leap_year y then 29 else 28)"
    by (simp_all add: month_length_def)
  show "m \<in> {2..<12} \<Longrightarrow> month_length y m = [31, 30, 31, 30, 31, 31, 30, 31, 30, 31] ! (m - 2) + 0"
    unfolding month_length_def by (subst tail) simp_all
qed

lemma days_before_month:
  assumes "m < 12"
  shows "(\<Sum>j < m. month_length y j) = day_of_year (int m + 1) 1
    + (if m < 2 then - 306 else 59 + (if leap_year y then 1 else 0))"
proof -
  have cases: "m = 0 \<or> m = 1 \<or> m = 2 \<or> m = 3 \<or> m = 4 \<or> m = 5 \<or> m = 6 \<or> m = 7 \<or> m = 8 \<or> m = 9
      \<or> m = 10 \<or> m = 11"
    using assms by arith
  have sums: "(\<Sum>j < 0. month_length y j) = 0"
    "(\<Sum>j < 1. month_length y j) = 31"
    by (simp_all add: month_prefix_sums)
  define ms :: "int list" where "ms = [31, 30, 31, 30, 31, 31, 30, 31, 30, 31]"
  have len: "length ms = 10" by (simp add: ms_def)
  have rest: "(\<Sum>j < 2 + k. month_length y j)
      = 59 + (if leap_year y then 1 else 0) + sum_list (take k ms)"
    if "k < 10" for k
    using that
  proof (induction k)
    case 0
    have "{..<2} = {0, Suc 0}" by auto
    then show ?case by (simp add: month_prefix_sums)
  next
    case (Suc k)
    have "(\<Sum>j < 2 + Suc k. month_length y j) = (\<Sum>j < 2 + k. month_length y j) + month_length y (2 + k)"
      by simp
    moreover have "month_length y (2 + k) = ms ! k"
      using Suc.prems by (simp add: month_prefix_sums ms_def)
    moreover have "sum_list (take (Suc k) ms) = sum_list (take k ms) + ms ! k"
      using Suc.prems by (simp add: take_Suc_conv_app_nth len)
    ultimately show ?case using Suc by simp
  qed
  from cases show ?thesis
    using rest [of 0] rest [of 1] rest [of 2] rest [of 3] rest [of 4] rest [of 5] rest [of 6]
      rest [of 7] rest [of 8] rest [of 9]
    by (elim disjE) (simp_all add: sums month_prefix_sums(1) day_of_year_def ms_def)
qed

lemma civil_days_epoch:
  assumes y: "1970 \<le> y" "y \<le> 9999" and m: "m < 12" and d: "1 \<le> d" "d \<le> 31"
  shows "civil_days y (int m + 1) d = epoch_days y m d"
proof -
  define L where "L z = z div 4 - z div 100 + z div 400" for z :: int
  have leap: "L y = L (y - 1) + (if leap_year y then 1 else 0)" unfolding L_def by (rule leap_step)
  have doy: "day_of_year (int m + 1) d = day_of_year (int m + 1) 1 + d - 1"
    by (simp add: day_of_year_def)
  have civil: "civil_days y (int m + 1) d =
      365 * shifted_year y (int m + 1) + L (shifted_year y (int m + 1)) + day_of_year (int m + 1) d - 719468"
    unfolding L_def by (rule civil_days_nowrap) (use assms in simp_all)
  have epoch: "epoch_days y m d = 365 * (y - 1970) + L (y - 1) - 477 + (\<Sum>j < m. month_length y j) + d - 1"
    unfolding epoch_days_def sum_year_length [OF y(1)] L_def ..
  show ?thesis
    using leap by (cases "m < 2"; cases "leap_year y")
      (simp_all add: civil epoch doy days_before_month [OF m] shifted_year_def)
qed

text \<open>A date in the fixed format of RFC 9110, and what the parser makes of it.\<close>

definition two_digits :: "nat \<Rightarrow> string" where
  "two_digits n = [digit_char (n div 10), digit_char (n mod 10)]"

definition imf_fixdate :: "string \<Rightarrow> nat \<Rightarrow> nat \<Rightarrow> nat \<Rightarrow> nat \<Rightarrow> nat \<Rightarrow> nat \<Rightarrow> string" where
  "imf_fixdate wd d m y h mi s =
     wd @ '', '' @ two_digits d @ '' '' @ MONTHS ! m @ '' '' @ show_nat y @ '' ''
       @ (two_digits h @ '':'' @ two_digits mi @ '':'' @ two_digits s) @ '' '' @ ''GMT''"

lemma split_on_sep:
  "(\<And>c. c \<in> set a \<Longrightarrow> \<not> P c) \<Longrightarrow> P x \<Longrightarrow> split_on P (a @ x # b) = a # split_on P b"
  by (induction a) auto

lemma split_once_first:
  "hd p \<notin> set a \<Longrightarrow> p \<noteq> [] \<Longrightarrow> split_once p (a @ p @ b) = Some (a, b)"
proof (induction a)
  case Nil
  then show ?case by (cases p) (auto simp: prefix_def)
next
  case (Cons c a)
  then have "\<not> prefix p (c # a @ p @ b)" by (cases p) auto
  with Cons show ?case by simp
qed

lemma two_digits_set: "n < 100 \<Longrightarrow> c \<in> set (two_digits n) \<Longrightarrow> 48 \<le> byte_val c \<and> byte_val c \<le> (57 :: nat)"
proof -
  assume n: "n < 100" and c: "c \<in> set (two_digits n)"
  have "d < 10 \<Longrightarrow> 48 \<le> byte_val (digit_char d) \<and> byte_val (digit_char d) \<le> (57 :: nat)" for d
    by (simp add: digit_char_def)
  moreover have "n div 10 < 10" "n mod 10 < 10" using n by linarith+
  ultimately show ?thesis using c by (auto simp: two_digits_def)
qed

lemma parse_i64_digits:
  assumes "parse_digits 0 s = Some n" "s \<noteq> []" "int n < 2 ^ 63"
    and "\<And>c. c \<in> set s \<Longrightarrow> 48 \<le> byte_val c"
  shows "parse_i64 s = Some (int n)"
proof -
  obtain c t where s: "s = c # t" using assms(2) by (cases s) auto
  then have "48 \<le> (byte_val c :: nat)" using assms(4) by simp
  then have "c \<noteq> CHR ''-''" "c \<noteq> CHR ''+''" by auto
  with assms s show ?thesis by (auto simp: parse_i64_def parse_int_def)
qed

lemma parse_two_digits: "n < 100 \<Longrightarrow> parse_i64 (two_digits n) = Some (int n)"
proof (rule parse_i64_digits)
  assume n: "n < 100"
  have "n div 10 < 10" "n mod 10 < 10" using n by linarith+
  then show "parse_digits 0 (two_digits n) = Some n" by (simp add: two_digits_def)
  show "two_digits n \<noteq> []" by (simp add: two_digits_def)
  show "int n < 2 ^ 63" using n by simp
  show "c \<in> set (two_digits n) \<Longrightarrow> 48 \<le> byte_val c" for c using two_digits_set [OF n] by blast
qed

lemma parse_year: "y < 10000 \<Longrightarrow> parse_i64 (show_nat y) = Some (int y)"
  by (rule parse_i64_digits) (use show_nat_digits in \<open>auto simp: parse_show_nat\<close>)

lemma MONTHS_facts:
  "m < 12 \<Longrightarrow> index_of (MONTHS ! m) MONTHS = Some m \<and> CHR '' '' \<notin> set (MONTHS ! m)"
proof -
  have "\<forall>m \<in> set [0..<12]. index_of (MONTHS ! m) MONTHS = Some m \<and> CHR '' '' \<notin> set (MONTHS ! m)"
    by (simp add: upt_rec MONTHS_def)
  then show "m < 12 \<Longrightarrow> index_of (MONTHS ! m) MONTHS = Some m \<and> CHR '' '' \<notin> set (MONTHS ! m)" by simp
qed

lemma digits_no_sep:
  assumes "\<And>c. c \<in> set s \<Longrightarrow> 48 \<le> byte_val c \<and> byte_val c \<le> (57 :: nat)"
  shows "CHR '' '' \<notin> set s \<and> CHR '':'' \<notin> set s"
  using assms [of "CHR '' ''"] assms [of "CHR '':''"] by auto

lemmas fixdate_parts = split_on_sep split_on_none parse_two_digits parse_year MONTHS_facts

lemma parse_fixdate:
  assumes "CHR '','' \<notin> set wd" and "d < 100" "m < 12" "y < 10000" "h < 100" "mi < 100" "s < 100"
  shows "parse_http_date_ms (imf_fixdate wd d m y h mi s) =
    Some (i64 (i64 (i64 (i64 (i64 (civil_days (int y) (int m + 1) (int d) * 86400) + i64 (int h * 3600))
                                            + i64 (int mi * 60)) + int s) * 1000))"
proof -
  let ?rest = "two_digits d @ '' '' @ MONTHS ! m @ '' '' @ show_nat y @ '' ''
       @ (two_digits h @ '':'' @ two_digits mi @ '':'' @ two_digits s) @ '' '' @ ''GMT''"
  let ?time = "two_digits h @ '':'' @ two_digits mi @ '':'' @ two_digits s"
  have sep: "CHR '' '' \<notin> set (two_digits n) \<and> CHR '':'' \<notin> set (two_digits n)" if "n < 100" for n
    by (rule digits_no_sep) (rule two_digits_set [OF that])
  have ysep: "CHR '' '' \<notin> set (show_nat y)"
    using digits_no_sep [of "show_nat y"] show_nat_digits by blast
  have once: "split_once '', '' (imf_fixdate wd d m y h mi s) = Some (wd, ?rest)"
    using split_once_first [of "'', ''" wd ?rest] assms(1) by (simp add: imf_fixdate_def)
  have tsep: "CHR '' '' \<notin> set ?time" using sep assms by simp
  have split: "split_on (\<lambda>c. c = CHR '' '') ?rest =
      [two_digits d, MONTHS ! m, show_nat y, ?time, ''GMT'']"
  proof -
    have "split_on (\<lambda>c. c = CHR '' '') (?time @ CHR '' '' # ''GMT'') = [?time, ''GMT'']"
      using tsep by (subst split_on_sep) auto
    then have "split_on (\<lambda>c. c = CHR '' '') (show_nat y @ CHR '' '' # ?time @ CHR '' '' # ''GMT'')
        = [show_nat y, ?time, ''GMT'']"
      using ysep by (subst split_on_sep) auto
    then have "split_on (\<lambda>c. c = CHR '' '')
        (MONTHS ! m @ CHR '' '' # show_nat y @ CHR '' '' # ?time @ CHR '' '' # ''GMT'')
        = [MONTHS ! m, show_nat y, ?time, ''GMT'']"
      using MONTHS_facts [OF assms(3)] by (subst split_on_sep) auto
    moreover have "split_on (\<lambda>c. c = CHR '' '') (two_digits d @ CHR '' '' # r)
        = two_digits d # split_on (\<lambda>c. c = CHR '' '') r" for r
      using sep [OF assms(2)] by (intro split_on_sep) auto
    ultimately show ?thesis by simp
  qed
  have hms: "split_on (\<lambda>c. c = CHR '':'') ?time = [two_digits h, two_digits mi, two_digits s]"
  proof -
    have last: "split_on (\<lambda>c. c = CHR '':'') (two_digits s) = [two_digits s]"
      using sep [OF assms(7)] by (intro split_on_none) auto
    have step: "split_on (\<lambda>c. c = CHR '':'') (two_digits n @ CHR '':'' # r)
        = two_digits n # split_on (\<lambda>c. c = CHR '':'') r" if "n < 100" for n r
      using sep [OF that] by (intro split_on_sep) auto
    show ?thesis by (simp add: step last assms)
  qed
  show ?thesis
    unfolding parse_http_date_ms_def once
    by (simp add: split [simplified] hms [simplified] assms fixdate_parts Let_def)
qed

lemma epoch_days_bounds:
  assumes "1970 \<le> y" "y \<le> 9999" "m < 12" "1 \<le> d" "d \<le> 31"
  shows "- 1000000 \<le> epoch_days y m d" "epoch_days y m d \<le> 4000000"
proof -
  define Y where "Y = shifted_year y (int m + 1)"
  define a b c where "a = Y div 4" and "b = Y div 100" and "c = Y div 400"
  have Y: "1969 \<le> Y" "Y \<le> 9999" using assms by (auto simp: Y_def shifted_year_def)
  have "0 \<le> a" "a \<le> 2499" "0 \<le> b" "b \<le> 99" "0 \<le> c" "c \<le> 24"
    using Y zdiv_mono1 [of Y 9999 4] zdiv_mono1 [of Y 9999 100] zdiv_mono1 [of Y 9999 400]
    by (simp_all add: a_def b_def c_def pos_imp_zdiv_nonneg_iff)
  moreover have "0 \<le> day_of_year (int m + 1) d" "day_of_year (int m + 1) d \<le> 400"
  proof -
    define w where "w = (153 * ((int m + 10) mod 12) + 2) div 5"
    have r: "0 \<le> (int m + 10) mod 12" "(int m + 10) mod 12 \<le> 11"
      using pos_mod_bound [of 12 "int m + 10"] by simp_all
    then have "0 \<le> w" "w \<le> 337"
      using zdiv_mono1 [of "153 * ((int m + 10) mod 12) + 2" 1685 5]
      by (simp_all add: w_def pos_imp_zdiv_nonneg_iff)
    then show "0 \<le> day_of_year (int m + 1) d" "day_of_year (int m + 1) d \<le> 400"
      using assms by (simp_all add: day_of_year_def w_def)
  qed
  moreover have "epoch_days y m d = 365 * Y + (a - b + c) + day_of_year (int m + 1) d - 719468"
    using civil_days_epoch [OF assms] civil_days_nowrap [of y "int m + 1" d] assms
    by (simp add: Y_def a_def b_def c_def)
  ultimately show "- 1000000 \<le> epoch_days y m d" "epoch_days y m d \<le> 4000000"
    using Y by linarith+
qed

text \<open>
  C32: A server date in the format HTTP requires is read as the milliseconds since the epoch that
  the calendar gives for it: whole days counted year by year and month by month from 1970-01-01
  (leap years included), then hours, minutes and seconds. No step of the 64-bit arithmetic
  wraps.
\<close>

theorem http_date_is_calendar_time:
  assumes "CHR '','' \<notin> set wd" and "1970 \<le> y" "y \<le> 9999" "m < 12" "1 \<le> d" "d \<le> 31"
    and "h < 24" "mi < 60" "s \<le> 60"
  shows "parse_http_date_ms (imf_fixdate wd d m y h mi s) =
    Some (1000 * (86400 * epoch_days (int y) m (int d) + 3600 * int h + 60 * int mi + int s))"
proof -
  have days: "civil_days (int y) (int m + 1) (int d) = epoch_days (int y) m (int d)"
    by (rule civil_days_epoch) (use assms in simp_all)
  have small: "i64 x = x" if "- 1000000000000000000 \<le> x" "x \<le> 1000000000000000000" for x
    by (rule i64_small) (use that in simp_all)
  have b: "- 1000000 \<le> epoch_days (int y) m (int d)" "epoch_days (int y) m (int d) \<le> 4000000"
    by (rule epoch_days_bounds; use assms in simp)+
  have "parse_http_date_ms (imf_fixdate wd d m y h mi s) =
    Some (i64 (i64 (i64 (i64 (i64 (epoch_days (int y) m (int d) * 86400) + i64 (int h * 3600))
                                            + i64 (int mi * 60)) + int s) * 1000))"
    unfolding days [symmetric] by (rule parse_fixdate) (use assms in simp_all)
  also have "\<dots> = Some (1000 * (86400 * epoch_days (int y) m (int d) + 3600 * int h + 60 * int mi + int s))"
    using b assms by (simp add: small)
  finally show ?thesis .
qed

theorem http_date_is_calendar_time_witness:
  "parse_http_date_ms (imf_fixdate ''Sun'' 6 10 1994 8 49 37)
   = Some (1000 * (86400 * epoch_days 1994 10 6 + 3600 * 8 + 60 * 49 + 37))"
  using http_date_is_calendar_time [of "''Sun''" 1994 10 6 8 49 37] by simp

text \<open>
  C33: A room id, event id or session id put into a request path can be read back exactly, so two
  different ids never address the same resource, and the escaped form consists of unreserved
  characters and percent signs only: no slash, question mark or space in an id can change which
  endpoint is called.
\<close>

theorem encode_segment_safe:
  "percent_decode (encode_segment s) = Some s
   \<and> list_all (\<lambda>c. unreserved c \<or> c = CHR ''%'') (encode_segment s)
   \<and> (encode_segment s = encode_segment t \<longleftrightarrow> s = t)"
  using encode_segment_chars [of _ s]
  by (auto simp: percent_decode_encode list_all_iff segment.enc_eq_iff)

text \<open>
  An accepted homeserver address starts with http:// or https:// (in any case), has something
  after the scheme and does not end in a slash, so paths can be appended to it; normalising it
  again gives it back unless cutting the slashes uncovered trailing blanks.
\<close>

theorem normalize_base_result:
  assumes "normalize_base s = Inr b"
  shows "good_base b \<and> (trim b = b \<longrightarrow> normalize_base b = Inr b)"
  using normalize_base_good [OF assms] normalize_base_fixed by blast

theorem normalize_base_result_witness:
  "good_base ''https://a.io'' \<and> normalize_base ''https://a.io'' = Inr ''https://a.io''"
proof -
  have "normalize_base '' a.io//'' = Inr ''https://a.io''" by code_simp
  moreover have "trim ''https://a.io'' = ''https://a.io''" by code_simp
  ultimately show ?thesis using normalize_base_result by blast
qed

end
