(* ===== verification/Api.thy ===== *)
theory Api
  imports Http_Util Model
begin

text \<open>
  The Matrix client-server calls of \<open>api.rs\<close>: how each request is made, and what each answer is
  turned into. The network and the homeserver behind it are a parameter, a function from all the
  requests sent so far to the answer to the last one; so is ureq's reading of a body up to a limit.
  Timeouts are not modelled: a request that times out is one that is answered with an error.
\<close>

section \<open>The network\<close>

record http_request =
  rq_method :: string
  rq_url :: string
  rq_auth :: "string option"
  rq_query :: "(string \<times> string) list"
  rq_body :: "string option"

record http_response =
  rs_status :: nat
  rs_date :: "string option"
  rs_body :: string

text \<open>What is outside the daemon: the requests sent, and how often the clock was read.\<close>

record world =
  w_log :: "http_request list"
  w_ticks :: nat

record net_lib =
  answer :: "http_request list \<Rightarrow> string + http_response"
  read_limited :: "nat \<Rightarrow> string \<Rightarrow> string + string"
  read_lossy :: "nat \<Rightarrow> string \<Rightarrow> string option"
  clock_ms :: "nat \<Rightarrow> 64 word"
  net_json :: json_lib

definition now_ms :: "net_lib \<Rightarrow> world \<Rightarrow> 64 word \<times> world" where
  "now_ms N w = (clock_ms N (w_ticks w), w\<lparr>w_ticks := w_ticks w + 1\<rparr>)"

text \<open>One exchange; a transport error becomes an \<open>anyhow\<close> error through \<open>?\<close>.\<close>

definition call :: "net_lib \<Rightarrow> http_request \<Rightarrow> (world, http_response) action" where
  "call N rq w =
     (let w' = w\<lparr>w_log := w_log w @ [rq]\<rparr>
      in (case answer N (w_log w') of Inl e \<Rightarrow> Inl (Msg e) | Inr res \<Rightarrow> Inr res, w'))"

section \<open>The client\<close>

record api =
  api_base :: string
  api_token :: "string option"
  api_skew :: int

definition MAX_BODY :: nat where
  "MAX_BODY = 64 * 1024 * 1024"

definition ERR_BODY_READ :: nat where
  "ERR_BODY_READ = 64 * 1024"

definition ERR_BODY_CHARS :: nat where
  "ERR_BODY_CHARS = 512"

definition MESSAGES_FILTER :: string where
  "MESSAGES_FILTER = ''{\"lazy_load_members\":true}''"

definition set_auth :: "string \<Rightarrow> api \<Rightarrow> api" where
  "set_auth tok a = a\<lparr>api_token := Some tok\<rparr>"

definition api_url :: "api \<Rightarrow> string \<Rightarrow> string" where
  "api_url a path = api_base a @ path"

definition api_bearer :: "api \<Rightarrow> string result" where
  "api_bearer a = (case api_token a of Some t \<Rightarrow> Inr t | None \<Rightarrow> Inl (Msg ''not authenticated: no access token''))"

definition get_request :: "string \<Rightarrow> http_request" where
  "get_request url = \<lparr>rq_method = ''GET'', rq_url = url, rq_auth = None, rq_query = [], rq_body = None\<rparr>"

definition post_request :: "string \<Rightarrow> string \<Rightarrow> http_request" where
  "post_request url body = \<lparr>rq_method = ''POST'', rq_url = url, rq_auth = None, rq_query = [], rq_body = Some body\<rparr>"

definition get_auth :: "api \<Rightarrow> string \<Rightarrow> http_request result" where
  "get_auth a url = bind_ok (api_bearer a) (\<lambda>t. Inr ((get_request url)\<lparr>rq_auth := Some (bearer t)\<rparr>))"

definition post_auth :: "api \<Rightarrow> string \<Rightarrow> string \<Rightarrow> http_request result" where
  "post_auth a url body = bind_ok (api_bearer a) (\<lambda>t. Inr ((post_request url body)\<lparr>rq_auth := Some (bearer t)\<rparr>))"

definition put_auth :: "api \<Rightarrow> string \<Rightarrow> string \<Rightarrow> http_request result" where
  "put_auth a url body =
     bind_ok (api_bearer a) (\<lambda>t. Inr ((post_request url body)\<lparr>rq_method := ''PUT'', rq_auth := Some (bearer t)\<rparr>))"

definition send_request :: "net_lib \<Rightarrow> http_request result \<Rightarrow> (world, http_response) action" where
  "send_request N rq w = (case rq of Inl e \<Rightarrow> (Inl e, w) | Inr rq \<Rightarrow> call N rq w)"

text \<open>Matrix's error envelope, or the body, cut short.\<close>

definition dec_matrix_error :: "(string option \<times> string option) decoder" where
  "dec_matrix_error v = Option.bind (as_object v) (\<lambda>m.
     (case (option_field ''errcode'' m, option_field ''error'' m) of
        (Some c, Some e) \<Rightarrow> Some (c, e) | _ \<Rightarrow> None))"

definition error_detail :: "net_lib \<Rightarrow> http_response \<Rightarrow> string" where
  "error_detail N res =
     (let raw = (case read_lossy N ERR_BODY_READ (rs_body res) of Some t \<Rightarrow> t | None \<Rightarrow> []);
          fallback = (if trim raw = [] then ''(empty body)'' else Http_Util.truncate raw ERR_BODY_CHARS)
      in case from_str (net_json N) dec_matrix_error raw of
           Inr (Some code, Some msg) \<Rightarrow> Http_Util.truncate (code @ '': '' @ msg) ERR_BODY_CHARS
         | Inr (Some code, None) \<Rightarrow> code
         | Inr (None, Some msg) \<Rightarrow> Http_Util.truncate msg ERR_BODY_CHARS
         | _ \<Rightarrow> fallback)"

definition check_status :: "net_lib \<Rightarrow> http_response \<Rightarrow> string \<Rightarrow> unit result" where
  "check_status N res what =
     (if 200 \<le> rs_status res \<and> rs_status res < 300 then Inr ()
      else Inl (Msg (what @ '': HTTP '' @ show_nat (rs_status res) @ '' '' @ error_detail N res)))"

definition read_json :: "net_lib \<Rightarrow> nat \<Rightarrow> 'a decoder \<Rightarrow> string \<Rightarrow> string + 'a" where
  "read_json N limit dec body =
     (case read_limited N limit body of Inl e \<Rightarrow> Inl e | Inr t \<Rightarrow> from_str (net_json N) dec t)"

definition finish :: "net_lib \<Rightarrow> 'a decoder \<Rightarrow> string \<Rightarrow> http_response \<Rightarrow> 'a result" where
  "finish N dec what res =
     bind_ok (check_status N res what) (\<lambda>_.
       case read_json N MAX_BODY dec (rs_body res) of
         Inl e \<Rightarrow> Inl (Context (what @ '': malformed response body'') (Msg e))
       | Inr x \<Rightarrow> Inr x)"

definition discard :: "net_lib \<Rightarrow> string \<Rightarrow> http_response \<Rightarrow> unit result" where
  "discard N what res = check_status N res what"

text \<open>The two shapes of a call: the answer is parsed, or a 404 stands for nothing there.\<close>

definition fetch :: "net_lib \<Rightarrow> http_request result \<Rightarrow> (http_response \<Rightarrow> 'a result) \<Rightarrow> (world, 'a) action" where
  "fetch N rq handle w = and_then (send_request N rq) (\<lambda>res w. (handle res, w)) w"

definition or_404 :: "'a \<Rightarrow> (http_response \<Rightarrow> 'a result) \<Rightarrow> http_response \<Rightarrow> 'a result" where
  "or_404 nothing handle res = (if rs_status res = 404 then Inr nothing else handle res)"

section \<open>Login and logout\<close>

definition dec_login_response :: "(string \<times> string \<times> string) decoder" where
  "dec_login_response v = Option.bind (as_object v) (\<lambda>m.
     (case (field ''user_id'' dec_str m, field ''device_id'' dec_str m, field ''access_token'' dec_str m) of
        (Some u, Some d, Some t) \<Rightarrow> Some (u, d, t) | _ \<Rightarrow> None))"

definition dec_well_known :: "string option decoder" where
  "dec_well_known v = Option.bind (as_object v)
     (field_or None ''m.homeserver'' (dec_opt (\<lambda>w. Option.bind (as_object w) (field ''base_url'' dec_str))))"

definition quiet_get :: "net_lib \<Rightarrow> string \<Rightarrow> world \<Rightarrow> http_response option \<times> world" where
  "quiet_get N url w = (case call N (get_request url) w of (Inl e, w') \<Rightarrow> (None, w') | (Inr res, w') \<Rightarrow> (Some res, w'))"

definition discover :: "net_lib \<Rightarrow> string \<Rightarrow> world \<Rightarrow> string option \<times> world" where
  "discover N base w =
     (case quiet_get N (base @ ''/.well-known/matrix/client'') w of
        (None, w1) \<Rightarrow> (None, w1)
      | (Some res, w1) \<Rightarrow>
         if rs_status res \<noteq> 200 then (None, w1)
         else (case read_json N ERR_BODY_READ dec_well_known (rs_body res) of
             Inr (Some url) \<Rightarrow>
              (case normalize_base url of
                 Inl e \<Rightarrow> (None, w1)
               | Inr candidate \<Rightarrow>
                  if candidate = base then (None, w1)
                  else (case quiet_get N (candidate @ ''/_matrix/client/versions'') w1 of
                      (None, w2) \<Rightarrow> (None, w2)
                    | (Some probe, w2) \<Rightarrow> (if rs_status probe = 200 then Some candidate else None, w2)))
           | _ \<Rightarrow> (None, w1)))"

definition api_new :: "net_lib \<Rightarrow> string \<Rightarrow> (world, api) action" where
  "api_new N hs w =
     (case normalize_base hs of
        Inl e \<Rightarrow> (Inl e, w)
      | Inr base \<Rightarrow>
         (let (found, w') = discover N base w
          in (Inr \<lparr>api_base = (case found of Some b \<Rightarrow> b | None \<Rightarrow> base), api_token = None, api_skew = 0\<rparr>, w')))"

definition login_body :: "string \<Rightarrow> string \<Rightarrow> json" where
  "login_body user password = obj
     [(''type'', JStr ''m.login.password''),
      (''identifier'', obj [(''type'', JStr ''m.id.user''), (''user'', JStr user)]),
      (''password'', JStr password), (''initial_device_display_name'', JStr ''kmatrix'')]"

definition api_login :: "net_lib \<Rightarrow> string \<Rightarrow> string \<Rightarrow> api \<Rightarrow> (world, session \<times> api) action" where
  "api_login N user password a w =
     (case call N (post_request (api_url a ''/_matrix/client/v3/login'')
                     (json_print (net_json N) (login_body user password))) w of
        (Inl e, w') \<Rightarrow> (Inl (Context (''connecting to homeserver '' @ api_base a) e), w')
      | (Inr res, w') \<Rightarrow>
         (bind_ok (finish N dec_login_response ''login'' res) (\<lambda>(u, d, t).
            Inr (\<lparr>homeserver = api_base a, user_id = u, device_id = d, access_token = t\<rparr>, set_auth t a)), w'))"

definition api_logout :: "net_lib \<Rightarrow> api \<Rightarrow> (world, unit) action" where
  "api_logout N a = fetch N (post_auth a (api_url a ''/_matrix/client/v3/logout'') ''{}'') (discard N ''logout'')"

section \<open>Members and names\<close>

definition dec_joined :: "'a decoder \<Rightarrow> (string \<times> 'a) list decoder" where
  "dec_joined dec v = Option.bind (as_object v) (field_or [] ''joined'' (dec_map dec))"

definition dec_option_in :: "string \<Rightarrow> string option decoder" where
  "dec_option_in k v = Option.bind (as_object v) (option_field k)"

definition joined_members_url :: "api \<Rightarrow> string \<Rightarrow> string" where
  "joined_members_url a r = api_url a (''/_matrix/client/v3/rooms/'' @ encode_segment r @ ''/joined_members'')"

definition member_names :: "net_lib \<Rightarrow> api \<Rightarrow> string \<Rightarrow> (world, (string, string option) btree) action" where
  "member_names N a r =
     fetch N (get_auth a (joined_members_url a r)) (finish N (dec_joined (dec_option_in ''display_name'')) ''member names'')"

definition joined_members :: "net_lib \<Rightarrow> api \<Rightarrow> string \<Rightarrow> (world, string list) action" where
  "joined_members N a r =
     fetch N (get_auth a (joined_members_url a r))
       (\<lambda>res. bind_ok (finish N (dec_joined (\<lambda>_. Some ())) ''joined_members'' res) (\<lambda>m. Inr (map fst m)))"

definition direct_rooms :: "net_lib \<Rightarrow> api \<Rightarrow> string \<Rightarrow> (world, (string, string list) btree) action" where
  "direct_rooms N a u =
     fetch N (get_auth a (api_url a (''/_matrix/client/v3/user/'' @ encode_segment u @ ''/account_data/m.direct'')))
       (or_404 [] (finish N (dec_map (dec_list dec_str)) ''m.direct''))"

definition non_empty :: "string option \<Rightarrow> string option" where
  "non_empty n = (case n of Some t \<Rightarrow> if t = [] then None else Some t | None \<Rightarrow> None)"

definition profile_name :: "net_lib \<Rightarrow> api \<Rightarrow> string \<Rightarrow> (world, string option) action" where
  "profile_name N a u =
     fetch N (get_auth a (api_url a (''/_matrix/client/v3/profile/'' @ encode_segment u @ ''/displayname'')))
       (or_404 None (\<lambda>res. bind_ok (finish N (dec_option_in ''displayname'') ''profile displayname'' res)
                       (\<lambda>n. Inr (non_empty n))))"

definition room_name :: "net_lib \<Rightarrow> api \<Rightarrow> string \<Rightarrow> (world, string option) action" where
  "room_name N a r =
     fetch N (get_auth a (api_url a (''/_matrix/client/v3/rooms/'' @ encode_segment r @ ''/state/m.room.name'')))
       (or_404 None (\<lambda>res. bind_ok (finish N (dec_option_in ''name'') ''room name'' res) (\<lambda>n. Inr (non_empty n))))"

section \<open>Events\<close>

definition api_event :: "net_lib \<Rightarrow> api \<Rightarrow> string \<Rightarrow> string \<Rightarrow> (world, room_event) action" where
  "api_event N a r e =
     fetch N (get_auth a (api_url a (''/_matrix/client/v3/rooms/'' @ encode_segment r @ ''/event/'' @ encode_segment e)))
       (finish N dec_room_event ''event'')"

definition send_event :: "net_lib \<Rightarrow> api \<Rightarrow> string \<Rightarrow> string \<Rightarrow> string \<Rightarrow> json \<Rightarrow> (world, string) action" where
  "send_event N a r k txn content =
     fetch N (put_auth a (api_url a (''/_matrix/client/v3/rooms/'' @ encode_segment r @ ''/send/'' @ encode_segment k
                                     @ ''/'' @ encode_segment txn)) (json_print (net_json N) content))
       (finish N (\<lambda>v. Option.bind (as_object v) (field ''event_id'' dec_str)) ''send_event'')"

definition read_receipt :: "net_lib \<Rightarrow> api \<Rightarrow> string \<Rightarrow> string \<Rightarrow> (world, unit) action" where
  "read_receipt N a r e =
     fetch N (post_auth a (api_url a (''/_matrix/client/v3/rooms/'' @ encode_segment r @ ''/receipt/m.read/'' @ encode_segment e)) ''{}'')
       (discard N ''read_receipt'')"

definition dec_page :: "(room_event list \<times> string option) decoder" where
  "dec_page v = Option.bind (as_object v) (\<lambda>m.
     (case (field_or [] ''chunk'' (dec_list dec_room_event) m, option_field ''end'' m) of
        (Some c, Some e) \<Rightarrow> Some (c, e) | _ \<Rightarrow> None))"

definition api_messages ::
  "net_lib \<Rightarrow> api \<Rightarrow> string \<Rightarrow> string option \<Rightarrow> 32 word \<Rightarrow> (world, room_event list \<times> string option) action" where
  "api_messages N a r start limit =
     fetch N (bind_ok (get_auth a (api_url a (''/_matrix/client/v3/rooms/'' @ encode_segment r @ ''/messages'')))
                (\<lambda>rq. Inr (rq\<lparr>rq_query := [(''dir'', ''b''), (''limit'', show_nat (unat limit)), (''filter'', MESSAGES_FILTER)]
                              @ (case start of Some t \<Rightarrow> [(''from'', t)] | None \<Rightarrow> [])\<rparr>)))
       (finish N dec_page ''messages'')"

text \<open>The skew is the clock minus the server's date, in \<open>i64\<close>; an unreadable date changes nothing.\<close>

definition note_server_time :: "net_lib \<Rightarrow> http_response \<Rightarrow> api \<Rightarrow> world \<Rightarrow> api \<times> world" where
  "note_server_time N res a w =
     (case Option.bind (rs_date res) parse_http_date_ms of
        None \<Rightarrow> (a, w)
      | Some server_ms \<Rightarrow>
         (let (now, w') = now_ms N w in (a\<lparr>api_skew := i64 (sint now - server_ms)\<rparr>, w')))"

definition api_sync :: "net_lib \<Rightarrow> string option \<Rightarrow> nat \<Rightarrow> api \<Rightarrow> world \<Rightarrow> (sync_response result \<times> api) \<times> world" where
  "api_sync N since timeout_ms a w =
     (case send_request N (bind_ok (get_auth a (api_url a ''/_matrix/client/v3/sync''))
             (\<lambda>rq. Inr (rq\<lparr>rq_query := [(''filter'', SYNC_FILTER), (''timeout'', show_nat timeout_ms)]
                            @ (case since of Some t \<Rightarrow> [(''since'', t)] | None \<Rightarrow> [])\<rparr>))) w of
        (Inl e, w1) \<Rightarrow> ((Inl e, a), w1)
      | (Inr res, w1) \<Rightarrow>
         (let (a', w2) = note_server_time N res a w1 in ((finish N dec_sync_response ''sync'' res, a'), w2)))"

section \<open>Keys\<close>

definition keys_upload :: "net_lib \<Rightarrow> api \<Rightarrow> json \<Rightarrow> (world, unit) action" where
  "keys_upload N a body =
     fetch N (post_auth a (api_url a ''/_matrix/client/v3/keys/upload'') (json_print (net_json N) body))
       (discard N ''keys_upload'')"

definition keys_query_body :: "string list \<Rightarrow> json" where
  "keys_query_body users = obj [(''device_keys'', obj (map (\<lambda>u. (u, JArr [])) users))]"

definition keys_query :: "net_lib \<Rightarrow> api \<Rightarrow> string list \<Rightarrow> (world, json) action" where
  "keys_query N a users =
     fetch N (post_auth a (api_url a ''/_matrix/client/v3/keys/query'') (json_print (net_json N) (keys_query_body users)))
       (finish N Some ''keys_query'')"

definition keys_claim :: "net_lib \<Rightarrow> api \<Rightarrow> json \<Rightarrow> (world, json) action" where
  "keys_claim N a body =
     fetch N (post_auth a (api_url a ''/_matrix/client/v3/keys/claim'') (json_print (net_json N) body))
       (finish N Some ''keys_claim'')"

definition send_to_device :: "net_lib \<Rightarrow> api \<Rightarrow> string \<Rightarrow> string \<Rightarrow> json \<Rightarrow> (world, unit) action" where
  "send_to_device N a k txn messages =
     fetch N (put_auth a (api_url a (''/_matrix/client/v3/sendToDevice/'' @ encode_segment k @ ''/'' @ encode_segment txn))
                (json_print (net_json N) (obj [(''messages'', messages)])))
       (discard N ''send_to_device'')"

record backup_info =
  bi_version :: string
  bi_algorithm :: string
  bi_public_key :: string

definition dec_backup_version :: "backup_info decoder" where
  "dec_backup_version v = Option.bind (as_object v) (\<lambda>m.
     (case (field ''version'' dec_str m, field ''algorithm'' dec_str m,
            field ''auth_data'' (\<lambda>w. Option.bind (as_object w) (field ''public_key'' dec_str)) m) of
        (Some ver, Some alg, Some key) \<Rightarrow> Some \<lparr>bi_version = ver, bi_algorithm = alg, bi_public_key = key\<rparr>
      | _ \<Rightarrow> None))"

definition backup_version :: "net_lib \<Rightarrow> api \<Rightarrow> (world, backup_info option) action" where
  "backup_version N a =
     fetch N (get_auth a (api_url a ''/_matrix/client/v3/room_keys/version''))
       (or_404 None (\<lambda>res. bind_ok (finish N dec_backup_version ''backup_version'' res) (\<lambda>b. Inr (Some b))))"

definition backup_session :: "net_lib \<Rightarrow> api \<Rightarrow> string \<Rightarrow> string \<Rightarrow> string \<Rightarrow> (world, json option) action" where
  "backup_session N a version r sid =
     fetch N (get_auth a (api_url a (''/_matrix/client/v3/room_keys/keys/'' @ encode_segment r @ ''/'' @ encode_segment sid
                                     @ ''?version='' @ encode_segment version)))
       (or_404 None (\<lambda>res. bind_ok (finish N Some ''backup_session'' res) (\<lambda>v. Inr (Some v))))"

section \<open>What goes over the wire\<close>

definition sent :: "world \<Rightarrow> world \<Rightarrow> http_request list" where
  "sent w w' = drop (length (w_log w)) (w_log w')"

lemma sent_call: "w_log (snd (call N rq w)) = w_log w @ [rq]"
  by (simp add: call_def Let_def)

lemma quiet_get_cases:
  obtains (failed) "quiet_get N url w = (None, w\<lparr>w_log := w_log w @ [get_request url]\<rparr>)"
  | (answered) res where "quiet_get N url w = (Some res, w\<lparr>w_log := w_log w @ [get_request url]\<rparr>)"
    "answer N (w_log w @ [get_request url]) = Inr res"
  by (cases "answer N (w_log w @ [get_request url])") (auto simp: quiet_get_def call_def Let_def)

text \<open>What discovery may do: ask one or two unauthenticated questions, and adopt only a probed base.\<close>

lemma discover_cases:
  assumes "discover N base w = (found, w')"
  shows "list_all (\<lambda>rq. rq_auth rq = None \<and> rq_method rq = ''GET'' \<and> rq_body rq = None) (sent w w') \<and> length (sent w w') \<le> 2
    \<and> (\<forall>c. found = Some c \<longrightarrow> good_base c \<and> c \<noteq> base
         \<and> (\<exists>res. last (w_log w') = get_request (c @ ''/_matrix/client/versions'')
              \<and> answer N (w_log w') = Inr res \<and> rs_status res = 200))"
proof (cases rule: quiet_get_cases [of N "base @ ''/.well-known/matrix/client''" w])
  case failed
  with assms show ?thesis by (auto simp: discover_def sent_def get_request_def)
next
  case (answered res)
  let ?w1 = "w\<lparr>w_log := w_log w @ [get_request (base @ ''/.well-known/matrix/client'')]\<rparr>"
  have quiet: ?thesis if "discover N base w = (None, ?w1)"
    using that assms by (auto simp: sent_def get_request_def)
  show ?thesis
  proof (cases "rs_status res = 200")
    case False
    then show ?thesis by (intro quiet) (simp add: discover_def answered)
  next
    case ok: True
    show ?thesis
    proof (cases "\<exists>url c. read_json N ERR_BODY_READ dec_well_known (rs_body res) = Inr (Some url)
        \<and> normalize_base url = Inr c \<and> c \<noteq> base")
      case False
      then show ?thesis
        by (intro quiet) (simp add: discover_def answered ok split: sum.split option.split)
    next
      case True
      then obtain url c where c: "read_json N ERR_BODY_READ dec_well_known (rs_body res) = Inr (Some url)"
        "normalize_base url = Inr c" "c \<noteq> base" by blast
      have good: "good_base c" using normalize_base_good [OF c(2)] .
      show ?thesis
        by (cases rule: quiet_get_cases [of N "c @ ''/_matrix/client/versions''" ?w1])
          (use assms c good in \<open>auto simp: discover_def answered ok sent_def get_request_def split: if_splits\<close>)
    qed
  qed
qed

text \<open>
  C36: Setting up the client for a homeserver sends at most two requests, none with credentials or
  a body; the address it settles on has a scheme, an authority and no trailing slash, and is either
  the one the user gave or one the discovery document named that then answered 200 to the
  versions probe. A client without a token sends no authenticated request at all: the call fails
  before anything reaches the network.
\<close>

theorem discovery_is_validated:
  assumes "api_new N hs w = (Inr a, w')"
  shows "list_all (\<lambda>rq. rq_auth rq = None \<and> rq_method rq = ''GET'' \<and> rq_body rq = None) (sent w w')
    \<and> length (sent w w') \<le> 2 \<and> good_base (api_base a) \<and> api_token a = None
    \<and> (normalize_base hs = Inr (api_base a) \<or>
       (\<exists>res. last (w_log w') = get_request (api_base a @ ''/_matrix/client/versions'')
          \<and> answer N (w_log w') = Inr res \<and> rs_status res = 200))
    \<and> fetch N (get_auth a url) handle w' = (Inl (Msg ''not authenticated: no access token''), w')"
proof -
  obtain base where base: "normalize_base hs = Inr base"
    using assms by (auto simp: api_new_def split: sum.splits)
  obtain found where found: "discover N base w = (found, w')"
    and a: "a = \<lparr>api_base = (case found of Some b \<Rightarrow> b | None \<Rightarrow> base), api_token = None, api_skew = 0\<rparr>"
    using assms by (auto simp: api_new_def base split: prod.splits)
  have "fetch N (get_auth a url) handle w' = (Inl (Msg ''not authenticated: no access token''), w')"
    by (simp add: a fetch_def get_auth_def api_bearer_def send_request_def and_then_def)
  with discover_cases [OF found] base normalize_base_good [OF base] show ?thesis
    by (cases found) (auto simp: a)
qed

definition demo_json :: json_lib where
  "demo_json = \<lparr>json_print = (\<lambda>v. []), json_parse = (\<lambda>t. Inl ''EOF''), json_type_error = (\<lambda>t. ''type'')\<rparr>"

text \<open>A server that answers every request with 404.\<close>

definition demo_net :: net_lib where
  "demo_net = \<lparr>answer = (\<lambda>log. Inr \<lparr>rs_status = 404, rs_date = None, rs_body = []\<rparr>),
     read_limited = (\<lambda>n b. Inr b), read_lossy = (\<lambda>n b. Some b), clock_ms = (\<lambda>n. 0), net_json = demo_json\<rparr>"

theorem discovery_is_validated_witness:
  "\<exists>a w'. api_new demo_net ''a.io'' \<lparr>w_log = [], w_ticks = 0\<rparr> = (Inr a, w') \<and> good_base (api_base a) \<and> length (sent \<lparr>w_log = [], w_ticks = 0\<rparr> w') \<le> 2"
proof -
  have "normalize_base ''a.io'' = Inr ''https://a.io''" by code_simp
  then obtain a w' where r: "api_new demo_net ''a.io'' \<lparr>w_log = [], w_ticks = 0\<rparr> = (Inr a, w')"
    by (simp add: api_new_def case_prod_unfold Let_def)
  from discovery_is_validated [OF r] r show ?thesis by blast
qed

end
