(* ===== verification/Sha256.thy ===== *)
theory Sha256
  imports Prelude
begin

unbundle bit_operations_syntax

text \<open>
  The hand-written SHA-256 of \<open>crypto.rs\<close> (\<open>SHA256_K\<close>, \<open>sha256\<close>, \<open>sha256_block\<close>), which the SAS
  commitment hashes with. The code pads into one 128 byte buffer and keeps the message schedule
  in an array updated in place; the reference below is FIPS 180-4 as the standard states it, a
  padded message cut into blocks and a schedule given by its recurrence. They are proved equal.
\<close>

type_synonym u8 = "8 word"
type_synonym u32 = "32 word"
type_synonym u64 = "64 word"
type_synonym bytes = "u8 list"

section \<open>Slices and byte order\<close>

text \<open>\<open>chunks_exact(n)\<close>: the full pieces, and what is left over at the end.\<close>

function chunks_exact :: "nat \<Rightarrow> 'a list \<Rightarrow> 'a list list" where
  "chunks_exact n xs = (if n = 0 \<or> length xs < n then [] else take n xs # chunks_exact n (drop n xs))"
  by pat_completeness auto
termination by (relation "measure (\<lambda>(n, xs). length xs)") auto

declare chunks_exact.simps [simp del]

definition chunks_remainder :: "nat \<Rightarrow> 'a list \<Rightarrow> 'a list" where
  "chunks_remainder n xs = drop (length xs - length xs mod n) xs"

text \<open>\<open>copy_from_slice\<close> into a part of an array.\<close>

definition write_at :: "nat \<Rightarrow> 'a list \<Rightarrow> 'a list \<Rightarrow> 'a list" where
  "write_at i ys xs = take i xs @ ys @ drop (i + length ys) xs"

definition from_be_bytes :: "bytes \<Rightarrow> u32" where
  "from_be_bytes b = push_bit 24 (ucast (b ! 0)) OR push_bit 16 (ucast (b ! 1))
     OR push_bit 8 (ucast (b ! 2)) OR ucast (b ! 3)"

definition to_be_bytes32 :: "u32 \<Rightarrow> bytes" where
  "to_be_bytes32 w = map (\<lambda>i. ucast (drop_bit i w)) [24, 16, 8, 0]"

definition to_be_bytes64 :: "u64 \<Rightarrow> bytes" where
  "to_be_bytes64 w = map (\<lambda>i. ucast (drop_bit i w)) [56, 48, 40, 32, 24, 16, 8, 0]"

section \<open>The code\<close>

definition SHA256_K :: "u32 list" where
  "SHA256_K =
    [0x428a2f98, 0x71374491, 0xb5c0fbcf, 0xe9b5dba5, 0x3956c25b, 0x59f111f1, 0x923f82a4, 0xab1c5ed5] @
    [0xd807aa98, 0x12835b01, 0x243185be, 0x550c7dc3, 0x72be5d74, 0x80deb1fe, 0x9bdc06a7, 0xc19bf174] @
    [0xe49b69c1, 0xefbe4786, 0x0fc19dc6, 0x240ca1cc, 0x2de92c6f, 0x4a7484aa, 0x5cb0a9dc, 0x76f988da] @
    [0x983e5152, 0xa831c66d, 0xb00327c8, 0xbf597fc7, 0xc6e00bf3, 0xd5a79147, 0x06ca6351, 0x14292967] @
    [0x27b70a85, 0x2e1b2138, 0x4d2c6dfc, 0x53380d13, 0x650a7354, 0x766a0abb, 0x81c2c92e, 0x92722c85] @
    [0xa2bfe8a1, 0xa81a664b, 0xc24b8b70, 0xc76c51a3, 0xd192e819, 0xd6990624, 0xf40e3585, 0x106aa070] @
    [0x19a4c116, 0x1e376c08, 0x2748774c, 0x34b0bcb5, 0x391c0cb3, 0x4ed8aa4a, 0x5b9cca4f, 0x682e6ff3] @
    [0x748f82ee, 0x78a5636f, 0x84c87814, 0x8cc70208, 0x90befffa, 0xa4506ceb, 0xbef9a3f7, 0xc67178f2]"

definition sha256_init :: "u32 list" where
  "sha256_init = [0x6a09e667, 0xbb67ae85, 0x3c6ef372, 0xa54ff53a, 0x510e527f, 0x9b05688c,
                  0x1f83d9ab, 0x5be0cd19]"

text \<open>The body of \<open>for i in 16..64\<close>, which fills the schedule array in place.\<close>

definition schedule_step :: "nat \<Rightarrow> u32 list \<Rightarrow> u32 list" where
  "schedule_step i w =
     (let x = w ! (i - 15); y = w ! (i - 2);
          s0 = word_rotr 7 x XOR word_rotr 18 x XOR drop_bit 3 x;
          s1 = word_rotr 17 y XOR word_rotr 19 y XOR drop_bit 10 y
      in w[i := w ! (i - 16) + s0 + w ! (i - 7) + s1])"

definition sha256_schedule :: "bytes \<Rightarrow> u32 list" where
  "sha256_schedule block =
     fold schedule_step [16..<64]
       (write_at 0 (map from_be_bytes (chunks_exact 4 block)) (replicate 64 0))"

type_synonym regs = "u32 \<times> u32 \<times> u32 \<times> u32 \<times> u32 \<times> u32 \<times> u32 \<times> u32"

text \<open>The body of the round loop; the code calls the last of the eight registers \<open>i\<close>.\<close>

fun round_step :: "u32 \<times> u32 \<Rightarrow> regs \<Rightarrow> regs" where
  "round_step (k, w) (a, b, c, d, e, f, g, i) =
     (let s1 = word_rotr 6 e XOR word_rotr 11 e XOR word_rotr 25 e;
          ch = (e AND f) XOR (NOT e AND g);
          t1 = i + s1 + ch + k + w;
          s0 = word_rotr 2 a XOR word_rotr 13 a XOR word_rotr 22 a;
          maj = (a AND b) XOR (a AND c) XOR (b AND c);
          t2 = s0 + maj
      in (t1 + t2, a, b, c, d + t1, e, f, g))"

fun regs_of :: "u32 list \<Rightarrow> regs" where
  "regs_of [a, b, c, d, e, f, g, i] = (a, b, c, d, e, f, g, i)"
| "regs_of _ = (0, 0, 0, 0, 0, 0, 0, 0)"

fun list_of_regs :: "regs \<Rightarrow> u32 list" where
  "list_of_regs (a, b, c, d, e, f, g, i) = [a, b, c, d, e, f, g, i]"

definition sha256_block :: "u32 list \<Rightarrow> bytes \<Rightarrow> u32 list" where
  "sha256_block h block =
     (let w = sha256_schedule block;
          r = fold round_step (zip SHA256_K w) (regs_of h)
      in map2 (+) h (list_of_regs r))"

text \<open>The final one or two blocks: remainder, \<open>0x80\<close>, zeroes, length in bits.\<close>

definition sha256_tail :: "bytes \<Rightarrow> bytes" where
  "sha256_tail data =
     (let rest = chunks_remainder 64 data;
          tail = write_at 0 rest (replicate 128 0);
          tail = tail[length rest := 0x80];
          tail_len = (if length rest < 56 then 64 else 128);
          bit_len = (of_nat (length data) :: u64) * 8;
          tail = write_at (tail_len - 8) (to_be_bytes64 bit_len) tail
      in take tail_len tail)"

definition sha256 :: "bytes \<Rightarrow> bytes" where
  "sha256 data =
     (let h = fold (\<lambda>block h. sha256_block h block) (chunks_exact 64 data) sha256_init;
          h = fold (\<lambda>block h. sha256_block h block) (chunks_exact 64 (sha256_tail data)) h
      in concat (map to_be_bytes32 h))"

section \<open>The standard\<close>

text \<open>FIPS 180-4, sections 4.1.2, 5.1.1, 5.2.1 and 6.2.2.\<close>

definition fips_Ch :: "u32 \<Rightarrow> u32 \<Rightarrow> u32 \<Rightarrow> u32" where
  "fips_Ch x y z = (x AND y) XOR (NOT x AND z)"

definition fips_Maj :: "u32 \<Rightarrow> u32 \<Rightarrow> u32 \<Rightarrow> u32" where
  "fips_Maj x y z = (x AND y) XOR (x AND z) XOR (y AND z)"

definition fips_Sigma0 :: "u32 \<Rightarrow> u32" where
  "fips_Sigma0 x = word_rotr 2 x XOR word_rotr 13 x XOR word_rotr 22 x"

definition fips_Sigma1 :: "u32 \<Rightarrow> u32" where
  "fips_Sigma1 x = word_rotr 6 x XOR word_rotr 11 x XOR word_rotr 25 x"

definition fips_sigma0 :: "u32 \<Rightarrow> u32" where
  "fips_sigma0 x = word_rotr 7 x XOR word_rotr 18 x XOR drop_bit 3 x"

definition fips_sigma1 :: "u32 \<Rightarrow> u32" where
  "fips_sigma1 x = word_rotr 17 x XOR word_rotr 19 x XOR drop_bit 10 x"

text \<open>The padding: \<open>k\<close> is the least solution of \<open>l + 1 + k = 56\<close> modulo 64 (in bytes).\<close>

definition fips_zeros :: "nat \<Rightarrow> nat" where
  "fips_zeros l = (119 - l mod 64) mod 64"

definition fips_pad :: "bytes \<Rightarrow> bytes" where
  "fips_pad m = m @ [0x80] @ replicate (fips_zeros (length m)) 0
     @ to_be_bytes64 (of_nat (8 * length m))"

text \<open>The message schedule, by its recurrence.\<close>

fun fips_W :: "(nat \<Rightarrow> u32) \<Rightarrow> nat \<Rightarrow> u32" where
  "fips_W M t =
     (if t < 16 then M t
      else fips_sigma1 (fips_W M (t - 2)) + fips_W M (t - 7)
           + fips_sigma0 (fips_W M (t - 15)) + fips_W M (t - 16))"

declare fips_W.simps [simp del]

fun fips_round :: "u32 \<Rightarrow> u32 \<Rightarrow> regs \<Rightarrow> regs" where
  "fips_round k w (a, b, c, d, e, f, g, h) =
     (let T1 = h + fips_Sigma1 e + fips_Ch e f g + k + w;
          T2 = fips_Sigma0 a + fips_Maj a b c
      in (T1 + T2, a, b, c, d + T1, e, f, g))"

definition fips_compress :: "u32 list \<Rightarrow> bytes \<Rightarrow> u32 list" where
  "fips_compress H block =
     (let M = (\<lambda>t. from_be_bytes (take 4 (drop (4 * t) block)));
          r = fold (\<lambda>t. fips_round (SHA256_K ! t) (fips_W M t)) [0..<64] (regs_of H)
      in map2 (+) H (list_of_regs r))"

definition fips_sha256 :: "bytes \<Rightarrow> bytes" where
  "fips_sha256 m =
     concat (map to_be_bytes32 (foldl fips_compress sha256_init (chunks_exact 64 (fips_pad m))))"

section \<open>Correctness\<close>

lemma chunks_exact_short [simp]: "length xs < n \<Longrightarrow> chunks_exact n xs = []"
  by (subst chunks_exact.simps) simp

lemma chunks_exact_append_first:
  "length c = n \<Longrightarrow> 0 < n \<Longrightarrow> chunks_exact n (c @ xs) = c # chunks_exact n xs"
  by (subst chunks_exact.simps) simp

lemma length_chunks_exact [simp]: "length (chunks_exact n xs) = length xs div n"
proof (induction n xs rule: chunks_exact.induct)
  case (1 n xs)
  show ?case
  proof (cases "n = 0 \<or> length xs < n")
    case False
    with 1 show ?thesis
      by (subst chunks_exact.simps) (simp add: le_div_geq)
  qed (subst chunks_exact.simps, auto)
qed

lemma nth_chunks_exact:
  "i < length xs div n \<Longrightarrow> chunks_exact n xs ! i = take n (drop (n * i) xs)"
proof (induction n xs arbitrary: i rule: chunks_exact.induct)
  case (1 n xs)
  show ?case
  proof (cases "n = 0 \<or> length xs < n")
    case True
    with 1 show ?thesis by auto
  next
    case False
    show ?thesis
    proof (cases i)
      case 0
      with False show ?thesis by (subst chunks_exact.simps) simp
    next
      case (Suc j)
      with 1 False show ?thesis
        by (subst chunks_exact.simps) (simp add: le_div_geq add.commute)
    qed
  qed
qed

lemma chunks_exact_elem: "c \<in> set (chunks_exact n xs) \<Longrightarrow> length c = n"
proof -
  assume "c \<in> set (chunks_exact n xs)"
  then obtain i where i: "i < length xs div n" and c: "c = take n (drop (n * i) xs)"
    by (auto simp: in_set_conv_nth nth_chunks_exact)
  have "n * i + n \<le> length xs"
  proof -
    have "n * (i + 1) \<le> n * (length xs div n)" using i by (intro mult_le_mono2) simp
    also have "\<dots> \<le> length xs" by (rule times_div_less_eq_dividend)
    finally show ?thesis by simp
  qed
  with c show "length c = n" by simp
qed

lemma chunks_exact_append:
  assumes "0 < n" and "length xs mod n = 0"
  shows "chunks_exact n (xs @ ys) = chunks_exact n xs @ chunks_exact n ys"
  using assms
proof (induction n xs rule: chunks_exact.induct)
  case (1 n xs)
  show ?case
  proof (cases "length xs < n")
    case True
    with 1 show ?thesis by simp
  next
    case False
    then have "length (drop n xs) mod n = 0" using 1 by (simp add: le_mod_geq)
    with 1 False have "chunks_exact n (drop n xs @ ys) = chunks_exact n (drop n xs) @ chunks_exact n ys"
      by simp
    with False 1 show ?thesis
      by (simp add: chunks_exact.simps [of n "xs @ ys"] chunks_exact.simps [of n xs])
  qed
qed

lemma length_chunks_remainder [simp]: "length (chunks_remainder n xs) = length xs mod n"
  by (simp add: chunks_remainder_def)

lemma chunks_split:
  obtains full where "xs = full @ chunks_remainder n xs" "length full mod n = 0"
proof
  show "xs = take (length xs - length xs mod n) xs @ chunks_remainder n xs"
    by (simp add: chunks_remainder_def)
  show "length (take (length xs - length xs mod n) xs) mod n = 0"
    by (simp add: minus_mod_eq_mult_div)
qed

subsection \<open>The schedule and the compression function\<close>

lemma schedule_step_fips:
  assumes "16 \<le> i" "i < length w" and "\<And>t. t < i \<Longrightarrow> w ! t = fips_W M t"
  shows "\<And>t. t < Suc i \<Longrightarrow> schedule_step i w ! t = fips_W M t"
    and "length (schedule_step i w) = length w"
proof -
  show "length (schedule_step i w) = length w"
    by (simp add: schedule_step_def Let_def)
  fix t assume "t < Suc i"
  then show "schedule_step i w ! t = fips_W M t"
  proof (cases "t = i")
    case True
    from assms have "w ! (i - 15) = fips_W M (i - 15)" "w ! (i - 2) = fips_W M (i - 2)"
      "w ! (i - 16) = fips_W M (i - 16)" "w ! (i - 7) = fips_W M (i - 7)"
      by (auto intro: assms(3))
    with True assms show ?thesis
      by (simp add: schedule_step_def Let_def fips_W.simps [of M i] fips_sigma0_def fips_sigma1_def)
  next
    case False
    with \<open>t < Suc i\<close> assms show ?thesis
      by (simp add: schedule_step_def Let_def)
  qed
qed

lemma schedule_fold_fips:
  assumes "n \<le> 48" and "length w = 64" and "\<And>t. t < 16 \<Longrightarrow> w ! t = fips_W M t"
  shows "length (fold schedule_step [16..<16 + n] w) = 64
    \<and> (\<forall>t < 16 + n. fold schedule_step [16..<16 + n] w ! t = fips_W M t)"
  using assms(1)
proof (induction n)
  case 0
  with assms show ?case by simp
next
  case (Suc n)
  let ?w = "fold schedule_step [16..<16 + n] w"
  have *: "length ?w = 64" "\<And>t. t < 16 + n \<Longrightarrow> ?w ! t = fips_W M t"
    using Suc by auto
  have "fold schedule_step [16..<16 + Suc n] w = schedule_step (16 + n) ?w"
    by (subst add_Suc_right, subst upt_Suc) simp
  with schedule_step_fips [of "16 + n" ?w M] * Suc.prems show ?case by simp
qed

lemma sha256_schedule_fips:
  assumes "length block = 64"
  shows "sha256_schedule block
    = map (fips_W (\<lambda>t. from_be_bytes (take 4 (drop (4 * t) block)))) [0..<64]" (is "_ = map (fips_W ?M) _")
proof -
  let ?w = "write_at 0 (map from_be_bytes (chunks_exact 4 block)) (replicate 64 0)"
  have "?w ! t = fips_W ?M t" if "t < 16" for t
    using that assms
    by (simp add: write_at_def nth_append nth_chunks_exact fips_W.simps [of _ t])
  moreover have "length ?w = 64" using assms by (simp add: write_at_def)
  ultimately show ?thesis
    using schedule_fold_fips [of 48 ?w ?M]
    by (auto simp: sha256_schedule_def intro!: nth_equalityI)
qed

lemma round_step_fips: "round_step (k, w) = fips_round k w"
proof
  fix r show "round_step (k, w) r = fips_round k w r"
    by (cases "((k, w), r)" rule: round_step.cases)
       (simp add: fips_Ch_def fips_Maj_def fips_Sigma0_def fips_Sigma1_def Let_def)
qed

lemma length_SHA256_K [simp]: "length SHA256_K = 64"
  by (simp add: SHA256_K_def)

lemma sha256_block_fips:
  assumes "length block = 64"
  shows "sha256_block h block = fips_compress h block"
proof -
  let ?M = "\<lambda>t. from_be_bytes (take 4 (drop (4 * t) block))"
  have "zip SHA256_K (map (fips_W ?M) [0..<64]) = map (\<lambda>t. (SHA256_K ! t, fips_W ?M t)) [0..<64]"
    by (rule nth_equalityI) auto
  then show ?thesis
    by (simp add: sha256_block_def fips_compress_def sha256_schedule_fips [OF assms] Let_def
        fold_map comp_def round_step_fips)
qed

subsection \<open>The padding\<close>

lemma write_at_exact:
  "length ys = length ms \<Longrightarrow> write_at (length xs) ys (xs @ ms @ zs) = xs @ ys @ zs"
  by (simp add: write_at_def)

lemma take_exact: "length xs = n \<Longrightarrow> take n (xs @ ys) = xs"
  by simp

lemma length_to_be_bytes64 [simp]: "length (to_be_bytes64 w) = 8"
  by (simp add: to_be_bytes64_def)

lemma fips_zeros_eq:
  "fips_zeros l = (if l mod 64 < 56 then 55 - l mod 64 else 119 - l mod 64)"
proof (cases "l mod 64 < 56")
  case True
  then have "119 - l mod 64 = (55 - l mod 64) + 64" by simp
  then have "fips_zeros l = (55 - l mod 64) mod 64" by (simp only: fips_zeros_def mod_add_self2)
  with True show ?thesis by simp
next
  case False
  then have "119 - l mod 64 < 64" by linarith
  with False show ?thesis by (simp add: fips_zeros_def)
qed

lemma sha256_tail_eq:
  fixes data :: bytes
  defines "r \<equiv> chunks_remainder 64 data"
  shows "sha256_tail data = r @ [0x80] @ replicate (fips_zeros (length data)) 0
    @ to_be_bytes64 (of_nat (8 * length data))"
proof -
  let ?l = "length r" and ?b = "to_be_bytes64 ((of_nat (length data) :: u64) * 8)"
  have l: "?l < 64" by (simp add: r_def)
  have start: "(write_at 0 r (replicate 128 0))[?l := 0x80] = (r @ [0x80]) @ replicate (127 - ?l) 0"
    using l by (simp add: write_at_def list_update_append Cons_replicate_eq
        flip: replicate_Suc) (cases "128 - ?l"; simp)
  define n where "n = (if ?l < 56 then 64 else 128 :: nat)"
  have n: "?l + 9 \<le> n" "n \<le> 128" using l by (auto simp: n_def)
  have zeros: "fips_zeros (length data) = n - 9 - ?l"
    using l by (auto simp: fips_zeros_eq r_def n_def)
  have split: "replicate (127 - ?l) (0 :: u8)
      = replicate (n - 9 - ?l) 0 @ replicate 8 0 @ replicate (128 - n) 0"
    using n by (simp flip: replicate_add)
  have at: "n - 8 = length ((r @ [0x80]) @ replicate (n - 9 - ?l) (0 :: u8))"
    using n by simp
  have "write_at (n - 8) ?b ((r @ [0x80]) @ replicate (127 - ?l) 0)
      = ((r @ [0x80]) @ replicate (n - 9 - ?l) 0) @ ?b @ replicate (128 - n) 0"
    unfolding split at by (subst append_assoc [symmetric], rule write_at_exact) simp
  moreover have "take n (((r @ [0x80]) @ replicate (n - 9 - ?l) 0) @ ?b @ replicate (128 - n) 0)
      = ((r @ [0x80]) @ replicate (n - 9 - ?l) 0) @ ?b"
    by (subst append_assoc [symmetric], rule take_exact) (use n in simp)
  moreover have "sha256_tail data
      = take n (write_at (n - 8) ?b ((write_at 0 r (replicate 128 0))[?l := 0x80]))"
    by (simp only: sha256_tail_def Let_def n_def r_def)
  ultimately have "sha256_tail data = ((r @ [0x80]) @ replicate (n - 9 - ?l) 0) @ ?b"
    by (simp only: start)
  then show ?thesis by (simp add: zeros mult.commute)
qed

lemma length_sha256_tail: "length (sha256_tail data) mod 64 = 0"
proof -
  have "length data mod 64 < 64" by simp
  then have "length (sha256_tail data) = 64 \<or> length (sha256_tail data) = 128"
    by (auto simp: sha256_tail_eq fips_zeros_eq)
  then show ?thesis by auto
qed

lemma fips_pad_blocks:
  "chunks_exact 64 (fips_pad data) = chunks_exact 64 data @ chunks_exact 64 (sha256_tail data)"
proof -
  obtain full where full: "data = full @ chunks_remainder 64 data" "length full mod 64 = 0"
    by (rule chunks_split)
  have "fips_pad data = data @ drop (length (chunks_remainder 64 data)) (sha256_tail data)"
    by (simp only: fips_pad_def sha256_tail_eq append_eq_conv_conj) simp
  also have "\<dots> = full @ chunks_remainder 64 data
      @ drop (length (chunks_remainder 64 data)) (sha256_tail data)"
    by (subst full(1)) simp
  also have "\<dots> = full @ sha256_tail data"
    by (simp only: sha256_tail_eq append_eq_conv_conj) simp
  finally have "fips_pad data = full @ sha256_tail data" .
  moreover have "chunks_exact 64 data = chunks_exact 64 full"
    by (subst full(1)) (simp add: chunks_exact_append [OF _ full(2)])
  ultimately show ?thesis
    by (simp add: chunks_exact_append [OF _ full(2)])
qed

lemma fold_block_fips:
  "fold (\<lambda>block h. sha256_block h block) (chunks_exact 64 xs) h
   = foldl fips_compress h (chunks_exact 64 xs)"
proof -
  have "(\<And>c. c \<in> set cs \<Longrightarrow> length c = 64)
    \<Longrightarrow> fold (\<lambda>block h. sha256_block h block) cs h = foldl fips_compress h cs" for cs
    by (induction cs arbitrary: h) (simp_all add: sha256_block_fips)
  then show ?thesis using chunks_exact_elem by blast
qed

text \<open>The code computes the standard's function, on every input.\<close>

lemma sha256_eq_fips: "sha256 data = fips_sha256 data"
  by (simp add: sha256_def fips_sha256_def Let_def fips_pad_blocks fold_block_fips)

lemma length_fips_compress: "length H = 8 \<Longrightarrow> length (fips_compress H b) = 8"
proof -
  have "length (list_of_regs r) = 8" for r
    by (cases r rule: list_of_regs.cases) simp
  then show "length H = 8 \<Longrightarrow> length (fips_compress H b) = 8"
    by (simp add: fips_compress_def Let_def)
qed

lemma length_sha256 [simp]: "length (sha256 data) = 32"
proof -
  have "length H = 8 \<Longrightarrow> length (foldl fips_compress H bs) = 8" for H bs
    by (induction bs arbitrary: H) (simp_all add: length_fips_compress)
  moreover have "length (concat (map to_be_bytes32 ws)) = 4 * length ws" for ws
    by (induction ws) (simp_all add: to_be_bytes32_def)
  ultimately show ?thesis
    by (simp add: sha256_eq_fips fips_sha256_def sha256_init_def)
qed

text \<open>
  C27: The hash the verification commitment is computed with is SHA-256: on every input it returns
  what the FIPS 180-4 reference (padding, message schedule, compression, big-endian output)
  returns, which is 32 bytes.
\<close>

theorem sha256_is_fips_180_4:
  "sha256 data = fips_sha256 data \<and> length (sha256 data) = 32"
  by (simp add: sha256_eq_fips del: length_sha256) (simp flip: sha256_eq_fips)

end
