(* ===== verification/Recovery_Key.thy ===== *)
theory Recovery_Key
  imports Rust_Text Sha256
begin

text \<open>
  The recovery key decoder of \<open>crypto.rs\<close>: \<open>base58_digit\<close>, \<open>base58_decode\<close> and
  \<open>decode_recovery_key\<close>, with the arithmetic at the widths of the code (bytes accumulated
  little-endian in \<open>u8\<close>, a \<open>u32\<close> carry), followed by the positional-number facts that say what
  the loop computes and the reference encoder a Matrix client shows the key with.
\<close>

section \<open>The code\<close>

definition BASE58_ALPHABET :: string where
  "BASE58_ALPHABET = ''123456789ABCDEFGHJKLMNPQRSTUVWXYZabcdefghijkmnopqrstuvwxyz''"

definition RECOVERY_KEY_PREFIX :: bytes where
  "RECOVERY_KEY_PREFIX = [0x8b, 0x01]"

definition RECOVERY_KEY_LEN :: nat where
  "RECOVERY_KEY_LEN = 35"

text \<open>The messages of the decoder's errors, one constructor for each.\<close>

datatype key_error =
    KeyEmpty
  | KeyBadChar nat
  | KeyWrongLength nat
  | KeyWrongPrefix u8 u8
  | KeyBadParity

fun show_key_error :: "key_error \<Rightarrow> string" where
  "show_key_error KeyEmpty = ''recovery key is empty''"
| "show_key_error (KeyBadChar c) = [CHR 0x27] @ utf8_char c @ [CHR 0x27] @ '' is not a valid base58 character''"
| "show_key_error (KeyWrongLength n) =
     ''recovery key decodes to '' @ show_nat n @ '' bytes, expected '' @ show_nat RECOVERY_KEY_LEN
       @ '': a character is missing or one too many''"
| "show_key_error (KeyWrongPrefix a b) =
     ''recovery key starts with '' @ hex2 (unat a) @ hex2 (unat b)
       @ '', expected 8b01: this is not a Matrix recovery key''"
| "show_key_error KeyBadParity =
     ''recovery key fails its parity check: at least one character is mistyped''"

text \<open>\<open>iter().position\<close>\<close>

fun position :: "('a \<Rightarrow> bool) \<Rightarrow> 'a list \<Rightarrow> nat option" where
  "position P [] = None"
| "position P (x # xs) = (if P x then Some 0 else map_option Suc (position P xs))"

definition base58_digit :: "nat \<Rightarrow> key_error + u8" where
  "base58_digit c =
     (if c < 128 then
        (case position (\<lambda>a. byte_val a = c) BASE58_ALPHABET of
           Some d \<Rightarrow> Inr (of_nat d)
         | None \<Rightarrow> Inl (KeyBadChar c))
      else Inl (KeyBadChar c))"

text \<open>The inner \<open>for byte in out.iter_mut()\<close> loop, and the carry it leaves.\<close>

fun b58_mul_add :: "u32 \<Rightarrow> bytes \<Rightarrow> bytes \<times> u32" where
  "b58_mul_add carry [] = ([], carry)"
| "b58_mul_add carry (b # bs) =
     (let acc = ucast b * 58 + carry;
          (bs', carry') = b58_mul_add (drop_bit 8 acc) bs
      in (ucast (acc AND 0xff) # bs', carry'))"

lemma unat_shift8 [simp]: "unat (drop_bit 8 w :: 'a::len word) = unat w div 256"
  by (subst unat_drop_bit_eq) (simp add: drop_bit_eq_div)

lemma unat_u8 [simp]: "unat (b :: u8) < 256"
  using unsigned_less [of b] by simp

lemma unat_u8_le: "unat (b :: u8) \<le> 255"
  using unat_u8 [of b] by linarith

text \<open>\<open>while carry != 0\<close>\<close>

function b58_push_carry :: "u32 \<Rightarrow> bytes" where
  "b58_push_carry carry =
     (if carry = 0 then [] else ucast (carry AND 0xff) # b58_push_carry (drop_bit 8 carry))"
  by pat_completeness auto
termination
proof (relation "measure unat")
  fix carry :: u32 assume "carry \<noteq> 0"
  then have "0 < unat carry" by (simp add: unat_gt_0)
  then show "(drop_bit 8 carry, carry) \<in> measure unat"
    by (simp only: in_measure unat_shift8)
qed simp

declare b58_push_carry.simps [simp del]

fun b58_loop :: "bytes \<Rightarrow> nat list \<Rightarrow> key_error + bytes" where
  "b58_loop out [] = Inr out"
| "b58_loop out (c # cs) =
     (case base58_digit c of
        Inl e \<Rightarrow> Inl e
      | Inr d \<Rightarrow>
          (let (out', carry) = b58_mul_add (ucast d) out
           in b58_loop (out' @ b58_push_carry carry) cs))"

definition base58_decode :: "string \<Rightarrow> key_error + bytes" where
  "base58_decode s =
     (case b58_loop [] (chars s) of
        Inl e \<Rightarrow> Inl e
      | Inr out \<Rightarrow>
          (let leading = length (takeWhile (\<lambda>c. c = CHR ''1'') s)
           in Inr (rev (out @ replicate leading 0))))"

definition compact_key :: "string \<Rightarrow> string" where
  "compact_key s = utf8 (filter (\<lambda>c. \<not> is_whitespace c) (chars s))"

definition decode_recovery_key :: "string \<Rightarrow> key_error + bytes" where
  "decode_recovery_key s =
     (let compact = compact_key s in
      if compact = [] then Inl KeyEmpty
      else case base58_decode compact of
        Inl e \<Rightarrow> Inl e
      | Inr bs \<Rightarrow>
          if length bs \<noteq> RECOVERY_KEY_LEN then Inl (KeyWrongLength (length bs))
          else if take 2 bs \<noteq> RECOVERY_KEY_PREFIX then Inl (KeyWrongPrefix (bs ! 0) (bs ! 1))
          else if fold (XOR) bs 0 \<noteq> 0 then Inl KeyBadParity
          else Inr (take 32 (drop 2 bs)))"

section \<open>Positional numbers\<close>

fun le_val :: "nat \<Rightarrow> nat list \<Rightarrow> nat" where
  "le_val b [] = 0"
| "le_val b (d # ds) = d + b * le_val b ds"

definition canonical :: "nat \<Rightarrow> nat list \<Rightarrow> bool" where
  "canonical b ds \<longleftrightarrow> list_all (\<lambda>d. d < b) ds \<and> (ds \<noteq> [] \<longrightarrow> last ds \<noteq> 0)"

lemma le_val_append: "le_val b (xs @ ys) = le_val b xs + b ^ length xs * le_val b ys"
  by (induction xs) (simp_all add: algebra_simps)

lemma le_val_zero: "canonical b ds \<Longrightarrow> 0 < b \<Longrightarrow> le_val b ds = 0 \<Longrightarrow> ds = []"
proof (induction ds)
  case (Cons d ds)
  then show ?case by (cases "ds = []") (auto simp: canonical_def)
qed simp

lemma canonical_ConsD: "canonical b (d # ds) \<Longrightarrow> canonical b ds"
  by (cases "ds = []") (auto simp: canonical_def)

text \<open>A number has one canonical digit list in each base.\<close>

lemma le_val_inj:
  assumes "canonical b xs" "canonical b ys" "le_val b xs = le_val b ys" "1 < b"
  shows "xs = ys"
  using assms(1-3)
proof (induction xs arbitrary: ys)
  case Nil
  then show ?case using le_val_zero [of b ys] assms(4) by simp
next
  case (Cons x xs)
  show ?case
  proof (cases ys)
    case Nil
    with Cons show ?thesis using le_val_zero [of b "x # xs"] assms(4) by simp
  next
    case (Cons y zs)
    have x: "x < b" "y < b" using Cons.prems Cons by (auto simp: canonical_def)
    have "(x + b * le_val b xs) mod b = (y + b * le_val b zs) mod b"
      "(x + b * le_val b xs) div b = (y + b * le_val b zs) div b"
      using Cons.prems Cons by simp_all
    with x have "x = y" "le_val b xs = le_val b zs" by simp_all
    moreover from this have "xs = zs"
      using Cons.prems Cons by (blast intro: Cons.IH canonical_ConsD)
    ultimately show ?thesis using Cons by simp
  qed
qed

section \<open>What the loop computes\<close>

lemma low_byte: "unat (ucast (w AND 0xff) :: u8) = unat (w :: u32) mod 256"
proof -
  have "(0xff :: u32) = mask 8" by (simp add: mask_eq_exp_minus_1)
  then have "w AND 0xff = take_bit 8 w" by (simp only: take_bit_eq_mask)
  then have "unat (ucast (w AND 0xff) :: u8) = take_bit 8 (take_bit 8 (unat w))"
    by (simp only: unsigned_ucast_eq unsigned_take_bit_eq) simp
  then show ?thesis by (simp add: take_bit_eq_mod)
qed

lemma unat_acc:
  assumes "unat (carry :: u32) < 58"
  shows "unat (ucast (b :: u8) * 58 + carry) = unat b * 58 + unat carry"
proof -
  have "unat b * 58 + unat carry < 2 ^ 32" using assms unat_u8_le [of b] by simp
  moreover have "unat (ucast b :: u32) = unat b" by (simp add: unsigned_ucast_eq take_bit_eq_mod unat_u8 [THEN less_trans])
  ultimately show ?thesis by (simp add: unat_word_ariths)
qed

text \<open>The carry never leaves the range of a base58 digit, so the \<open>u32\<close> never wraps.\<close>

lemma b58_mul_add_spec:
  assumes "b58_mul_add carry bs = (bs', carry')" "unat carry < 58"
  shows "unat carry' < 58 \<and> length bs' = length bs
    \<and> le_val 256 (map unat bs') + 256 ^ length bs * unat carry'
      = 58 * le_val 256 (map unat bs) + unat carry"
  using assms
proof (induction carry bs arbitrary: bs' carry' rule: b58_mul_add.induct)
  case (2 carry b bs)
  define acc where "acc = ucast b * 58 + carry"
  have acc: "unat acc = unat b * 58 + unat carry"
    using 2 by (simp add: acc_def unat_acc)
  with unat_u8_le [of b] 2 have lt: "unat (drop_bit 8 acc) < 58"
    by (simp add: less_mult_imp_div_less)
  obtain cs where rest: "b58_mul_add (drop_bit 8 acc) bs = (cs, carry')"
    and bs': "bs' = ucast (acc AND 0xff) # cs"
    using 2 by (auto simp: Let_def acc_def split: prod.splits)
  have IH: "unat carry' < 58" "length cs = length bs"
    "le_val 256 (map unat cs) + 256 ^ length bs * unat carry'
      = 58 * le_val 256 (map unat bs) + unat acc div 256"
    using "2.IH" [OF acc_def rest lt] by simp_all
  have "le_val 256 (map unat bs') + 256 ^ length (b # bs) * unat carry'
      = unat acc mod 256 + 256 * (le_val 256 (map unat cs) + 256 ^ length bs * unat carry')"
    by (simp add: bs' low_byte algebra_simps)
  also have "\<dots> = unat acc mod 256 + 256 * (unat acc div 256) + 256 * (58 * le_val 256 (map unat bs))"
    by (simp only: IH) simp
  also have "\<dots> = 58 * le_val 256 (map unat (b # bs)) + unat carry"
    by (simp add: acc)
  finally show ?case using IH bs' by simp
qed simp

lemma b58_push_carry_spec:
  "le_val 256 (map unat (b58_push_carry c)) = unat c
   \<and> canonical 256 (map unat (b58_push_carry c))"
proof (induction c rule: b58_push_carry.induct)
  case (1 c)
  show ?case
  proof (cases "c = 0")
    case True
    then show ?thesis by (simp add: b58_push_carry.simps canonical_def)
  next
    case False
    let ?r = "b58_push_carry (drop_bit 8 c)"
    from 1 False have IH: "le_val 256 (map unat ?r) = unat c div 256" "canonical 256 (map unat ?r)"
      by simp_all
    have eq: "b58_push_carry c = ucast (c AND 0xff) # ?r"
      using False by (simp add: b58_push_carry.simps [of c])
    have "?r = [] \<Longrightarrow> unat c mod 256 \<noteq> 0"
    proof
      assume "?r = []" "unat c mod 256 = 0"
      with IH have "unat c = 0" by auto
      with False show False by (simp add: unat_eq_zero)
    qed
    with IH show ?thesis by (auto simp: eq low_byte canonical_def)
  qed
qed

lemma canonical_step:
  assumes bs: "canonical 256 (map unat bs)" and step: "b58_mul_add carry bs = (bs', carry')"
    and carry: "unat carry < 58"
  shows "canonical 256 (map unat (bs' @ b58_push_carry carry'))"
proof (cases "b58_push_carry carry' = []")
  case False
  with b58_push_carry_spec [of carry'] show ?thesis
    by (auto simp: canonical_def list_all_iff)
next
  case True
  then have zero: "unat carry' = 0" using b58_push_carry_spec [of carry'] by simp
  have "last (map unat bs') \<noteq> 0" if "bs' \<noteq> []"
    using bs step carry zero that
  proof (induction carry bs arbitrary: bs' rule: b58_mul_add.induct)
    case (2 carry b bs)
    define acc where "acc = ucast b * 58 + carry"
    have acc: "unat acc = unat b * 58 + unat carry"
      using 2 by (simp add: acc_def unat_acc)
    with unat_u8_le [of b] "2.prems" have lt: "unat (drop_bit 8 acc) < 58"
      by (simp add: less_mult_imp_div_less)
    obtain cs where rest: "b58_mul_add (drop_bit 8 acc) bs = (cs, carry')"
      and bs': "bs' = ucast (acc AND 0xff) # cs"
      using "2.prems" by (auto simp: Let_def acc_def split: prod.splits)
    show ?case
    proof (cases "bs = []")
      case True
      with rest have "unat acc div 256 = 0" "cs = []" using "2.prems" by auto
      moreover have "unat b \<noteq> 0" using "2.prems" True by (auto simp: canonical_def)
      ultimately have "unat acc mod 256 \<noteq> 0" using acc by (simp add: div_eq_0_iff)
      with bs' \<open>cs = []\<close> show ?thesis by (simp add: low_byte)
    next
      case False
      with rest b58_mul_add_spec [OF rest lt] have "cs \<noteq> []" by auto
      moreover have "canonical 256 (map unat bs)" using "2.prems" by (auto intro: canonical_ConsD)
      ultimately have "last (map unat cs) \<noteq> 0"
        using "2.IH" [OF acc_def _ rest lt] "2.prems" \<open>cs \<noteq> []\<close> by simp
      with bs' \<open>cs \<noteq> []\<close> show ?thesis by simp
    qed
  qed simp
  with True show ?thesis
    by (auto simp: canonical_def list_all_iff)
qed

section \<open>Base58 as a numeral system\<close>

text \<open>
  A digit list in base 58 and a byte list stand for each other when they have the same number of
  leading zeroes and the same value.
\<close>

definition b58_rep :: "nat list \<Rightarrow> bytes \<Rightarrow> bool" where
  "b58_rep ds bs \<longleftrightarrow> list_all (\<lambda>d. d < 58) ds
     \<and> length (takeWhile (\<lambda>d. d = 0) ds) = length (takeWhile (\<lambda>b. b = 0) bs)
     \<and> le_val 58 (rev ds) = le_val 256 (map unat (rev bs))"

definition base58_char :: "nat \<Rightarrow> char" where
  "base58_char d = BASE58_ALPHABET ! d"

lemma le_val_replicate_zero [simp]: "le_val b (replicate n 0) = 0"
  by (induction n) simp_all

lemma takeWhile_zero_split:
  "xs = replicate (length (takeWhile (\<lambda>d. d = 0) xs)) 0 @ dropWhile (\<lambda>d. d = 0) xs"
  by (induction xs) simp_all

lemma canonical_strip:
  "list_all (\<lambda>d. d < b) xs \<Longrightarrow> canonical b (rev (dropWhile (\<lambda>d. d = 0) xs))"
  using hd_dropWhile [of "\<lambda>d. d = 0" xs]
  by (auto simp: canonical_def list_all_iff last_rev dest: set_dropWhileD)

lemma le_val_strip: "le_val b (rev (dropWhile (\<lambda>d. d = 0) xs)) = le_val b (rev xs)"
proof -
  have "rev xs = rev (dropWhile (\<lambda>d. d = 0) xs) @ replicate (length (takeWhile (\<lambda>d. d = 0) xs)) 0"
    by (subst takeWhile_zero_split) (simp add: rev_append [symmetric])
  then show ?thesis by (simp add: le_val_append)
qed

lemma leading_zeros_unique:
  assumes "list_all (\<lambda>d. d < b) xs" "list_all (\<lambda>d. d < b) ys" "1 < b"
    and "length (takeWhile (\<lambda>d. d = 0) xs) = length (takeWhile (\<lambda>d. d = 0) ys)"
    and "le_val b (rev xs) = le_val b (rev ys)"
  shows "xs = ys"
proof -
  have "rev (dropWhile (\<lambda>d. d = 0) xs) = rev (dropWhile (\<lambda>d. d = 0) ys)"
    by (rule le_val_inj [of b]) (use assms in \<open>simp_all add: canonical_strip le_val_strip\<close>)
  then show ?thesis
    using takeWhile_zero_split [of xs] takeWhile_zero_split [of ys] assms(4) by simp
qed

lemma takeWhile_unat_zero:
  "length (takeWhile (\<lambda>b. b = 0) (bs :: bytes)) = length (takeWhile (\<lambda>d. d = 0) (map unat bs))"
  by (induction bs) (simp_all add: unat_eq_zero)

lemma b58_rep_bytes_unique: "b58_rep ds bs \<Longrightarrow> b58_rep ds cs \<Longrightarrow> bs = cs"
proof -
  assume "b58_rep ds bs" "b58_rep ds cs"
  then have "map unat bs = map unat cs"
    by (intro leading_zeros_unique [of 256])
       (simp_all add: b58_rep_def takeWhile_unat_zero rev_map list_all_iff)
  then show "bs = cs" by (rule map_injective) (simp add: inj_on_def word_unat_eq_iff)
qed

lemma b58_rep_digits_unique: "b58_rep ds bs \<Longrightarrow> b58_rep es bs \<Longrightarrow> ds = es"
  by (rule leading_zeros_unique [of 58]) (simp_all add: b58_rep_def)

text \<open>The reference encoder: division by 58, and a \<open>1\<close> for every leading zero byte.\<close>

fun le_digits58 :: "nat \<Rightarrow> nat list" where
  "le_digits58 n = (if n = 0 then [] else n mod 58 # le_digits58 (n div 58))"

declare le_digits58.simps [simp del]

definition base58_encode :: "bytes \<Rightarrow> string" where
  "base58_encode bs =
     map base58_char
       (replicate (length (takeWhile (\<lambda>b. b = 0) bs)) 0
        @ rev (le_digits58 (le_val 256 (map unat (rev bs)))))"

lemma le_digits58_spec: "le_val 58 (le_digits58 n) = n \<and> canonical 58 (le_digits58 n)"
proof (induction n rule: le_digits58.induct)
  case (1 n)
  show ?case
  proof (cases "n = 0")
    case True
    then show ?thesis by (simp add: le_digits58.simps canonical_def)
  next
    case False
    with 1 have IH: "le_val 58 (le_digits58 (n div 58)) = n div 58" "canonical 58 (le_digits58 (n div 58))"
      by simp_all
    have "le_digits58 (n div 58) = [] \<Longrightarrow> n mod 58 \<noteq> 0"
    proof
      assume "le_digits58 (n div 58) = []" "n mod 58 = 0"
      with IH have "n = 0" by auto
      with False show False by simp
    qed
    with IH False show ?thesis
      by (auto simp: le_digits58.simps [of n] canonical_def)
  qed
qed

lemma takeWhile_replicate_rev_canonical:
  assumes "canonical b ds"
  shows "length (takeWhile (\<lambda>d. d = 0) (replicate n 0 @ rev ds)) = n"
proof -
  have "takeWhile (\<lambda>d. d = 0) (rev ds) = []"
    using assms by (cases ds rule: rev_cases) (auto simp: canonical_def)
  then show ?thesis by (induction n) simp_all
qed

lemma base58_encode_rep: "\<exists>ds. base58_encode bs = map base58_char ds \<and> b58_rep ds bs"
proof (intro exI conjI)
  let ?ds = "replicate (length (takeWhile (\<lambda>b. b = 0) bs)) 0
        @ rev (le_digits58 (le_val 256 (map unat (rev bs))))"
  show "base58_encode bs = map base58_char ?ds" by (simp add: base58_encode_def)
  have "canonical 58 (le_digits58 (le_val 256 (map unat (rev bs))))"
    by (simp add: le_digits58_spec)
  then show "b58_rep ?ds bs"
    unfolding b58_rep_def
    by (intro conjI takeWhile_replicate_rev_canonical)
       (auto simp: canonical_def list_all_iff le_val_append le_digits58_spec)
qed

section \<open>The decoder against the numeral system\<close>

lemma length_BASE58 [simp]: "length BASE58_ALPHABET = 58"
  by (simp add: BASE58_ALPHABET_def)

lemma BASE58_distinct: "distinct BASE58_ALPHABET"
  by (simp add: BASE58_ALPHABET_def)

lemma BASE58_ascii: "ascii BASE58_ALPHABET"
  by (simp add: BASE58_ALPHABET_def ascii_def)

lemma base58_char_ascii: "d < 58 \<Longrightarrow> byte_val (base58_char d) < 128"
  using BASE58_ascii by (simp add: ascii_def base58_char_def list_all_length)

lemma position_Some:
  "position P xs = Some i \<longleftrightarrow> i < length xs \<and> P (xs ! i) \<and> (\<forall>j < i. \<not> P (xs ! j))"
proof (induction xs arbitrary: i)
  case (Cons x xs)
  show ?case by (cases i) (auto simp: Cons less_Suc_eq_0_disj nth_Cons split: nat.splits)
qed simp

lemma position_None: "position P xs = None \<longleftrightarrow> (\<forall>x \<in> set xs. \<not> P x)"
  by (induction xs) auto

lemma base58_digit_char [simp]:
  assumes "d < 58"
  shows "base58_digit (byte_val (base58_char d)) = Inr (of_nat d)"
proof -
  have "position (\<lambda>a. byte_val a = byte_val (base58_char d)) BASE58_ALPHABET = Some d"
    using assms nth_eq_iff_index_eq [OF BASE58_distinct]
    by (auto simp: position_Some base58_char_def)
  with assms show ?thesis by (simp add: base58_digit_def base58_char_ascii)
qed

lemma base58_digit_Inr:
  assumes "base58_digit c = Inr w"
  shows "unat w < 58 \<and> c = byte_val (base58_char (unat w))"
proof -
  from assms obtain d where d: "d < 58" "byte_val (base58_char d) = c" "w = of_nat d"
    by (auto simp: base58_digit_def position_Some base58_char_def split: if_splits option.splits)
  then have "unat w = d" by (simp add: unat_of_nat)
  with d show ?thesis by simp
qed

lemma base58_digit_Inl: "base58_digit c = Inl e \<Longrightarrow> e = KeyBadChar c"
  by (auto simp: base58_digit_def split: if_splits option.splits)

text \<open>
  A run of the loop over the codes of base58 digits never fails and multiplies the value in;
  the byte list it keeps is canonical.
\<close>

lemma list_all_tail: "list_all P (x # xs) \<Longrightarrow> list_all P xs"
  by simp

lemma b58_loop_digits:
  assumes "list_all (\<lambda>d. d < 58) ds" "canonical 256 (map unat out)"
  shows "\<exists>r. b58_loop out (map (byte_val \<circ> base58_char) ds) = Inr r
    \<and> canonical 256 (map unat r)
    \<and> le_val 256 (map unat r) = le_val 58 (rev ds) + 58 ^ length ds * le_val 256 (map unat out)"
  using assms
proof (induction ds arbitrary: out)
  case (Cons d ds)
  obtain bs' c' where step: "b58_mul_add (ucast (of_nat d :: u8)) out = (bs', c')"
    by (cases "b58_mul_add (ucast (of_nat d :: u8)) out")
  have d: "unat (ucast (of_nat d :: u8) :: u32) = d" "d < 58"
    using Cons.prems by (simp_all add: unsigned_ucast_eq unat_of_nat take_bit_eq_mod)
  let ?out = "bs' @ b58_push_carry c'"
  have can: "canonical 256 (map unat ?out)"
    using canonical_step [OF Cons.prems(2) step] d by simp
  have val: "le_val 256 (map unat ?out) = 58 * le_val 256 (map unat out) + d"
    using b58_mul_add_spec [OF step] d b58_push_carry_spec [of c'] by (simp add: le_val_append)
  obtain r where r: "b58_loop ?out (map (byte_val \<circ> base58_char) ds) = Inr r"
    "canonical 256 (map unat r)"
    "le_val 256 (map unat r) = le_val 58 (rev ds) + 58 ^ length ds * le_val 256 (map unat ?out)"
    using Cons.IH [OF list_all_tail [OF Cons.prems(1)] can] by blast
  have "b58_loop out (map (byte_val \<circ> base58_char) (d # ds)) = Inr r"
    using d step r(1) by simp
  moreover have "le_val 256 (map unat r)
      = le_val 58 (rev (d # ds)) + 58 ^ length (d # ds) * le_val 256 (map unat out)"
    unfolding r(3) val by (simp add: le_val_append algebra_simps)
  ultimately show ?case using r(2) by blast
qed simp

lemma b58_loop_chars:
  "b58_loop out cs = Inr r \<Longrightarrow> \<exists>ds. list_all (\<lambda>d. d < 58) ds \<and> cs = map (byte_val \<circ> base58_char) ds"
proof (induction out cs rule: b58_loop.induct)
  case (2 out c cs)
  obtain w where w: "base58_digit c = Inr w"
    using 2(2) by (cases "base58_digit c") simp_all
  obtain bs' c' where step: "b58_mul_add (ucast w) out = (bs', c')"
    by (cases "b58_mul_add (ucast w) out")
  have rest: "b58_loop (bs' @ b58_push_carry c') cs = Inr r"
    using 2(2) w step by simp
  obtain ds where "list_all (\<lambda>d. d < 58) ds" "cs = map (byte_val \<circ> base58_char) ds"
    using 2(1) [OF w step [symmetric] refl rest] by blast
  moreover obtain d where "d < 58" "c = byte_val (base58_char d)"
    using base58_digit_Inr [OF w] by blast
  ultimately have "list_all (\<lambda>d. d < 58) (d # ds) \<and> c # cs = map (byte_val \<circ> base58_char) (d # ds)"
    by simp
  then show ?case by (rule exI)
qed simp

lemma chars_base58: "list_all (\<lambda>d. d < 58) ds \<Longrightarrow> chars (map base58_char ds) = map (byte_val \<circ> base58_char) ds"
  by (subst chars_ascii) (auto simp: ascii_def list_all_iff base58_char_ascii)

lemma takeWhile_one:
  "list_all (\<lambda>d. d < 58) ds \<Longrightarrow>
   length (takeWhile (\<lambda>c. c = CHR ''1'') (map base58_char ds)) = length (takeWhile (\<lambda>d. d = 0) ds)"
proof (induction ds)
  case (Cons d ds)
  have "base58_char d = CHR ''1'' \<longleftrightarrow> d = 0"
    using nth_eq_iff_index_eq [OF BASE58_distinct, of d 0] Cons.prems
    by (simp add: base58_char_def) (simp add: BASE58_ALPHABET_def)
  with Cons show ?case by simp
qed simp

lemma base58_decode_digits:
  assumes "list_all (\<lambda>d. d < 58) ds"
  shows "\<exists>bs. base58_decode (map base58_char ds) = Inr bs \<and> b58_rep ds bs"
proof -
  obtain r where r: "b58_loop [] (map (byte_val \<circ> base58_char) ds) = Inr r"
    "canonical 256 (map unat r)" "le_val 256 (map unat r) = le_val 58 (rev ds)"
    using b58_loop_digits [OF assms, of "[]"] by (auto simp: canonical_def)
  let ?n = "length (takeWhile (\<lambda>d. d = 0) ds)"
  have "base58_decode (map base58_char ds) = Inr (rev (r @ replicate ?n 0))"
    using assms r(1) by (simp add: base58_decode_def chars_base58 takeWhile_one Let_def)
  moreover have "b58_rep ds (rev (r @ replicate ?n 0))"
    using assms r takeWhile_replicate_rev_canonical [OF r(2), of ?n]
    by (simp add: b58_rep_def takeWhile_unat_zero rev_map le_val_append)
  ultimately show ?thesis by blast
qed

lemma base58_decode_Inr:
  assumes "valid_utf8 s"
  shows "base58_decode s = Inr bs \<longleftrightarrow> s = base58_encode bs"
proof
  assume "base58_decode s = Inr bs"
  then obtain ds where ds: "list_all (\<lambda>d. d < 58) ds" "chars s = map (byte_val \<circ> base58_char) ds"
    using b58_loop_chars by (fastforce simp: base58_decode_def split: sum.splits)
  have "s = utf8 (chars s)" using assms by (simp add: valid_utf8_def)
  also have "\<dots> = utf8 (map byte_val (map base58_char ds))" by (simp add: ds)
  also have "\<dots> = map base58_char ds"
    by (rule utf8_of_ascii) (use ds in \<open>auto simp: ascii_def list_all_iff base58_char_ascii\<close>)
  finally have s: "s = map base58_char ds" .
  with \<open>base58_decode s = Inr bs\<close> base58_decode_digits [OF ds(1)] have "b58_rep ds bs" by auto
  moreover obtain es where "base58_encode bs = map base58_char es" "b58_rep es bs"
    using base58_encode_rep by blast
  ultimately show "s = base58_encode bs" using s b58_rep_digits_unique by auto
next
  assume s: "s = base58_encode bs"
  obtain es where es: "base58_encode bs = map base58_char es" "b58_rep es bs"
    using base58_encode_rep by blast
  then obtain cs where "base58_decode s = Inr cs" "b58_rep es cs"
    using base58_decode_digits [of es] s by (auto simp: b58_rep_def)
  with es(2) show "base58_decode s = Inr bs" by (metis b58_rep_bytes_unique)
qed

section \<open>Recovery keys\<close>

text \<open>The text a Matrix client shows for a backup key, without the blanks it groups it with.\<close>

definition recovery_parity :: "bytes \<Rightarrow> u8" where
  "recovery_parity k = fold (XOR) k (0x8b XOR 0x01)"

definition encode_recovery_key :: "bytes \<Rightarrow> string" where
  "encode_recovery_key k = base58_encode (RECOVERY_KEY_PREFIX @ k @ [recovery_parity k])"

lemma base58_encode_Nil [simp]: "base58_encode bs = [] \<longleftrightarrow> bs = []"
proof
  assume "base58_encode bs = []"
  then obtain ds where "ds = []" "b58_rep ds bs" using base58_encode_rep [of bs] by auto
  moreover have "b58_rep [] []" by (simp add: b58_rep_def)
  ultimately show "bs = []" by (metis b58_rep_bytes_unique)
qed (simp add: base58_encode_def le_digits58.simps)

lemma valid_compact_key: "valid_utf8 s \<Longrightarrow> valid_utf8 (compact_key s)"
  by (auto simp: compact_key_def valid_utf8_def list_all_iff chars_utf8 intro!: valid_utf8_utf8 [unfolded valid_utf8_def, THEN conjunct1, simplified list_all_iff])

lemma prefix_split:
  assumes "length bs = 35" "take 2 bs = RECOVERY_KEY_PREFIX"
  shows "bs = RECOVERY_KEY_PREFIX @ take 32 (drop 2 bs) @ [bs ! 34]"
proof -
  have "bs = take 2 bs @ take 32 (drop 2 bs) @ drop 32 (drop 2 bs)"
    by (simp only: append_take_drop_id)
  moreover have "drop 32 (drop 2 bs) = [bs ! 34]"
    using assms(1) by (simp add: Cons_nth_drop_Suc [symmetric, of 34 bs])
  ultimately show ?thesis using assms(2) by simp
qed

lemma xor_zero_iff: "a XOR b = 0 \<longleftrightarrow> a = (b :: 'a::len word)"
proof
  assume "a XOR b = 0"
  then have "(a XOR b) XOR b = 0 XOR b" by simp
  then show "a = b" by (simp add: xor.assoc)
qed simp

lemma fold_xor_parity:
  "fold (XOR) (RECOVERY_KEY_PREFIX @ k @ [p]) 0 = 0 \<longleftrightarrow> p = recovery_parity k"
proof -
  have "fold (XOR) (RECOVERY_KEY_PREFIX @ k @ [p]) 0 = p XOR fold (XOR) k (0x8b XOR 0x01)"
    by (simp add: RECOVERY_KEY_PREFIX_def)
  also have "\<dots> = 0 \<longleftrightarrow> p = recovery_parity k"
    unfolding recovery_parity_def by (rule xor_zero_iff)
  finally show ?thesis .
qed

lemma decode_recovery_key_Inr:
  "decode_recovery_key s = Inr k \<longleftrightarrow>
     length k = 32 \<and> base58_decode (compact_key s) = Inr (RECOVERY_KEY_PREFIX @ k @ [recovery_parity k])"
  (is "?L \<longleftrightarrow> ?R")
proof
  assume ?L
  then obtain bs where bs: "base58_decode (compact_key s) = Inr bs" "length bs = 35"
    "take 2 bs = RECOVERY_KEY_PREFIX" "fold (XOR) bs 0 = 0" "k = take 32 (drop 2 bs)"
    by (auto simp: decode_recovery_key_def Let_def RECOVERY_KEY_LEN_def split: sum.splits if_splits)
  have "bs = RECOVERY_KEY_PREFIX @ k @ [bs ! 34]"
    using prefix_split [OF bs(2,3)] bs(5) by simp
  moreover from this bs(4) have "bs ! 34 = recovery_parity k" by (metis fold_xor_parity)
  ultimately show ?R using bs by auto
next
  assume R: ?R
  let ?bs = "RECOVERY_KEY_PREFIX @ k @ [recovery_parity k]"
  have "compact_key s \<noteq> []"
    using R by (auto simp: base58_decode_def RECOVERY_KEY_PREFIX_def)
  moreover have "length ?bs = 35" "take 2 ?bs = RECOVERY_KEY_PREFIX" "take 32 (drop 2 ?bs) = k"
    using R by (simp_all add: RECOVERY_KEY_PREFIX_def)
  moreover have "fold (XOR) ?bs 0 = 0" by (simp only: fold_xor_parity)
  ultimately show ?L
    using R by (simp only: decode_recovery_key_def Let_def RECOVERY_KEY_LEN_def if_False sum.case if_True)
        simp
qed

text \<open>Blanks do not matter.\<close>

lemma compact_key_ascii_id:
  assumes "ascii s" "list_all (\<lambda>c. \<not> is_whitespace (byte_val c)) s"
  shows "compact_key s = s"
proof -
  have "filter (\<lambda>c. \<not> is_whitespace c) (map byte_val s) = map byte_val s"
    using assms(2) by (induction s) simp_all
  then show ?thesis by (simp add: compact_key_def chars_ascii assms(1) utf8_of_ascii)
qed

lemma base58_encode_plain:
  "ascii (base58_encode bs) \<and> list_all (\<lambda>c. \<not> is_whitespace (byte_val c)) (base58_encode bs)"
proof -
  obtain ds where ds: "base58_encode bs = map base58_char ds" "list_all (\<lambda>d. d < 58) ds"
    using base58_encode_rep [of bs] by (auto simp: b58_rep_def)
  have "list_all (\<lambda>c. \<not> is_whitespace (byte_val c)) BASE58_ALPHABET"
    by (simp add: BASE58_ALPHABET_def is_whitespace_def)
  with ds show ?thesis
    using base58_char_ascii by (auto simp: ascii_def list_all_iff base58_char_def)
qed

section \<open>Properties\<close>

text \<open>
  C30: The recovery key decoder accepts a text exactly when, without its blanks, it is the base58
  text of the prefix 8b01, a 32 byte key and the parity byte of the two, and it then returns that
  key. So every key has one accepted spelling, no accepted text is ambiguous, and a key printed
  by a Matrix client is read back as it was.
\<close>

theorem recovery_key_accepts_exactly:
  assumes "valid_utf8 s"
  shows "decode_recovery_key s = Inr k \<longleftrightarrow> length k = 32 \<and> compact_key s = encode_recovery_key k"
  using base58_decode_Inr [OF valid_compact_key [OF assms]]
  by (auto simp: decode_recovery_key_Inr encode_recovery_key_def)

theorem recovery_key_accepts_exactly_witness:
  "decode_recovery_key (encode_recovery_key (replicate 32 7)) = Inr (replicate 32 7)"
proof -
  let ?s = "encode_recovery_key (replicate 32 7)"
  have plain: "ascii ?s" "compact_key ?s = ?s"
    using base58_encode_plain by (simp_all add: encode_recovery_key_def compact_key_ascii_id)
  show ?thesis
    by (subst recovery_key_accepts_exactly [OF valid_utf8_ascii [OF plain(1)]]) (simp add: plain(2))
qed

end
