(* ===== verification/Crypto_Lib.thy ===== *)
theory Crypto_Lib
  imports Seal Json Model Sha256 Recovery_Key Store
begin

text \<open>
  What the cryptographic component is built on: the operations of vodozemac, base64 and the random
  generator as a record of functions over an opaque carrier, the state of \<open>Crypto\<close> and of one
  verification in flight, and the JSON objects the component puts on the wire.
\<close>

section \<open>The library underneath\<close>

text \<open>
  \<open>'k\<close> stands for every opaque value of vodozemac: accounts, sessions, keys, messages. An operation
  that takes \<open>&mut self\<close> returns the value it leaves behind, also where it fails; one that draws
  randomness takes the number of draws made before. Errors are the text they render to.
\<close>

datatype 'k olm_message = PreKey 'k | Normal 'k

record 'k crypto_lib =
  acc_new :: "nat \<Rightarrow> 'k"
  acc_curve :: "'k \<Rightarrow> string"
  acc_ed :: "'k \<Rightarrow> string"
  acc_max_otks :: "'k \<Rightarrow> nat"
  acc_generate :: "nat \<Rightarrow> nat \<Rightarrow> 'k \<Rightarrow> 'k"
  acc_otks :: "'k \<Rightarrow> (64 word \<times> string) list"
  acc_sign :: "'k \<Rightarrow> string \<Rightarrow> string"
  acc_published :: "'k \<Rightarrow> 'k"
  acc_pickle :: "string \<Rightarrow> 'k \<Rightarrow> string"
  acc_unpickle :: "string \<Rightarrow> string \<Rightarrow> string + 'k"
  acc_inbound :: "'k \<Rightarrow> 'k \<Rightarrow> 'k \<Rightarrow> (string + 'k \<times> string) \<times> 'k"
  acc_outbound :: "nat \<Rightarrow> 'k \<Rightarrow> 'k \<Rightarrow> 'k \<Rightarrow> string + 'k"
  key_id_base64 :: "64 word \<Rightarrow> string"
  curve_parse :: "string \<Rightarrow> string + 'k"
  olm_parse :: "64 word \<Rightarrow> string \<Rightarrow> string + 'k olm_message"
  sess_id :: "'k \<Rightarrow> string"
  sess_pickle :: "string \<Rightarrow> 'k \<Rightarrow> string"
  sess_unpickle :: "string \<Rightarrow> string \<Rightarrow> string + 'k"
  sess_decrypt :: "'k \<Rightarrow> 'k olm_message \<Rightarrow> (string + string) \<times> 'k"
  sess_encrypt :: "nat \<Rightarrow> 'k \<Rightarrow> string \<Rightarrow> (string + 64 word \<times> string) \<times> 'k"
  megolm_parse :: "string \<Rightarrow> string + 'k"
  key_parse :: "string \<Rightarrow> string + 'k"
  exported_parse :: "string \<Rightarrow> string + 'k"
  in_new :: "'k \<Rightarrow> 'k"
  in_import :: "'k \<Rightarrow> 'k"
  in_of_out :: "'k \<Rightarrow> 'k"
  in_id :: "'k \<Rightarrow> string"
  in_first :: "'k \<Rightarrow> 32 word"
  in_decrypt :: "'k \<Rightarrow> 'k \<Rightarrow> (string + string) \<times> 'k"
  in_pickle :: "string \<Rightarrow> 'k \<Rightarrow> string"
  in_unpickle :: "string \<Rightarrow> string \<Rightarrow> string + 'k"
  out_new :: "nat \<Rightarrow> 'k"
  out_id :: "'k \<Rightarrow> string"
  out_key :: "'k \<Rightarrow> string"
  out_index :: "'k \<Rightarrow> 32 word"
  out_encrypt :: "'k \<Rightarrow> string \<Rightarrow> string \<times> 'k"
  out_pickle :: "string \<Rightarrow> 'k \<Rightarrow> string"
  out_unpickle :: "string \<Rightarrow> string \<Rightarrow> string + 'k"
  pk_from_key :: "string \<Rightarrow> 'k"
  pk_public :: "'k \<Rightarrow> string"
  pk_message :: "string \<Rightarrow> string \<Rightarrow> string \<Rightarrow> string + 'k"
  pk_decrypt :: "'k \<Rightarrow> 'k \<Rightarrow> string + string"
  sas_new :: "nat \<Rightarrow> 'k"
  sas_public :: "'k \<Rightarrow> string"
  sas_dh :: "'k \<Rightarrow> string \<Rightarrow> string + 'k"
  est_emoji :: "'k \<Rightarrow> string \<Rightarrow> nat list"
  est_mac :: "'k \<Rightarrow> string \<Rightarrow> string \<Rightarrow> string"
  mac_parse :: "string \<Rightarrow> string + 'k"
  est_verify :: "'k \<Rightarrow> string \<Rightarrow> string \<Rightarrow> 'k \<Rightarrow> bool"
  voz_encode :: "string \<Rightarrow> string"
  voz_decode :: "string \<Rightarrow> string + string"
  std_encode :: "string \<Rightarrow> string"
  std_decode :: "string \<Rightarrow> string + string"
  no_pad_decode :: "string \<Rightarrow> string + string"
  random_key :: "nat \<Rightarrow> string"
  random_u64 :: "nat \<Rightarrow> 64 word"
  instant_ms :: "nat \<Rightarrow> nat"
  text_error :: "string \<Rightarrow> string"
  db_cipher :: cipher_lib
  serde :: json_lib

text \<open>\<open>.context(c)\<close> on a result of the library.\<close>

definition with_context :: "string \<Rightarrow> string + 'a \<Rightarrow> 'a result" where
  "with_context c r = (case r of Inl e \<Rightarrow> Inl (Context c (Msg e)) | Inr x \<Rightarrow> Inr x)"

text \<open>\<open>.ok_or_else(|| anyhow!(m))\<close>.\<close>

definition ok_or :: "string \<Rightarrow> 'a option \<Rightarrow> 'a result" where
  "ok_or m x = (case x of None \<Rightarrow> Inl (Msg m) | Some y \<Rightarrow> Inr y)"

lemma with_context_simps [simp]:
  "with_context c (Inl e) = Inl (Context c (Msg e))" "with_context c (Inr x) = Inr x"
  "with_context c r = Inr x \<longleftrightarrow> r = Inr x"
  by (simp_all add: with_context_def split: sum.split)

lemma ok_or_simps [simp]:
  "ok_or m None = Inl (Msg m)" "ok_or m (Some x) = Inr x" "ok_or m r = Inr x \<longleftrightarrow> r = Some x"
  by (simp_all add: ok_or_def split: option.split)

section \<open>State\<close>

definition OLM_ALGORITHM :: string where
  "OLM_ALGORITHM = ''m.olm.v1.curve25519-aes-sha2''"

definition MEGOLM_ALGORITHM :: string where
  "MEGOLM_ALGORITHM = ''m.megolm.v1.aes-sha2''"

definition OTK_TARGET :: nat where
  "OTK_TARGET = 50"

definition KIND_ACCOUNT :: string where "KIND_ACCOUNT = ''account''"
definition KIND_OLM :: string where "KIND_OLM = ''olm''"
definition KIND_MEGOLM_IN :: string where "KIND_MEGOLM_IN = ''megolm_in''"
definition KIND_MEGOLM_OUT :: string where "KIND_MEGOLM_OUT = ''megolm_out''"
definition PICKLE_KEY_META :: string where "PICKLE_KEY_META = ''pickle_key''"
definition BACKUP_KEY_META :: string where "BACKUP_KEY_META = ''backup_key''"
definition SAS_METHOD :: string where "SAS_METHOD = ''m.sas.v1''"
definition KEY_AGREEMENT_PROTOCOL :: string where "KEY_AGREEMENT_PROTOCOL = ''curve25519-hkdf-sha256''"
definition SAS_HASH :: string where "SAS_HASH = ''sha256''"
definition MAC_METHOD :: string where "MAC_METHOD = ''hkdf-hmac-sha256.v2''"
definition SAS_EMOJI_STRING :: string where "SAS_EMOJI_STRING = ''emoji''"
definition MEGOLM_BACKUP_SECRET :: string where "MEGOLM_BACKUP_SECRET = ''m.megolm_backup.v1''"

text \<open>In milliseconds.\<close>

definition VERIFICATION_TIMEOUT :: nat where
  "VERIFICATION_TIMEOUT = 600 * 1000"

record device_info =
  di_user_id :: string
  di_device_id :: string
  di_curve_key :: string
  di_ed_key :: string

text \<open>What the daemon has to do after an event of a verification, and after an Olm event.\<close>

record verify_step =
  vs_send :: "(string \<times> string \<times> json) list"
  vs_emoji :: "(string \<times> string \<times> nat list) option"
  vs_done :: "string option"
  vs_cancelled :: "string option"

definition quiet_step :: verify_step where
  "quiet_step = \<lparr>vs_send = [], vs_emoji = None, vs_done = None, vs_cancelled = None\<rparr>"

datatype to_device_outcome = Secret (secret_name: string) (secret_text: string) (secret_id: string)

record 'k verification =
  vf_their_user :: string
  vf_their_device :: string
  vf_created :: nat
  vf_sas :: "'k option"
  vf_our_public_key :: "string option"
  vf_start :: "json option"
  vf_their_public_key :: "string option"
  vf_established :: "'k option"
  vf_we_sent_mac :: bool
  vf_they_sent_mac :: bool
  vf_we_sent_done :: bool
  vf_they_sent_done :: bool

definition new_verification :: "nat \<Rightarrow> string \<Rightarrow> string \<Rightarrow> 'k verification" where
  "new_verification now user device =
     \<lparr>vf_their_user = user, vf_their_device = device, vf_created = now, vf_sas = None, vf_our_public_key = None,
      vf_start = None, vf_their_public_key = None, vf_established = None, vf_we_sent_mac = False,
      vf_they_sent_mac = False, vf_we_sent_done = False, vf_they_sent_done = False\<rparr>"

definition complete :: "'k verification \<Rightarrow> bool" where
  "complete v \<longleftrightarrow> vf_we_sent_mac v \<and> vf_they_sent_mac v \<and> vf_we_sent_done v \<and> vf_they_sent_done v"

text \<open>
  The state of \<open>Crypto\<close>. The last two fields count the draws made from the random generator and the
  readings of the monotonic clock.
\<close>

record 'k crypto =
  k_account :: 'k
  k_pickle_key :: string
  k_inbound :: "string \<Rightarrow> 'k option"
  k_outbound :: "string \<Rightarrow> 'k option"
  k_olm_sessions :: "string \<Rightarrow> 'k list option"
  k_known_devices :: "string \<Rightarrow> (string \<times> string) option"
  k_backup_key :: "'k option"
  k_device_ed_keys :: "string \<times> string \<Rightarrow> string option"
  k_verifications :: "string \<Rightarrow> 'k verification option"
  k_secret_requests :: "string \<Rightarrow> string option"
  k_draws :: nat
  k_reads :: nat

section \<open>Objects on the wire\<close>

definition signatures_for :: "string \<Rightarrow> string \<Rightarrow> string \<Rightarrow> json" where
  "signatures_for user device signature =
     obj [(user, obj [(''ed25519:'' @ device, JStr signature)])]"

definition one_time_key_value :: "json \<Rightarrow> string option" where
  "one_time_key_value v = (case v of JStr s \<Rightarrow> Some s | other \<Rightarrow> get_str ''key'' other)"

definition room_key_envelope :: "json \<Rightarrow> string \<Rightarrow> string \<Rightarrow> string \<Rightarrow> device_info \<Rightarrow> json" where
  "room_key_envelope content our_user our_device our_ed d =
     obj [(''content'', content), (''keys'', obj [(''ed25519'', JStr our_ed)]),
          (''recipient'', JStr (di_user_id d)), (''recipient_keys'', obj [(''ed25519'', JStr (di_ed_key d))]),
          (''sender'', JStr our_user), (''sender_device'', JStr our_device), (''type'', JStr ''m.room_key'')]"

definition olm_to_device_content :: "string \<Rightarrow> string \<Rightarrow> 64 word \<Rightarrow> string \<Rightarrow> json" where
  "olm_to_device_content our_curve their_curve message_type body =
     obj [(''algorithm'', JStr OLM_ALGORITHM),
          (''ciphertext'', obj [(their_curve, obj [(''body'', JStr body), (''type'', JU64 message_type)])]),
          (''sender_key'', JStr our_curve)]"

definition claim_body :: "device_info list \<Rightarrow> json" where
  "claim_body devices =
     (let users = fold (\<lambda>d users.
            let entry = (case bt_get users (di_user_id d) of None \<Rightarrow> [] | Some m \<Rightarrow> m)
            in bt_insert (di_user_id d) (bt_insert (di_device_id d) (JStr ''signed_curve25519'') entry) users)
          devices []
      in obj [(''one_time_keys'', JObj (map (\<lambda>(u, m). (u, JObj m)) users))])"

definition device_key_ids :: "string \<Rightarrow> string \<times> json \<Rightarrow> device_info option" where
  "device_key_ids user di =
     (case get_obj ''keys'' (snd di) of
        None \<Rightarrow> None
      | Some keys \<Rightarrow>
         (case (Option.bind (bt_get keys (''curve25519:'' @ fst di)) as_str,
                Option.bind (bt_get keys (''ed25519:'' @ fst di)) as_str) of
            (Some curve, Some ed) \<Rightarrow>
              Some \<lparr>di_user_id = user, di_device_id = fst di, di_curve_key = curve, di_ed_key = ed\<rparr>
          | _ \<Rightarrow> None))"

definition parse_device_keys :: "json \<Rightarrow> device_info list" where
  "parse_device_keys keys_query =
     (case get_obj ''device_keys'' keys_query of
        None \<Rightarrow> []
      | Some users \<Rightarrow>
          concat (map (\<lambda>(user, devices).
            case as_object devices of
              None \<Rightarrow> []
            | Some ds \<Rightarrow> List.map_filter (device_key_ids user) ds) users))"

definition mac_info :: "string \<Rightarrow> string \<Rightarrow> string \<Rightarrow> string \<Rightarrow> string \<Rightarrow> string" where
  "mac_info sender_user sender_device other_user other_device transaction =
     ''MATRIX_KEY_VERIFICATION_MAC'' @ sender_user @ sender_device @ other_user @ other_device @ transaction"

text \<open>Bytes as the text type holds them, and as the hash does.\<close>

definition to_bytes :: "string \<Rightarrow> bytes" where
  "to_bytes = map (\<lambda>c. word_of_nat (byte_val c))"

definition of_bytes :: "bytes \<Rightarrow> string" where
  "of_bytes = map (\<lambda>b. byte (unat b))"

lemma of_to_bytes [simp]: "of_bytes (to_bytes s) = s"
  by (induction s) (simp_all add: of_bytes_def to_bytes_def unat_of_nat)

end
