(* ===== verification/Crypto_Demo.thy ===== *)
theory Crypto_Demo
  imports Crypto_Lib
begin

text \<open>
  One concrete instance of the cryptographic library, on which the properties that assume something
  of it are tried: keys and sessions are texts, pickles and base64 are reversible, and sessions never
  move.
\<close>

definition demo_crypto :: "string crypto_lib" where
  "demo_crypto = \<lparr>
     acc_new = (\<lambda>n. ''account''), acc_curve = (\<lambda>k. ''curve''), acc_ed = (\<lambda>k. ''ed''), acc_max_otks = (\<lambda>k. 100),
     acc_generate = (\<lambda>n m k. k), acc_otks = (\<lambda>k. [(7, ''otk'')]), acc_sign = (\<lambda>k t. ''signed''),
     acc_published = (\<lambda>k. k), acc_pickle = (\<lambda>key k. k), acc_unpickle = (\<lambda>key p. Inr p),
     acc_inbound = (\<lambda>a i p. (Inr (''olm'', p), a)), acc_outbound = (\<lambda>n a i k. Inr (i @ k)),
     key_id_base64 = (\<lambda>w. ''AAAB''), curve_parse = (\<lambda>t. Inr t), olm_parse = (\<lambda>t b. Inr (if t = 0 then PreKey b else Normal b)),
     sess_id = (\<lambda>k. k), sess_pickle = (\<lambda>key k. k), sess_unpickle = (\<lambda>key p. Inr p),
     sess_decrypt = (\<lambda>k m. (Inl ''not for us'', k)), sess_encrypt = (\<lambda>n k p. (Inr (1, p), k)),
     megolm_parse = (\<lambda>t. Inr t), key_parse = (\<lambda>t. Inr t), exported_parse = (\<lambda>t. Inr t),
     in_new = (\<lambda>k. k), in_import = (\<lambda>k. k), in_of_out = (\<lambda>k. k), in_id = (\<lambda>k. k), in_first = (\<lambda>k. 0),
     in_decrypt = (\<lambda>k m. (Inr m, k)), in_pickle = (\<lambda>key k. k), in_unpickle = (\<lambda>key p. Inr p),
     out_new = (\<lambda>n. ''session''), out_id = (\<lambda>k. k), out_key = (\<lambda>k. k), out_index = (\<lambda>k. 0),
     out_encrypt = (\<lambda>k p. (p, k)), out_pickle = (\<lambda>key k. k), out_unpickle = (\<lambda>key p. Inr p),
     pk_from_key = (\<lambda>b. b), pk_public = (\<lambda>k. ''public''), pk_message = (\<lambda>c m e. Inr c),
     pk_decrypt = (\<lambda>k m. Inr m), sas_new = (\<lambda>n. ''sas''), sas_public = (\<lambda>s. s), sas_dh = (\<lambda>s k. Inr (s @ k)),
     est_emoji = (\<lambda>e i. [0, 1, 2, 3, 4, 5, 6]), est_mac = (\<lambda>e a i. ''mac''), mac_parse = (\<lambda>t. Inr t),
     est_verify = (\<lambda>e a i m. True), voz_encode = (\<lambda>b. b), voz_decode = (\<lambda>t. Inr t),
     std_encode = (\<lambda>b. replicate (to_nat b) CHR ''1''), std_decode = (\<lambda>t. Inr (from_nat (length t))),
     no_pad_decode = (\<lambda>t. Inr (from_nat (length t))), random_key = (\<lambda>n. replicate 32 CHR ''k''),
     random_u64 = (\<lambda>n. of_nat n), instant_ms = (\<lambda>n. n), text_error = (\<lambda>t. ''invalid utf-8''),
     db_cipher = demo_cipher, serde = unary_json\<rparr>"

definition demo_state :: "string crypto" where
  "demo_state = \<lparr>k_account = ''account'', k_pickle_key = replicate 32 CHR ''k'', k_inbound = Map.empty,
     k_outbound = Map.empty, k_olm_sessions = Map.empty, k_known_devices = Map.empty, k_backup_key = None,
     k_device_ed_keys = Map.empty, k_verifications = Map.empty, k_secret_requests = Map.empty,
     k_draws = 0, k_reads = 0\<rparr>"

text \<open>A verification from the other side.\<close>

definition demo_start :: json where
  "demo_start = obj [(''from_device'', JStr ''D''), (''hashes'', JArr [JStr SAS_HASH]),
     (''key_agreement_protocols'', JArr [JStr KEY_AGREEMENT_PROTOCOL]),
     (''message_authentication_codes'', JArr [JStr MAC_METHOD]), (''method'', JStr SAS_METHOD),
     (''short_authentication_string'', JArr [JStr SAS_EMOJI_STRING]), (''transaction_id'', JStr ''t'')]"

definition demo_key :: json where
  "demo_key = obj [(''key'', JStr ''theirs''), (''transaction_id'', JStr ''t'')]"

definition demo_mac_content :: json where
  "demo_mac_content = obj [(''keys'', JStr ''mac''), (''mac'', obj [(''ed25519:D'', JStr ''mac'')]), (''transaction_id'', JStr ''t'')]"

definition demo_done :: json where
  "demo_done = obj [(''transaction_id'', JStr ''t'')]"

text \<open>An Olm event that carries a given event.\<close>

definition demo_olm_event :: "json \<Rightarrow> to_device_event" where
  "demo_olm_event e = \<lparr>td_kind = ''m.room.encrypted'', td_sender = ''@a:a.io'',
     td_content = obj [(''algorithm'', JStr OLM_ALGORITHM),
       (''ciphertext'', obj [(''curve'', obj [(''body'', JStr (json_print unary_json e)), (''type'', JInt 0)])]),
       (''sender_key'', JStr ''theirs'')]\<rparr>"

definition demo_room_key :: json where
  "demo_room_key = obj [(''content'', obj [(''algorithm'', JStr MEGOLM_ALGORITHM), (''room_id'', JStr ''!r''),
     (''session_key'', JStr ''sk'')]), (''sender'', JStr ''@a:a.io''), (''type'', JStr ''m.room_key'')]"

definition demo_secret :: json where
  "demo_secret = obj [(''content'', obj [(''request_id'', JStr ''q''), (''secret'', JStr ''s3cret'')]),
     (''sender'', JStr ''@a:a.io''), (''type'', JStr ''m.secret.send'')]"

definition demo_waiting :: "string crypto" where
  "demo_waiting = demo_state\<lparr>k_known_devices := [''theirs'' \<mapsto> (''@a:a.io'', ''D'')],
     k_secret_requests := [''q'' \<mapsto> MEGOLM_BACKUP_SECRET]\<rparr>"

end
