(* ===== verification/Crypto_State.thy ===== *)
theory Crypto_State
  imports Crypto_Lib
begin

text \<open>
  \<open>Crypto\<close> of \<open>crypto.rs\<close> without the verification: loading and creating the device's keys, the
  upload bodies, Olm and Megolm decryption, the sharing of room keys, the key backup and the secret
  requests. Operations act on the pair of the in-memory state and the store; one that returns early
  keeps what was done before. What is only logged is not modelled.
\<close>

type_synonym 'k cs = "'k crypto \<times> store"

definition from_result :: "'a result \<Rightarrow> ('s, 'a) action" where
  "from_result r s = (r, s)"

lemma from_result_simps [simp]: "snd (from_result r s) = s" "fst (from_result r s) = r"
  "and_then (from_result (Inr x)) f s = f x s" "and_then (from_result (Inl e)) f s = (Inl e, s)"
  by (simp_all add: from_result_def and_then_def)

section \<open>Loading and creating\<close>

definition load_pickle_key :: "'k crypto_lib \<Rightarrow> nat \<Rightarrow> (store, string) action" where
  "load_pickle_key V n s =
     (case get_meta (db_cipher V) PICKLE_KEY_META s of
        Inl e \<Rightarrow> (Inl e, s)
      | Inr (Some encoded) \<Rightarrow>
          (bind_ok (with_context ''decode pickle key'' (std_decode V encoded))
            (\<lambda>raw. if length raw = 32 then Inr raw
                   else Inl (Msg (''stored pickle key is '' @ show_nat (length raw) @ '' bytes, expected 32''))), s)
      | Inr None \<Rightarrow>
          (let key = random_key V n
           in (Inr key, set_meta (db_cipher V) PICKLE_KEY_META (std_encode V key) s)))"

definition decode_backup_key :: "'k crypto_lib \<Rightarrow> string \<Rightarrow> string result" where
  "decode_backup_key V encoded =
     bind_ok (with_context ''decode backup key'' (std_decode V encoded))
       (\<lambda>raw. if length raw = 32 then Inr raw
              else Inl (Msg (''stored backup key is '' @ show_nat (length raw) @ '' bytes, expected 32'')))"

definition load_account :: "'k crypto_lib \<Rightarrow> string \<Rightarrow> nat \<Rightarrow> (store, 'k) action" where
  "load_account V key n s =
     (case List.find (\<lambda>(i, x, p). i = ''self'') (all_pickles KIND_ACCOUNT s) of
        Some (i, x, p) \<Rightarrow> (with_context ''unpickle olm account'' (acc_unpickle V key p), s)
      | None \<Rightarrow>
          (let account = acc_new V n
           in (Inr account, put_pickle KIND_ACCOUNT ''self'' [] (acc_pickle V key account) s)))"

text \<open>\<open>entry(k).or_default().push(v)\<close>.\<close>

definition push_at :: "string \<Rightarrow> 'k \<Rightarrow> (string \<Rightarrow> 'k list option) \<Rightarrow> string \<Rightarrow> 'k list option" where
  "push_at k v m = m(k \<mapsto> (case m k of None \<Rightarrow> [] | Some l \<Rightarrow> l) @ [v])"

definition load_olm :: "'k crypto_lib \<Rightarrow> string \<Rightarrow> (string \<times> string \<times> string) list \<Rightarrow> string \<Rightarrow> 'k list option" where
  "load_olm V key rows =
     fold (\<lambda>(i, sender_key, p) m. case sess_unpickle V key p of
             Inr k \<Rightarrow> push_at sender_key k m | Inl e \<Rightarrow> m) rows Map.empty"

definition load_by_id :: "(string \<Rightarrow> string + 'k) \<Rightarrow> (string \<times> string \<times> string) list \<Rightarrow> string \<Rightarrow> 'k option" where
  "load_by_id unpickle rows =
     fold (\<lambda>(i, x, p) m. case unpickle p of Inr k \<Rightarrow> m(i \<mapsto> k) | Inl e \<Rightarrow> m) rows Map.empty"

definition load_backup_key :: "'k crypto_lib \<Rightarrow> (store, 'k option) action" where
  "load_backup_key V s =
     (bind_ok (get_meta (db_cipher V) BACKUP_KEY_META s)
       (\<lambda>stored. Inr (case stored of
          None \<Rightarrow> None
        | Some encoded \<Rightarrow> (case decode_backup_key V encoded of
            Inr secret \<Rightarrow> Some (pk_from_key V secret) | Inl e \<Rightarrow> None))), s)"

text \<open>The first draw after \<open>n\<close> is the pickle key's, the next the account's.\<close>

definition load_or_create :: "'k crypto_lib \<Rightarrow> nat \<Rightarrow> (store, 'k crypto) action" where
  "load_or_create V n =
     and_then (load_pickle_key V n) (\<lambda>key.
     and_then (load_account V key (n + 1)) (\<lambda>account s.
       (let sessions = load_olm V key (all_pickles KIND_OLM s);
            inbound = load_by_id (in_unpickle V key) (all_pickles KIND_MEGOLM_IN s);
            outbound = load_by_id (out_unpickle V key) (all_pickles KIND_MEGOLM_OUT s)
        in and_then (load_backup_key V) (\<lambda>backup.
             succeed \<lparr>k_account = account, k_pickle_key = key, k_inbound = inbound, k_outbound = outbound,
                k_olm_sessions = sessions, k_known_devices = Map.empty, k_backup_key = backup,
                k_device_ed_keys = Map.empty, k_verifications = Map.empty,
                k_secret_requests = Map.empty, k_draws = n + 2, k_reads = 0\<rparr>) s)))"

definition curve25519_key :: "'k crypto_lib \<Rightarrow> 'k crypto \<Rightarrow> string" where
  "curve25519_key V c = acc_curve V (k_account c)"

definition ed25519_key :: "'k crypto_lib \<Rightarrow> 'k crypto \<Rightarrow> string" where
  "ed25519_key V c = acc_ed V (k_account c)"

section \<open>Uploading keys\<close>

definition persist_account :: "'k crypto_lib \<Rightarrow> 'k cs \<Rightarrow> 'k cs" where
  "persist_account V cs =
     (fst cs, put_pickle KIND_ACCOUNT ''self'' []
                (acc_pickle V (k_pickle_key (fst cs)) (k_account (fst cs))) (snd cs))"

definition unsigned_device_keys :: "'k crypto_lib \<Rightarrow> 'k crypto \<Rightarrow> string \<Rightarrow> string \<Rightarrow> (string \<times> json) list" where
  "unsigned_device_keys V c user device =
     [(''algorithms'', JArr [JStr OLM_ALGORITHM, JStr MEGOLM_ALGORITHM]),
      (''device_id'', JStr device),
      (''keys'', obj [(''curve25519:'' @ device, JStr (curve25519_key V c)),
                      (''ed25519:'' @ device, JStr (ed25519_key V c))]),
      (''user_id'', JStr user)]"

definition signed_object :: "'k crypto_lib \<Rightarrow> 'k \<Rightarrow> string \<Rightarrow> string \<Rightarrow> (string \<times> json) list \<Rightarrow> json" where
  "signed_object V account user device entries =
     obj (entries @ [(''signatures'', signatures_for user device (acc_sign V account (canonical_json (obj entries))))])"

definition signed_device_keys :: "'k crypto_lib \<Rightarrow> 'k crypto \<Rightarrow> string \<Rightarrow> string \<Rightarrow> json" where
  "signed_device_keys V c user device =
     signed_object V (k_account c) user device (unsigned_device_keys V c user device)"

definition wanted_otks :: "'k crypto_lib \<Rightarrow> 'k crypto \<Rightarrow> 32 word \<Rightarrow> nat" where
  "wanted_otks V c server_count = min (OTK_TARGET - unat server_count) (acc_max_otks V (k_account c))"

definition generate_otks :: "'k crypto_lib \<Rightarrow> nat \<Rightarrow> 'k crypto \<Rightarrow> 'k crypto" where
  "generate_otks V wanted c =
     (if 0 < wanted
      then c\<lparr>k_account := acc_generate V (k_draws c) wanted (k_account c), k_draws := k_draws c + 1\<rparr>
      else c)"

definition signed_otks :: "'k crypto_lib \<Rightarrow> 'k crypto \<Rightarrow> string \<Rightarrow> string \<Rightarrow> (string, json) btree" where
  "signed_otks V c user device =
     bt_collect (map (\<lambda>(key_id, key).
         (''signed_curve25519:'' @ key_id_base64 V key_id,
          signed_object V (k_account c) user device [(''key'', JStr key)]))
       (sort_key fst (acc_otks V (k_account c))))"

definition keys_upload_body ::
  "'k crypto_lib \<Rightarrow> string \<Rightarrow> string \<Rightarrow> 32 word \<Rightarrow> bool \<Rightarrow> 'k crypto \<Rightarrow> json option \<times> 'k crypto" where
  "keys_upload_body V user device server_count include_device_keys c =
     (let device_keys = (if include_device_keys then [(''device_keys'', signed_device_keys V c user device)] else []);
          c' = generate_otks V (wanted_otks V c server_count) c;
          otks = (if acc_otks V (k_account c') = [] then []
                  else [(''one_time_keys'', JObj (signed_otks V c' user device))]);
          body = device_keys @ otks
      in (if body = [] then None else Some (obj body), c'))"

definition mark_published :: "'k crypto_lib \<Rightarrow> 'k cs \<Rightarrow> 'k cs" where
  "mark_published V cs =
     persist_account V ((fst cs)\<lparr>k_account := acc_published V (k_account (fst cs))\<rparr>, snd cs)"

section \<open>Receiving\<close>

definition decrypt :: "'k crypto_lib \<Rightarrow> string \<Rightarrow> string \<Rightarrow> ('k crypto, string) action" where
  "decrypt V session_id ciphertext c =
     (case k_inbound c session_id of
        None \<Rightarrow> (Inl (Msg (''unknown session '' @ session_id)), c)
      | Some session \<Rightarrow>
         (case megolm_parse V ciphertext of
            Inl e \<Rightarrow> (Inl (Context ''decode megolm message'' (Msg e)), c)
          | Inr m \<Rightarrow>
             (let (r, session') = in_decrypt V session m
              in (bind_ok (with_context ''megolm decrypt'' r)
                    (\<lambda>p. if valid_utf8 p then Inr p
                         else Inl (Context ''megolm plaintext is not utf-8'' (Msg (text_error V p)))),
                  c\<lparr>k_inbound := (k_inbound c)(session_id \<mapsto> session')\<rparr>))))"

text \<open>The sessions after each was tried in turn, and the first plaintext with its session.\<close>

fun try_sessions :: "'k crypto_lib \<Rightarrow> 'k olm_message \<Rightarrow> 'k list \<Rightarrow> 'k list \<times> (string \<times> 'k) option" where
  "try_sessions V m [] = ([], None)"
| "try_sessions V m (k # ks) =
     (case sess_decrypt V k m of
        (Inr p, k') \<Rightarrow> (k' # ks, Some (p, k'))
      | (Inl e, k') \<Rightarrow> (let (ks', r) = try_sessions V m ks in (k' # ks', r)))"

definition save_session_pickle :: "'k crypto_lib \<Rightarrow> string \<Rightarrow> 'k \<Rightarrow> 'k cs \<Rightarrow> 'k cs" where
  "save_session_pickle V curve k cs =
     (fst cs, put_pickle KIND_OLM (sess_id V k) curve (sess_pickle V (k_pickle_key (fst cs)) k) (snd cs))"

definition decrypt_with_existing ::
  "'k crypto_lib \<Rightarrow> string \<Rightarrow> 'k olm_message \<Rightarrow> 'k cs \<Rightarrow> string option \<times> 'k cs" where
  "decrypt_with_existing V sender_key m cs =
     (case k_olm_sessions (fst cs) sender_key of
        None \<Rightarrow> (None, cs)
      | Some ks \<Rightarrow>
         (let (ks', r) = try_sessions V m ks;
              c = (fst cs)\<lparr>k_olm_sessions := (k_olm_sessions (fst cs))(sender_key \<mapsto> ks')\<rparr>
          in case r of
               None \<Rightarrow> (None, (c, snd cs))
             | Some (p, k) \<Rightarrow> (Some p, save_session_pickle V sender_key k (c, snd cs))))"

text \<open>The Olm channel proves which device sent an event; the envelope must not claim another user.\<close>

definition check_sender :: "string \<Rightarrow> string \<Rightarrow> json \<Rightarrow> 'k crypto \<Rightarrow> unit result" where
  "check_sender what sender_key event c =
     (case k_known_devices c sender_key of
        None \<Rightarrow> Inr ()
      | Some (user, device) \<Rightarrow>
          (let claimed = get_str ''sender'' event
           in if claimed = Some user then Inr ()
              else Inl (Msg (what @ '' over the olm channel with '' @ user @ ''/'' @ device
                     @ '' claims sender '' @ (case claimed of None \<Rightarrow> ''<missing>'' | Some x \<Rightarrow> x)))))"

definition handle_secret_send :: "string \<Rightarrow> json \<Rightarrow> 'k crypto \<Rightarrow> to_device_outcome option result" where
  "handle_secret_send sender_key event c =
     bind_ok (ok_or ''m.secret.send without content'' (get ''content'' event)) (\<lambda>content.
     bind_ok (ok_or ''m.secret.send without request_id'' (get_str ''request_id'' content)) (\<lambda>request_id.
     bind_ok (ok_or ''m.secret.send without secret'' (get_str ''secret'' content)) (\<lambda>secret.
       case k_secret_requests c request_id of
         None \<Rightarrow> Inr None
       | Some name \<Rightarrow>
           bind_ok (check_sender ''m.secret.send'' sender_key event c) (\<lambda>_.
             Inr (Some (Secret name secret request_id))))))"

definition room_key_for_us :: "'k crypto_lib \<Rightarrow> json \<Rightarrow> 'k crypto \<Rightarrow> unit result" where
  "room_key_for_us V event c =
     (case Option.bind (get ''recipient_keys'' event) (get_str ''ed25519'') of
        Some key \<Rightarrow> if key \<noteq> ed25519_key V c then Inl (Msg ''m.room_key was addressed to a different device'')
                    else Inr ()
      | None \<Rightarrow> Inr ())"

definition add_inbound :: "'k crypto_lib \<Rightarrow> string \<Rightarrow> 'k \<Rightarrow> 'k cs \<Rightarrow> 'k cs" where
  "add_inbound V room session cs =
     ((fst cs)\<lparr>k_inbound := (k_inbound (fst cs))(in_id V session \<mapsto> session)\<rparr>,
      put_pickle KIND_MEGOLM_IN (in_id V session) room
        (in_pickle V (k_pickle_key (fst cs)) session) (snd cs))"

definition handle_olm_plaintext ::
  "'k crypto_lib \<Rightarrow> string \<Rightarrow> string \<Rightarrow> ('k cs, to_device_outcome option) action" where
  "handle_olm_plaintext V sender_key plaintext =
     and_then (from_result (with_context ''parse olm plaintext'' (json_parse (serde V) plaintext))) (\<lambda>event cs.
       if get_str ''type'' event = Some ''m.secret.send'' then (handle_secret_send sender_key event (fst cs), cs)
       else if get_str ''type'' event \<noteq> Some ''m.room_key'' then (Inr None, cs)
       else and_then (from_result (ok_or ''m.room_key without content'' (get ''content'' event))) (\<lambda>content cs.
         if get_str ''algorithm'' content \<noteq> Some MEGOLM_ALGORITHM then (Inr None, cs)
         else and_then (from_result (check_sender ''m.room_key'' sender_key event (fst cs))) (\<lambda>_.
              and_then (from_result (room_key_for_us V event (fst cs))) (\<lambda>_.
              and_then (from_result (ok_or ''m.room_key without room_id'' (get_str ''room_id'' content))) (\<lambda>room_id.
              and_then (from_result (ok_or ''m.room_key without session_key'' (get_str ''session_key'' content))) (\<lambda>session_key.
              and_then (from_result (with_context ''decode megolm session key'' (key_parse V session_key))) (\<lambda>key cs.
                (Inr None, add_inbound V room_id (in_new V key) cs)))))) cs) cs)"

text \<open>A message for which no session exists: only a pre-key message starts one.\<close>

definition start_inbound ::
  "'k crypto_lib \<Rightarrow> string \<Rightarrow> 'k olm_message \<Rightarrow> ('k cs, string) action" where
  "start_inbound V sender_key m cs =
     (case m of
        Normal x \<Rightarrow> (Inl (Msg (''no olm session for sender key '' @ sender_key @ '' and message is not a pre-key'')), cs)
      | PreKey pre_key \<Rightarrow>
         and_then (from_result (with_context ''bad sender curve25519 key'' (curve_parse V sender_key))) (\<lambda>identity cs.
           (let (r, account) = acc_inbound V (k_account (fst cs)) identity pre_key;
                c = (fst cs)\<lparr>k_account := account\<rparr>
            in case r of
                 Inl e \<Rightarrow> (Inl (Context ''create inbound olm session'' (Msg e)), (c, snd cs))
               | Inr (session, plaintext) \<Rightarrow>
                  (let (c', s') = persist_account V (save_session_pickle V sender_key session (c, snd cs))
                   in (Inr plaintext,
                       (c'\<lparr>k_olm_sessions := push_at sender_key session (k_olm_sessions c')\<rparr>, s'))))) cs)"

definition olm_plaintext :: "'k crypto_lib \<Rightarrow> string \<Rightarrow> 'k olm_message \<Rightarrow> ('k cs, string) action" where
  "olm_plaintext V sender_key m cs =
     (case decrypt_with_existing V sender_key m cs of
        (Some plaintext, cs') \<Rightarrow> (Inr plaintext, cs')
      | (None, cs') \<Rightarrow> start_inbound V sender_key m cs')"

definition addressed_message :: "'k crypto_lib \<Rightarrow> json \<Rightarrow> 'k crypto \<Rightarrow> 'k olm_message result" where
  "addressed_message V content c =
     bind_ok (ok_or ''olm event not addressed to this device''
                (Option.bind (get ''ciphertext'' content) (get (curve25519_key V c)))) (\<lambda>message.
     bind_ok (ok_or ''olm ciphertext without type'' (Option.bind (get ''type'' message) as_u64)) (\<lambda>message_type.
     bind_ok (ok_or ''olm ciphertext without body'' (get_str ''body'' message)) (\<lambda>body.
     bind_ok (with_context ''decode olm body'' (voz_decode V body)) (\<lambda>raw.
       with_context ''decode olm message'' (olm_parse V message_type raw)))))"

definition handle_olm_event ::
  "'k crypto_lib \<Rightarrow> to_device_event \<Rightarrow> ('k cs, to_device_outcome option) action" where
  "handle_olm_event V event cs =
     (let content = td_content event in
      if get_str ''algorithm'' content \<noteq> Some OLM_ALGORITHM then (Inr None, cs)
      else and_then (from_result (ok_or ''olm event without sender_key'' (get_str ''sender_key'' content))) (\<lambda>sender_key.
           and_then (from_result (addressed_message V content (fst cs))) (\<lambda>m.
           and_then (olm_plaintext V sender_key m) (handle_olm_plaintext V sender_key))) cs)"

text \<open>An event that fails costs nothing but itself.\<close>

fun handle_to_device ::
  "'k crypto_lib \<Rightarrow> to_device_event list \<Rightarrow> 'k cs \<Rightarrow> to_device_outcome list \<times> 'k cs" where
  "handle_to_device V [] cs = ([], cs)"
| "handle_to_device V (event # events) cs =
     (if td_kind event \<noteq> ''m.room.encrypted'' then handle_to_device V events cs
      else (case handle_olm_event V event cs of
              (Inr (Some outcome), cs') \<Rightarrow>
                (let (outcomes, cs'') = handle_to_device V events cs' in (outcome # outcomes, cs''))
            | (_, cs') \<Rightarrow> handle_to_device V events cs'))"

end
