(* ===== verification/Crypto_Share.thy ===== *)
theory Crypto_Share
  imports Crypto_State
begin

text \<open>
  The sending half of \<open>Crypto\<close>: Olm sessions with other devices, the outbound Megolm session of a
  room and the sharing of its key, the encryption of room events, the server-side key backup and
  the requests for secrets.
\<close>

section \<open>Devices\<close>

definition remember_devices :: "device_info list \<Rightarrow> 'k crypto \<Rightarrow> 'k crypto" where
  "remember_devices devices c =
     fold (\<lambda>d c. c\<lparr>
         k_device_ed_keys := (k_device_ed_keys c)((di_user_id d, di_device_id d) \<mapsto> di_ed_key d),
         k_known_devices := (k_known_devices c)(di_curve_key d \<mapsto> (di_user_id d, di_device_id d))\<rparr>)
       devices c"

definition has_session :: "string \<Rightarrow> 'k crypto \<Rightarrow> bool" where
  "has_session curve c \<longleftrightarrow> (case k_olm_sessions c curve of None \<Rightarrow> False | Some sessions \<Rightarrow> sessions \<noteq> [])"

definition devices_needing_session :: "'k crypto_lib \<Rightarrow> device_info list \<Rightarrow> 'k crypto \<Rightarrow> device_info list" where
  "devices_needing_session V devices c =
     filter (\<lambda>d. \<not> has_session (di_curve_key d) c)
       (filter (\<lambda>d. di_curve_key d \<noteq> curve25519_key V c) devices)"

section \<open>Olm sessions with other devices\<close>

definition start_olm_session :: "'k crypto_lib \<Rightarrow> device_info \<Rightarrow> string \<Rightarrow> ('k cs, unit) action" where
  "start_olm_session V d otk =
     and_then (from_result (with_context ''bad device curve key'' (curve_parse V (di_curve_key d)))) (\<lambda>identity.
     and_then (from_result (with_context ''bad one-time key'' (curve_parse V otk))) (\<lambda>one_time_key cs.
       (let c = (fst cs)\<lparr>k_draws := k_draws (fst cs) + 1\<rparr>
        in case acc_outbound V (k_draws (fst cs)) (k_account c) identity one_time_key of
             Inl e \<Rightarrow> (Inl (Context ''create outbound olm session'' (Msg e)), (c, snd cs))
           | Inr session \<Rightarrow>
              (let (c', s') = save_session_pickle V (di_curve_key d) session (c, snd cs)
               in (Inr (), (c'\<lparr>k_olm_sessions := push_at (di_curve_key d) session (k_olm_sessions c'),
                             k_known_devices := (k_known_devices c')
                               (di_curve_key d \<mapsto> (di_user_id d, di_device_id d))\<rparr>, s'))))))"

text \<open>The first signed key among the ones claimed for a device.\<close>

definition claimed_key :: "json \<Rightarrow> device_info \<Rightarrow> string option" where
  "claimed_key claim_response d =
     Option.bind (get ''one_time_keys'' claim_response) (\<lambda>v.
     Option.bind (get (di_user_id d) v) (\<lambda>v.
     Option.bind (get (di_device_id d) v) (\<lambda>v.
     Option.bind (as_object v) (\<lambda>entries.
     Option.bind (List.find (\<lambda>(k, _). starts_with k ''signed_curve25519'') entries)
       (\<lambda>(_, v). one_time_key_value v)))))"

fun create_outbound_olm :: "'k crypto_lib \<Rightarrow> json \<Rightarrow> device_info list \<Rightarrow> 'k cs \<Rightarrow> 'k cs" where
  "create_outbound_olm V claim [] cs = cs"
| "create_outbound_olm V claim (d # ds) cs =
     create_outbound_olm V claim ds
       (if has_session (di_curve_key d) (fst cs) then cs
        else (case claimed_key claim d of
                None \<Rightarrow> cs
              | Some key \<Rightarrow> snd (start_olm_session V d key cs)))"

definition olm_encrypt :: "'k crypto_lib \<Rightarrow> string \<Rightarrow> string \<Rightarrow> ('k cs, 64 word \<times> string) action" where
  "olm_encrypt V curve plaintext cs =
     (case k_olm_sessions (fst cs) curve of
        Some (k # ks) \<Rightarrow>
          (let (r, session) = sess_encrypt V (k_draws (fst cs)) (last (k # ks)) plaintext;
               c = (fst cs)\<lparr>k_olm_sessions := (k_olm_sessions (fst cs))(curve \<mapsto> butlast (k # ks) @ [session]),
                     k_draws := k_draws (fst cs) + 1\<rparr>
           in case r of
                Inl e \<Rightarrow> (Inl (Context ''olm encrypt'' (Msg e)), (c, snd cs))
              | Inr (message_type, ciphertext) \<Rightarrow>
                  (Inr (message_type, voz_encode V ciphertext), save_session_pickle V curve session (c, snd cs)))
      | _ \<Rightarrow> (Inl (Msg (''no olm session for device key '' @ curve)), cs))"

section \<open>Room keys\<close>

definition save_outbound_pickle :: "'k crypto_lib \<Rightarrow> string \<Rightarrow> string \<Rightarrow> 'k \<Rightarrow> 'k cs \<Rightarrow> 'k cs" where
  "save_outbound_pickle V room index session cs =
     (fst cs, put_pickle KIND_MEGOLM_OUT room index
                (out_pickle V (k_pickle_key (fst cs)) session) (snd cs))"

definition get_or_create_outbound :: "'k crypto_lib \<Rightarrow> string \<Rightarrow> 'k cs \<Rightarrow> 'k \<times> 'k cs" where
  "get_or_create_outbound V room cs =
     (case k_outbound (fst cs) room of
        Some session \<Rightarrow> (session, cs)
      | None \<Rightarrow>
         (let session = out_new V (k_draws (fst cs));
              c = (fst cs)\<lparr>k_draws := k_draws (fst cs) + 1\<rparr>;
              (c', s') = add_inbound V room (in_of_out V session)
                           (save_outbound_pickle V room ''0'' session (c, snd cs))
          in (session, (c'\<lparr>k_outbound := (k_outbound c')(room \<mapsto> session)\<rparr>, s'))))"

definition room_key_content :: "'k crypto_lib \<Rightarrow> string \<Rightarrow> 'k \<Rightarrow> json" where
  "room_key_content V room session =
     obj [(''algorithm'', JStr MEGOLM_ALGORITHM), (''chain_index'', JInt (uint (out_index V session))),
          (''room_id'', JStr room), (''session_id'', JStr (out_id V session)),
          (''session_key'', JStr (out_key V session))]"

text \<open>\<open>messages.entry(user).or_insert({}).insert(device, content)\<close>.\<close>

definition put_message ::
  "device_info \<Rightarrow> json \<Rightarrow> (string, (string, json) btree) btree \<Rightarrow> (string, (string, json) btree) btree" where
  "put_message d content messages =
     bt_insert (di_user_id d)
       (bt_insert (di_device_id d) content
         (case bt_get messages (di_user_id d) of None \<Rightarrow> [] | Some m \<Rightarrow> m)) messages"

fun share_key ::
  "'k crypto_lib \<Rightarrow> json \<Rightarrow> string \<Rightarrow> string \<Rightarrow> device_info list
     \<Rightarrow> (string, (string, json) btree) btree \<Rightarrow> 'k cs \<Rightarrow> (string, (string, json) btree) btree \<times> 'k cs" where
  "share_key V content our_user our_device [] messages cs = (messages, cs)"
| "share_key V content our_user our_device (d # ds) messages cs =
     (if di_curve_key d = curve25519_key V (fst cs) then share_key V content our_user our_device ds messages cs
      else
       (let envelope = room_key_envelope content our_user our_device (ed25519_key V (fst cs)) d
        in case olm_encrypt V (di_curve_key d) (json_print (serde V) envelope) cs of
             (Inl e, cs') \<Rightarrow> share_key V content our_user our_device ds messages cs'
           | (Inr (message_type, body), cs') \<Rightarrow>
              (let c = fst cs'
               in share_key V content our_user our_device ds
                    (put_message d (olm_to_device_content (curve25519_key V c) (di_curve_key d) message_type body) messages)
                    (c\<lparr>k_known_devices := (k_known_devices c)
                         (di_curve_key d \<mapsto> (di_user_id d, di_device_id d))\<rparr>, snd cs'))))"

definition encrypt_room_key_to_devices ::
  "'k crypto_lib \<Rightarrow> string \<Rightarrow> device_info list \<Rightarrow> string \<Rightarrow> string \<Rightarrow> 'k cs \<Rightarrow> json \<times> 'k cs" where
  "encrypt_room_key_to_devices V room devices our_user our_device cs =
     (let (session, cs') = get_or_create_outbound V room cs;
          (messages, cs'') = share_key V (room_key_content V room session) our_user our_device devices [] cs'
      in (JObj (map (\<lambda>(u, m). (u, JObj m)) messages), cs''))"

definition encrypt :: "'k crypto_lib \<Rightarrow> string \<Rightarrow> json \<Rightarrow> string \<Rightarrow> 'k cs \<Rightarrow> json \<times> 'k cs" where
  "encrypt V room plaintext our_device cs =
     (let raw = json_print (serde V) plaintext;
          (session, cs') = get_or_create_outbound V room cs;
          (message, session') = out_encrypt V session raw;
          c = (fst cs')\<lparr>k_outbound := (k_outbound (fst cs'))(room \<mapsto> session')\<rparr>;
          cs'' = save_outbound_pickle V room (show_nat (unat (out_index V session'))) session' (c, snd cs')
      in (obj [(''algorithm'', JStr MEGOLM_ALGORITHM), (''ciphertext'', JStr message),
               (''device_id'', JStr our_device), (''sender_key'', JStr (curve25519_key V (fst cs))),
               (''session_id'', JStr (out_id V session'))], cs''))"

definition has_outbound :: "string \<Rightarrow> 'k crypto \<Rightarrow> bool" where
  "has_outbound room c \<longleftrightarrow> k_outbound c room \<noteq> None"

section \<open>The key backup\<close>

definition unpadded :: "string \<Rightarrow> string" where
  "unpadded s = trim_end_matches CHR ''='' (trim s)"

definition store_backup_key :: "'k crypto_lib \<Rightarrow> string \<Rightarrow> 'k cs \<Rightarrow> 'k cs" where
  "store_backup_key V raw cs =
     ((fst cs)\<lparr>k_backup_key := Some (pk_from_key V raw)\<rparr>,
      set_meta (db_cipher V) BACKUP_KEY_META (std_encode V raw) (snd cs))"

definition set_backup_key :: "'k crypto_lib \<Rightarrow> string \<Rightarrow> string \<Rightarrow> ('k cs, unit) action" where
  "set_backup_key V recovery_key expected cs =
     (case decode_recovery_key recovery_key of
        Inl e \<Rightarrow> (Inl (Msg (show_key_error e)), cs)
      | Inr bytes \<Rightarrow>
         (let raw = of_bytes bytes; derived = pk_public V (pk_from_key V raw)
          in if derived \<noteq> unpadded expected
             then (Inl (Msg (''this recovery key does not match this backup: it unlocks '' @ derived
                     @ '', but the backup was made for '' @ expected)), cs)
             else (Inr (), store_backup_key V raw cs)))"

definition set_backup_key_base64 :: "'k crypto_lib \<Rightarrow> string \<Rightarrow> string option \<Rightarrow> ('k cs, unit) action" where
  "set_backup_key_base64 V secret expected cs =
     (case no_pad_decode V (unpadded secret) of
        Inl e \<Rightarrow> (Inl (Context ''decode shared backup key'' (Msg e)), cs)
      | Inr raw \<Rightarrow>
         if length raw \<noteq> 32
         then (Inl (Msg (''shared backup key is '' @ show_nat (length raw) @ '' bytes, expected 32'')), cs)
         else (let derived = pk_public V (pk_from_key V raw)
               in case expected of
                    Some x \<Rightarrow>
                      if derived \<noteq> unpadded x
                      then (Inl (Msg (''the shared backup key does not match this backup: it unlocks '' @ derived
                              @ '', but the backup was made for '' @ x)), cs)
                      else (Inr (), store_backup_key V raw cs)
                  | None \<Rightarrow> (Inr (), store_backup_key V raw cs)))"

definition has_backup_key :: "'k crypto \<Rightarrow> bool" where
  "has_backup_key c \<longleftrightarrow> k_backup_key c \<noteq> None"

definition backup_part :: "string \<Rightarrow> json \<Rightarrow> string \<Rightarrow> string result" where
  "backup_part session_id data name =
     ok_or (''backup session_data for '' @ session_id @ '' has no '' @ name)
       (map_option (trim_end_matches CHR ''='') (get_str name data))"

text \<open>The decrypted backup entry.\<close>

definition open_backup_entry :: "'k crypto_lib \<Rightarrow> 'k \<Rightarrow> string \<Rightarrow> json \<Rightarrow> json result" where
  "open_backup_entry V decryption session_id entry =
     bind_ok (ok_or (''backup entry for '' @ session_id @ '' has no session_data'') (get ''session_data'' entry)) (\<lambda>data.
     bind_ok (backup_part session_id data ''ciphertext'') (\<lambda>ciphertext.
     bind_ok (backup_part session_id data ''mac'') (\<lambda>mac.
     bind_ok (backup_part session_id data ''ephemeral'') (\<lambda>ephemeral.
     bind_ok (with_context ''decode backup session_data'' (pk_message V ciphertext mac ephemeral)) (\<lambda>m.
     bind_ok (with_context ''decrypt backup session_data'' (pk_decrypt V decryption m)) (\<lambda>plaintext.
       with_context ''parse backup session plaintext'' (json_parse (serde V) plaintext)))))))"

text \<open>The session of a decrypted entry, which has to be the one it is filed under.\<close>

definition exported_session :: "'k crypto_lib \<Rightarrow> string \<Rightarrow> json \<Rightarrow> 'k result" where
  "exported_session V session_id decoded =
     bind_ok (ok_or (''backed up session '' @ session_id @ '' has no session_key'') (get_str ''session_key'' decoded)) (\<lambda>key.
     bind_ok (with_context ''decode exported megolm session key'' (exported_parse V (trim_end_matches CHR ''='' key))) (\<lambda>exported.
       (let session = in_import V exported
        in if in_id V session \<noteq> session_id
           then Inl (Msg (''backup entry filed under '' @ session_id @ '' actually holds session '' @ in_id V session))
           else Inr session)))"

definition known_as_early :: "'k crypto_lib \<Rightarrow> string \<Rightarrow> nat \<Rightarrow> 'k crypto \<Rightarrow> bool" where
  "known_as_early V session_id index c \<longleftrightarrow>
     (case k_inbound c session_id of None \<Rightarrow> False | Some existing \<Rightarrow> unat (in_first V existing) \<le> index)"

definition import_backup_session :: "'k crypto_lib \<Rightarrow> string \<Rightarrow> string \<Rightarrow> json \<Rightarrow> ('k cs, bool) action" where
  "import_backup_session V room session_id entry cs =
     (let first = (case Option.bind (get ''first_message_index'' entry) as_u64 of None \<Rightarrow> 0 | Some i \<Rightarrow> unat i)
      in if known_as_early V session_id first (fst cs) then (Inr False, cs)
         else
          (case k_backup_key (fst cs) of
             None \<Rightarrow> (Inl (Msg ''no backup recovery key has been entered''), cs)
           | Some decryption \<Rightarrow>
               and_then (from_result (open_backup_entry V decryption session_id entry)) (\<lambda>decoded cs.
                 if get_str ''algorithm'' decoded \<noteq> Some MEGOLM_ALGORITHM then (Inr False, cs)
                 else and_then (from_result (exported_session V session_id decoded)) (\<lambda>session cs.
                   if known_as_early V (in_id V session) (unat (in_first V session)) (fst cs) then (Inr False, cs)
                   else (Inr True, add_inbound V room session cs)) cs) cs))"

section \<open>Secrets\<close>

definition hex16 :: "64 word \<Rightarrow> string" where
  "hex16 w = map (\<lambda>i. digit_char (unat w div 16 ^ (15 - i) mod 16)) [0..<16]"

definition secret_request :: "'k crypto_lib \<Rightarrow> string \<Rightarrow> string \<Rightarrow> 'k crypto \<Rightarrow> (string \<times> json) \<times> 'k crypto" where
  "secret_request V our_device name c =
     (let request_id = hex16 (random_u64 V (k_draws c)) @ hex16 (random_u64 V (k_draws c + 1))
      in ((request_id,
           obj [(''action'', JStr ''request''), (''name'', JStr name), (''request_id'', JStr request_id),
                (''requesting_device_id'', JStr our_device)]),
          c\<lparr>k_secret_requests := (k_secret_requests c)(request_id \<mapsto> name), k_draws := k_draws c + 2\<rparr>))"

definition secret_cancellation :: "string \<Rightarrow> string \<Rightarrow> json" where
  "secret_cancellation our_device request_id =
     obj [(''action'', JStr ''request_cancellation''), (''request_id'', JStr request_id),
          (''requesting_device_id'', JStr our_device)]"

end
