(* ===== verification/Verification.thy ===== *)
theory Verification
  imports Crypto_Share
begin

text \<open>
  The emoji verification of \<open>crypto.rs\<close>, of which the daemon is always the responder: request,
  ready, start, accept, key, emoji, the user's answer, mac and done. Each handler returns the
  \<open>VerifyStep\<close> it asks the daemon to take and the state it leaves.
\<close>

type_synonym 'k verify = "'k crypto \<Rightarrow> verify_step \<times> 'k crypto"

definition put_entry :: "string \<Rightarrow> 'k verification \<Rightarrow> 'k crypto \<Rightarrow> 'k crypto" where
  "put_entry t v c = c\<lparr>k_verifications := (k_verifications c)(t \<mapsto> v)\<rparr>"

definition drop_entry :: "string \<Rightarrow> 'k crypto \<Rightarrow> 'k crypto" where
  "drop_entry t c = c\<lparr>k_verifications := (k_verifications c)(t := None)\<rparr>"

text \<open>\<open>Verification::new\<close> reads the clock.\<close>

definition insert_new :: "'k crypto_lib \<Rightarrow> string \<Rightarrow> string \<Rightarrow> string \<Rightarrow> 'k crypto \<Rightarrow> 'k crypto" where
  "insert_new V t user device c =
     (put_entry t (new_verification (instant_ms V (k_reads c)) user device) c)\<lparr>k_reads := k_reads c + 1\<rparr>"

definition expire_verifications :: "'k crypto_lib \<Rightarrow> 'k crypto \<Rightarrow> 'k crypto" where
  "expire_verifications V c =
     (let now = instant_ms V (k_reads c)
      in c\<lparr>k_reads := k_reads c + 1,
           k_verifications := (\<lambda>t. case k_verifications c t of
               None \<Rightarrow> None
             | Some v \<Rightarrow> if now - vf_created v < VERIFICATION_TIMEOUT then Some v else None)\<rparr>)"

definition cancel :: "string \<Rightarrow> string \<Rightarrow> string \<Rightarrow> string \<Rightarrow> 'k verify" where
  "cancel t device code reason c =
     (quiet_step\<lparr>vs_send := [(''m.key.verification.cancel'', device,
          obj [(''code'', JStr code), (''reason'', JStr reason), (''transaction_id'', JStr t)])],
        vs_cancelled := Some reason\<rparr>, drop_entry t c)"

section \<open>Events of the other side\<close>

definition offers :: "json \<Rightarrow> string \<Rightarrow> string \<Rightarrow> bool" where
  "offers content name wanted =
     (case get_arr name content of None \<Rightarrow> False
      | Some l \<Rightarrow> list_ex (\<lambda>v. as_str v = Some wanted) l)"

definition verification_request :: "'k crypto_lib \<Rightarrow> string \<Rightarrow> string \<Rightarrow> string \<Rightarrow> json \<Rightarrow> 'k verify" where
  "verification_request V t sender our_device content c =
     (case get_str ''from_device'' content of
        None \<Rightarrow> (quiet_step, c)
      | Some from_device \<Rightarrow>
          if \<not> offers content ''methods'' SAS_METHOD
          then cancel t from_device ''m.unknown_method'' ''this device only speaks m.sas.v1'' c
          else (quiet_step\<lparr>vs_send := [(''m.key.verification.ready'', from_device,
                  obj [(''from_device'', JStr our_device), (''methods'', JArr [JStr SAS_METHOD]),
                       (''transaction_id'', JStr t)])]\<rparr>,
                insert_new V t sender from_device c))"

definition negotiated :: "json \<Rightarrow> bool" where
  "negotiated content \<longleftrightarrow>
     offers content ''key_agreement_protocols'' KEY_AGREEMENT_PROTOCOL
     \<and> offers content ''hashes'' SAS_HASH
     \<and> offers content ''message_authentication_codes'' MAC_METHOD
     \<and> offers content ''short_authentication_string'' SAS_EMOJI_STRING"

text \<open>What we commit to before they have shown their key: ours, and their exact start.\<close>

definition commitment :: "'k crypto_lib \<Rightarrow> string \<Rightarrow> json \<Rightarrow> string" where
  "commitment V our_public_key content =
     voz_encode V (of_bytes (sha256 (to_bytes (our_public_key @ canonical_json_verbatim content))))"

definition accept_content :: "string \<Rightarrow> string \<Rightarrow> json" where
  "accept_content commit t =
     obj [(''commitment'', JStr commit), (''hash'', JStr SAS_HASH),
          (''key_agreement_protocol'', JStr KEY_AGREEMENT_PROTOCOL),
          (''message_authentication_code'', JStr MAC_METHOD), (''method'', JStr SAS_METHOD),
          (''short_authentication_string'', JArr [JStr SAS_EMOJI_STRING]), (''transaction_id'', JStr t)]"

text \<open>The accept for a start of an entry that has none yet.\<close>

definition accept_start :: "'k crypto_lib \<Rightarrow> string \<Rightarrow> 'k verification \<Rightarrow> json \<Rightarrow> 'k verify" where
  "accept_start V t entry content c =
     (if get_str ''method'' content \<noteq> Some SAS_METHOD
      then cancel t (vf_their_device entry) ''m.unknown_method'' ''this device only speaks m.sas.v1'' c
      else if \<not> negotiated content
      then cancel t (vf_their_device entry) ''m.unknown_method''
             ''no shared key agreement, hash, MAC or SAS method'' c
      else
       (let s = sas_new V (k_draws c);
            our_key = sas_public V s;
            entry' = entry\<lparr>vf_sas := Some s, vf_our_public_key := Some our_key, vf_start := Some content\<rparr>
        in (quiet_step\<lparr>vs_send := [(''m.key.verification.accept'', vf_their_device entry,
                accept_content (commitment V our_key content) t)]\<rparr>,
            (put_entry t entry' c)\<lparr>k_draws := k_draws c + 1\<rparr>)))"

definition verification_start :: "'k crypto_lib \<Rightarrow> string \<Rightarrow> string \<Rightarrow> json \<Rightarrow> 'k verify" where
  "verification_start V t sender content c =
     (let adopted = (case k_verifications c t of
            Some _ \<Rightarrow> Some c
          | None \<Rightarrow> map_option (\<lambda>from_device. insert_new V t sender from_device c) (get_str ''from_device'' content))
      in case adopted of
           None \<Rightarrow> (quiet_step, c)
         | Some c \<Rightarrow>
            (case k_verifications c t of
               None \<Rightarrow> (quiet_step, c)
             | Some entry \<Rightarrow>
                 if vf_start entry \<noteq> None then (quiet_step, c) else accept_start V t entry content c))"

definition sas_info :: "'k verification \<Rightarrow> string \<Rightarrow> string \<Rightarrow> string \<Rightarrow> string \<Rightarrow> string \<Rightarrow> string" where
  "sas_info entry their_key our_user our_device our_key t =
     ''MATRIX_KEY_VERIFICATION_SAS|'' @ vf_their_user entry @ ''|'' @ vf_their_device entry @ ''|'' @ their_key
       @ ''|'' @ our_user @ ''|'' @ our_device @ ''|'' @ our_key @ ''|'' @ t"

definition verification_key :: "'k crypto_lib \<Rightarrow> string \<Rightarrow> string \<Rightarrow> string \<Rightarrow> json \<Rightarrow> 'k verify" where
  "verification_key V t our_user our_device content c =
     (case k_verifications c t of
        None \<Rightarrow> (quiet_step, c)
      | Some entry \<Rightarrow>
         (let device = vf_their_device entry; c = drop_entry t c in
          case get_str ''key'' content of
            None \<Rightarrow> cancel t device ''m.invalid_message'' ''m.key.verification.key without a key'' c
          | Some their_key \<Rightarrow>
             (case (vf_sas entry, vf_our_public_key entry) of
                (Some s, Some our_key) \<Rightarrow>
                 (case sas_dh V s their_key of
                    Inl e \<Rightarrow> cancel t device ''m.invalid_message'' (''their SAS key is unusable: '' @ e) c
                  | Inr est \<Rightarrow>
                     (let indices = est_emoji V est (sas_info entry their_key our_user our_device our_key t);
                          entry' = entry\<lparr>vf_sas := None, vf_their_public_key := Some their_key,
                                         vf_established := Some est\<rparr>
                      in (quiet_step\<lparr>vs_send := [(''m.key.verification.key'', device,
                              obj [(''key'', JStr our_key), (''transaction_id'', JStr t)])],
                            vs_emoji := Some (t, device, indices)\<rparr>,
                          put_entry t entry' c)))
              | _ \<Rightarrow> cancel t device ''m.unexpected_message'' ''a key arrived before the start was accepted'' c)))"

definition verify_mac_b64 :: "'k crypto_lib \<Rightarrow> 'k \<Rightarrow> string \<Rightarrow> string \<Rightarrow> string \<Rightarrow> bool" where
  "verify_mac_b64 V est input info mac_b64 =
     (case mac_parse V mac_b64 of Inl e \<Rightarrow> False | Inr mac \<Rightarrow> est_verify V est input info mac)"

text \<open>The MACs over their keys, one after the other; the result is the code and reason to cancel with.\<close>

fun check_macs ::
  "'k crypto_lib \<Rightarrow> 'k \<Rightarrow> string \<Rightarrow> string \<Rightarrow> (string, json) btree \<Rightarrow> 'k crypto \<Rightarrow> string list
     \<Rightarrow> (string \<times> string) option" where
  "check_macs V est info user macs c [] = None"
| "check_macs V est info user macs c (key_id # key_ids) =
     (case Option.bind (bt_get macs key_id) as_str of
        None \<Rightarrow> Some (''m.invalid_message'', ''a MAC entry was not a string'')
      | Some mac \<Rightarrow>
         (case strip_prefix ''ed25519:'' key_id of
            None \<Rightarrow> check_macs V est info user macs c key_ids
          | Some device \<Rightarrow>
             (case k_device_ed_keys c (user, device) of
                None \<Rightarrow> check_macs V est info user macs c key_ids
              | Some their_ed \<Rightarrow>
                  if verify_mac_b64 V est their_ed (info @ key_id) mac
                  then check_macs V est info user macs c key_ids
                  else Some (''m.key_mismatch'', ''the MAC over '' @ key_id @ '' did not verify''))))"

text \<open>The entry goes back into the map unless that was its last message.\<close>

definition settle :: "string \<Rightarrow> 'k verification \<Rightarrow> 'k verify" where
  "settle t entry c =
     (if complete entry then (quiet_step\<lparr>vs_done := Some (vf_their_device entry)\<rparr>, drop_entry t c)
      else (quiet_step, put_entry t entry c))"

definition verification_mac :: "'k crypto_lib \<Rightarrow> string \<Rightarrow> string \<Rightarrow> string \<Rightarrow> json \<Rightarrow> 'k verify" where
  "verification_mac V t our_user our_device content c =
     (case k_verifications c t of
        None \<Rightarrow> (quiet_step, c)
      | Some entry \<Rightarrow>
         (let device = vf_their_device entry; user = vf_their_user entry; c = drop_entry t c in
          case vf_established entry of
            None \<Rightarrow> cancel t device ''m.unexpected_message'' ''a MAC arrived before the key exchange'' c
          | Some est \<Rightarrow>
             (case (get_obj ''mac'' content, get_str ''keys'' content) of
                (Some macs, Some keys_mac) \<Rightarrow>
                 (let info = mac_info user device our_user our_device t;
                      key_ids = sort (map fst macs)
                  in if \<not> verify_mac_b64 V est (join '','' key_ids) (info @ ''KEY_IDS'') keys_mac
                     then cancel t device ''m.key_mismatch'' ''the MAC over their key ids did not verify'' c
                     else (case check_macs V est info user macs c key_ids of
                             Some (code, reason) \<Rightarrow> cancel t device code reason c
                           | None \<Rightarrow> settle t (entry\<lparr>vf_they_sent_mac := True\<rparr>) c))
              | _ \<Rightarrow> cancel t device ''m.invalid_message'' ''m.key.verification.mac without mac and keys'' c)))"

definition verification_done :: "string \<Rightarrow> 'k verify" where
  "verification_done t c =
     (case k_verifications c t of
        None \<Rightarrow> (quiet_step, c)
      | Some entry \<Rightarrow> settle t (entry\<lparr>vf_they_sent_done := True\<rparr>) c)"

definition verification_cancel :: "string \<Rightarrow> json \<Rightarrow> 'k verify" where
  "verification_cancel t content c =
     (case k_verifications c t of
        None \<Rightarrow> (quiet_step, c)
      | Some entry \<Rightarrow>
         (let reason = (case get_str ''reason'' content of
                Some r \<Rightarrow> r
              | None \<Rightarrow> (case get_str ''code'' content of
                  Some r \<Rightarrow> r | None \<Rightarrow> ''the other device cancelled the verification''))
          in (quiet_step\<lparr>vs_cancelled := Some reason\<rparr>, drop_entry t c)))"

definition handle_verification ::
  "'k crypto_lib \<Rightarrow> string \<Rightarrow> string \<Rightarrow> string \<Rightarrow> string \<Rightarrow> json \<Rightarrow> 'k verify" where
  "handle_verification V our_user our_device sender kind content c =
     (let c = expire_verifications V c in
      case get_str ''transaction_id'' content of
        None \<Rightarrow> (quiet_step, c)
      | Some t \<Rightarrow>
          if kind = ''m.key.verification.request'' then verification_request V t sender our_device content c
          else if kind = ''m.key.verification.start'' then verification_start V t sender content c
          else if kind = ''m.key.verification.key'' then verification_key V t our_user our_device content c
          else if kind = ''m.key.verification.mac'' then verification_mac V t our_user our_device content c
          else if kind = ''m.key.verification.done'' then verification_done t c
          else if kind = ''m.key.verification.cancel'' then verification_cancel t content c
          else (quiet_step, c))"

section \<open>The answer of the user\<close>

definition our_macs :: "'k crypto_lib \<Rightarrow> 'k \<Rightarrow> 'k verification \<Rightarrow> string \<Rightarrow> string \<Rightarrow> string \<Rightarrow> 'k crypto \<Rightarrow> json" where
  "our_macs V est entry our_user our_device t c =
     (let info = mac_info our_user our_device (vf_their_user entry) (vf_their_device entry) t;
          key_id = ''ed25519:'' @ our_device
      in obj [(''transaction_id'', JStr t),
              (''keys'', JStr (est_mac V est key_id (info @ ''KEY_IDS''))),
              (''mac'', obj [(key_id, JStr (est_mac V est (ed25519_key V c) (info @ key_id)))])])"

definition confirm_verification :: "'k crypto_lib \<Rightarrow> string \<Rightarrow> string \<Rightarrow> string \<Rightarrow> bool \<Rightarrow> 'k verify" where
  "confirm_verification V our_user our_device t confirm c =
     (case k_verifications c t of
        None \<Rightarrow> (quiet_step\<lparr>vs_cancelled := Some (''verification '' @ t @ '' is no longer in progress'')\<rparr>, c)
      | Some entry \<Rightarrow>
         (let device = vf_their_device entry in
          if \<not> confirm then cancel t device ''m.mismatched_sas'' ''the emoji did not match'' c
          else (case vf_established entry of
              None \<Rightarrow> cancel t device ''m.unexpected_message'' ''confirmed before the key exchange finished'' c
            | Some est \<Rightarrow>
               (let send = [(''m.key.verification.mac'', device, our_macs V est entry our_user our_device t c),
                            (''m.key.verification.done'', device, obj [(''transaction_id'', JStr t)])];
                    (step, c') = settle t (entry\<lparr>vf_we_sent_mac := True, vf_we_sent_done := True\<rparr>) c
                in (step\<lparr>vs_send := send\<rparr>, c')))))"

end
