(* ===== verification/Verification_Laws.thy ===== *)
theory Verification_Laws
  imports Verification Crypto_Demo
begin

text \<open>
  The verification as a state machine: the moves an entry can make, the proof that the handlers make
  no other, and what follows for every history of events, however they are interleaved: a device is
  reported as verified only after its emoji were shown, the user agreed and its MACs were checked
  under that same key exchange.
\<close>

section \<open>Events and moves\<close>

datatype verify_event = Receive string string json | Confirm string bool

fun respond :: "'k crypto_lib \<Rightarrow> string \<Rightarrow> string \<Rightarrow> verify_event \<Rightarrow> 'k verify" where
  "respond V me dev (Receive sender kind content) c = handle_verification V me dev sender kind content c"
| "respond V me dev (Confirm t b) c = confirm_verification V me dev t b c"

fun subject :: "verify_event \<Rightarrow> string option" where
  "subject (Receive sender kind content) = get_str ''transaction_id'' content"
| "subject (Confirm t b) = Some t"

text \<open>
  What a MAC message has to have passed: the MAC over the list of its key ids, and for each of these
  that names a device of the user whose signing key is known, the MAC over that key. Both are made
  under the secret of one key exchange and name the two sides and the transaction.
\<close>

definition mac_right :: "'k crypto_lib \<Rightarrow> 'k \<Rightarrow> string \<Rightarrow> string \<Rightarrow> string \<Rightarrow> bool" where
  "mac_right V est input info text \<longleftrightarrow> (\<exists>m. mac_parse V text = Inr m \<and> est_verify V est input info m)"

definition macs_verified :: "'k crypto_lib \<Rightarrow> string \<Rightarrow> string \<Rightarrow> string \<Rightarrow> 'k \<Rightarrow> 'k verification
    \<Rightarrow> 'k crypto \<Rightarrow> json \<Rightarrow> bool" where
  "macs_verified V me dev t est v c content \<longleftrightarrow>
     (\<exists>macs keys_mac info. get_obj ''mac'' content = Some macs \<and> get_str ''keys'' content = Some keys_mac
        \<and> info = mac_info (vf_their_user v) (vf_their_device v) me dev t
        \<and> mac_right V est (join '','' (sort (map fst macs))) (info @ ''KEY_IDS'') keys_mac
        \<and> (\<forall>key_id \<in> fst ` set macs. \<exists>mac. bt_get macs key_id = Some (JStr mac)
             \<and> (\<forall>device key. key_id = ''ed25519:'' @ device \<longrightarrow> k_device_ed_keys c (vf_their_user v, device) = Some key
                  \<longrightarrow> mac_right V est key (info @ key_id) mac)))"

lemma verify_mac_right: "verify_mac_b64 V est input info text = mac_right V est input info text"
  by (simp add: verify_mac_b64_def mac_right_def split: sum.split)

lemma as_str_Some [simp]: "as_str v = Some x \<longleftrightarrow> v = JStr x"
  by (cases v) auto

lemma check_macs_None:
  "check_macs V est info user macs c ids = None \<longleftrightarrow>
     (\<forall>key_id \<in> set ids. \<exists>mac. bt_get macs key_id = Some (JStr mac)
        \<and> (\<forall>device key. key_id = ''ed25519:'' @ device \<longrightarrow> k_device_ed_keys c (user, device) = Some key
             \<longrightarrow> mac_right V est key (info @ key_id) mac))"
proof (induction ids)
  case (Cons key_id ids)
  show ?case
  proof (cases "Option.bind (bt_get macs key_id) as_str")
    case None
    then have "\<nexists>mac. bt_get macs key_id = Some (JStr mac)" by auto
    with None show ?thesis by simp
  next
    case (Some mac)
    then have "bt_get macs key_id = Some (JStr mac)" by (simp add: bind_eq_Some_conv)
    with Some Cons.IH show ?thesis
      by (cases "strip_prefix ''ed25519:'' key_id")
        (auto simp: verify_mac_right strip_prefix_eq_None split: option.split)
  qed
qed simp

lemma known_keys_kept [simp]:
  "k_device_ed_keys (drop_entry t c) = k_device_ed_keys c" "k_device_ed_keys (expire_verifications V c) = k_device_ed_keys c"
  by (simp_all add: drop_entry_def expire_verifications_def Let_def)

text \<open>The handler goes on with a MAC message exactly if it has passed all that.\<close>

lemma macs_verified_code:
  "macs_verified V me dev t est v c content \<longleftrightarrow>
     (case (get_obj ''mac'' content, get_str ''keys'' content) of
        (Some macs, Some keys_mac) \<Rightarrow>
          (let info = mac_info (vf_their_user v) (vf_their_device v) me dev t; key_ids = sort (map fst macs)
           in verify_mac_b64 V est (join '','' key_ids) (info @ ''KEY_IDS'') keys_mac
              \<and> check_macs V est info (vf_their_user v) macs (drop_entry t c) key_ids = None)
      | _ \<Rightarrow> False)"
  unfolding macs_verified_def Let_def check_macs_None verify_mac_right
  by (auto split: option.splits)

text \<open>A flag is set and the entry is kept, or reported as done and dropped.\<close>

definition settled :: "verify_step \<Rightarrow> 'k verification \<Rightarrow> 'k verification option \<Rightarrow> bool" where
  "settled step v new \<longleftrightarrow> vs_emoji step = None
     \<and> (if complete v then vs_done step = Some (vf_their_device v) \<and> new = None
        else vs_done step = None \<and> new = Some v)"

inductive moves :: "'k crypto_lib \<Rightarrow> string \<Rightarrow> string \<Rightarrow> string \<Rightarrow> 'k crypto \<Rightarrow> verify_event \<Rightarrow> verify_step
    \<Rightarrow> 'k verification option \<Rightarrow> 'k verification option \<Rightarrow> bool"
  for V me dev t c ev step where
  stay: "vs_done step = None \<Longrightarrow> vs_emoji step = None \<Longrightarrow> vs_send step = [] \<Longrightarrow> moves V me dev t c ev step old old"
| give_up: "vs_done step = None \<Longrightarrow> vs_emoji step = None \<Longrightarrow> vs_cancelled step \<noteq> None
    \<Longrightarrow> (\<forall>m \<in> set (vs_send step). fst m = ''m.key.verification.cancel'') \<Longrightarrow> moves V me dev t c ev step old None"
| request: "ev = Receive sender ''m.key.verification.request'' content
    \<Longrightarrow> vs_done step = None \<Longrightarrow> vs_emoji step = None \<Longrightarrow> map fst (vs_send step) = [''m.key.verification.ready'']
    \<Longrightarrow> moves V me dev t c ev step old (Some (new_verification now sender device))"
| accept: "ev = Receive sender ''m.key.verification.start'' content
    \<Longrightarrow> vs_done step = None \<Longrightarrow> vs_emoji step = None \<Longrightarrow> old = Some v \<or> old = None \<and> v = new_verification now sender device
    \<Longrightarrow> vf_start v = None
    \<Longrightarrow> vs_send step = [(''m.key.verification.accept'', vf_their_device v,
          accept_content (commitment V (sas_public V s) content) t)]
    \<Longrightarrow> moves V me dev t c ev step old
          (Some (v\<lparr>vf_sas := Some s, vf_our_public_key := Some (sas_public V s), vf_start := Some content\<rparr>))"
| key: "ev = Receive sender ''m.key.verification.key'' content \<Longrightarrow> vs_done step = None
    \<Longrightarrow> get_str ''key'' content = Some their_key
    \<Longrightarrow> vf_sas v = Some s \<Longrightarrow> vf_our_public_key v = Some our_key \<Longrightarrow> sas_dh V s their_key = Inr est
    \<Longrightarrow> vs_emoji step = Some (t, vf_their_device v, est_emoji V est (sas_info v their_key me dev our_key t))
    \<Longrightarrow> vs_send step = [(''m.key.verification.key'', vf_their_device v,
          obj [(''key'', JStr our_key), (''transaction_id'', JStr t)])]
    \<Longrightarrow> moves V me dev t c ev step (Some v)
          (Some (v\<lparr>vf_sas := None, vf_their_public_key := Some their_key, vf_established := Some est\<rparr>))"
| mac: "ev = Receive sender ''m.key.verification.mac'' content \<Longrightarrow> vf_established v = Some est
    \<Longrightarrow> macs_verified V me dev t est v c content \<Longrightarrow> settled step (v\<lparr>vf_they_sent_mac := True\<rparr>) new
    \<Longrightarrow> vs_send step = [] \<Longrightarrow> moves V me dev t c ev step (Some v) new"
| their_done: "ev = Receive sender ''m.key.verification.done'' content
    \<Longrightarrow> settled step (v\<lparr>vf_they_sent_done := True\<rparr>) new \<Longrightarrow> vs_send step = [] \<Longrightarrow> moves V me dev t c ev step (Some v) new"
| confirm: "ev = Confirm t True \<Longrightarrow> vf_established v = Some est
    \<Longrightarrow> settled step (v\<lparr>vf_we_sent_mac := True, vf_we_sent_done := True\<rparr>) new
    \<Longrightarrow> map fst (vs_send step) = [''m.key.verification.mac'', ''m.key.verification.done'']
    \<Longrightarrow> moves V me dev t c ev step (Some v) new"

inductive_cases movesE: "moves V me dev t c ev step old new"

section \<open>The handlers make these moves\<close>

lemma entries [simp]:
  "k_verifications (put_entry t v c) = (k_verifications c)(t \<mapsto> v)"
  "k_verifications (drop_entry t c) = (k_verifications c)(t := None)"
  "k_verifications (insert_new V t user device c)
     = (k_verifications c)(t \<mapsto> new_verification (instant_ms V (k_reads c)) user device)"
  by (simp_all add: put_entry_def drop_entry_def insert_new_def)

lemma quiet_step_simps [simp]:
  "vs_send quiet_step = []" "vs_emoji quiet_step = None" "vs_done quiet_step = None" "vs_cancelled quiet_step = None"
  by (simp_all add: quiet_step_def)

lemma cancel_moves: "cancel t device code reason c = (step, c') \<Longrightarrow>
    moves V me dev t d ev step old (k_verifications c' t) \<and> (\<forall>u. u \<noteq> t \<longrightarrow> k_verifications c' u = k_verifications c u)"
  by (auto simp: cancel_def intro!: moves.give_up)

lemma settle_settled: "settle t v c = (step, c') \<Longrightarrow>
    settled step v (k_verifications c' t) \<and> vs_send step = [] \<and> (\<forall>u. u \<noteq> t \<longrightarrow> k_verifications c' u = k_verifications c u)"
  by (auto simp: settle_def settled_def split: if_splits)

lemma request_moves:
  assumes "verification_request V t sender dev content c = (step, c')"
    "ev = Receive sender ''m.key.verification.request'' content"
  shows "moves V me dev t c ev step (k_verifications c t) (k_verifications c' t)
    \<and> (\<forall>u. u \<noteq> t \<longrightarrow> k_verifications c' u = k_verifications c u)"
proof (cases "get_str ''from_device'' content")
  case None
  with assms show ?thesis by (auto simp: verification_request_def intro: moves.stay)
next
  case (Some from_device)
  show ?thesis
  proof (cases "offers content ''methods'' SAS_METHOD")
    case True
    have "moves V me dev t c ev step (k_verifications c t)
        (Some (new_verification (instant_ms V (k_reads c)) sender from_device))"
      by (rule moves.request [OF assms(2)]) (use assms(1) Some True in \<open>auto simp: verification_request_def\<close>)
    with assms Some True show ?thesis by (auto simp: verification_request_def)
  next
    case False
    with assms Some show ?thesis
      by (auto simp: verification_request_def dest!: cancel_moves [of t _ _ _ _ step])
  qed
qed

lemma start_moves:
  assumes "verification_start V t sender content c = (step, c')"
    "ev = Receive sender ''m.key.verification.start'' content"
  shows "moves V me dev t c ev step (k_verifications c t) (k_verifications c' t)
    \<and> (\<forall>u. u \<noteq> t \<longrightarrow> k_verifications c' u = k_verifications c u)"
proof -
  have accepted: "moves V me dev t c ev step old (k_verifications c' t)
      \<and> (\<forall>u. u \<noteq> t \<longrightarrow> k_verifications c' u = k_verifications d u)"
    if a: "accept_start V t v content d = (step, c')" "vf_start v = None"
      "old = Some v \<or> old = None \<and> v = new_verification now sender device" for old v d now device
  proof (cases "get_str ''method'' content = Some SAS_METHOD \<and> negotiated content")
    case True
    let ?s = "sas_new V (k_draws d)"
    have "moves V me dev t c ev step old (Some (v\<lparr>vf_sas := Some ?s, vf_our_public_key := Some (sas_public V ?s),
        vf_start := Some content\<rparr>))"
      by (rule moves.accept [OF assms(2) _ _ a(3,2)]) (use a(1) True in \<open>auto simp: accept_start_def Let_def\<close>)
    with a(1) True show ?thesis by (auto simp: accept_start_def Let_def)
  next
    case False
    with a(1) show ?thesis
      by (auto simp: accept_start_def split: if_splits dest!: cancel_moves [of t _ _ _ _ step])
  qed
  show ?thesis
  proof (cases "k_verifications c t")
    case (Some v)
    with assms accepted [of v c "Some v"] show ?thesis
      by (auto simp: verification_start_def split: if_splits intro: moves.stay)
  next
    case None
    show ?thesis
    proof (cases "get_str ''from_device'' content")
      case None
      with assms \<open>k_verifications c t = None\<close> show ?thesis
        by (auto simp: verification_start_def intro: moves.stay)
    next
      case (Some from_device)
      have new: "vf_start (new_verification now sender from_device) = None" for now by (simp add: new_verification_def)
      from Some assms \<open>k_verifications c t = None\<close> accepted [where d = "insert_new V t sender from_device c" and old = None, OF _ new]
      show ?thesis by (auto simp: verification_start_def new)
    qed
  qed
qed

lemma key_moves:
  assumes "verification_key V t me dev content c = (step, c')"
    "ev = Receive sender ''m.key.verification.key'' content"
  shows "moves V me dev t c ev step (k_verifications c t) (k_verifications c' t)
    \<and> (\<forall>u. u \<noteq> t \<longrightarrow> k_verifications c' u = k_verifications c u)"
proof (cases "k_verifications c t")
  case None
  with assms show ?thesis by (auto simp: verification_key_def intro: moves.stay)
next
  case (Some v)
  show ?thesis
  proof (cases "\<exists>k s our est. get_str ''key'' content = Some k \<and> vf_sas v = Some s
      \<and> vf_our_public_key v = Some our \<and> sas_dh V s k = Inr est")
    case True
    then obtain k s our est where k: "get_str ''key'' content = Some k" "vf_sas v = Some s"
      "vf_our_public_key v = Some our" "sas_dh V s k = Inr est" by blast
    have "moves V me dev t c ev step (Some v)
        (Some (v\<lparr>vf_sas := None, vf_their_public_key := Some k, vf_established := Some est\<rparr>))"
      by (rule moves.key [OF assms(2) _ k]) (use assms(1) Some k in \<open>auto simp: verification_key_def Let_def\<close>)
    with assms(1) Some k show ?thesis by (auto simp: verification_key_def Let_def)
  next
    case False
    with assms(1) Some show ?thesis
      by (auto simp: verification_key_def Let_def split: option.splits sum.splits dest!: cancel_moves [of t _ _ _ _ step])
  qed
qed

lemma mac_moves:
  assumes "verification_mac V t me dev content c = (step, c')"
    "ev = Receive sender ''m.key.verification.mac'' content"
  shows "moves V me dev t c ev step (k_verifications c t) (k_verifications c' t)
    \<and> (\<forall>u. u \<noteq> t \<longrightarrow> k_verifications c' u = k_verifications c u)"
proof (cases "k_verifications c t")
  case None
  with assms show ?thesis by (auto simp: verification_mac_def intro: moves.stay)
next
  case (Some v)
  show ?thesis
  proof (cases "\<exists>est. vf_established v = Some est \<and> macs_verified V me dev t est v c content")
    case True
    then obtain est where est: "vf_established v = Some est" "macs_verified V me dev t est v c content" by blast
    then have step: "settle t (v\<lparr>vf_they_sent_mac := True\<rparr>) (drop_entry t c) = (step, c')"
      using assms(1) Some by (auto simp: verification_mac_def macs_verified_code Let_def split: option.splits)
    from settle_settled [OF step] show ?thesis
      unfolding Some by (auto intro: moves.mac [OF assms(2) est])
  next
    case False
    with assms(1) Some show ?thesis
      by (auto simp: verification_mac_def macs_verified_code Let_def split: option.splits if_splits
          dest!: cancel_moves [of t _ _ _ _ step])
  qed
qed

lemma done_moves:
  assumes "verification_done t c = (step, c')" "ev = Receive sender ''m.key.verification.done'' content"
  shows "moves V me dev t c ev step (k_verifications c t) (k_verifications c' t)
    \<and> (\<forall>u. u \<noteq> t \<longrightarrow> k_verifications c' u = k_verifications c u)"
proof (cases "k_verifications c t")
  case None
  with assms show ?thesis by (auto simp: verification_done_def intro: moves.stay)
next
  case (Some v)
  with assms(1) have "settle t (v\<lparr>vf_they_sent_done := True\<rparr>) c = (step, c')" by (simp add: verification_done_def)
  from settle_settled [OF this] show ?thesis
    unfolding Some by (auto intro: moves.their_done [OF assms(2)])
qed

lemma confirm_moves:
  assumes "confirm_verification V me dev t b c = (step, c')"
  shows "moves V me dev t c (Confirm t b) step (k_verifications c t) (k_verifications c' t)
    \<and> (\<forall>u. u \<noteq> t \<longrightarrow> k_verifications c' u = k_verifications c u)"
proof (cases "k_verifications c t")
  case None
  with assms show ?thesis by (auto simp: confirm_verification_def intro: moves.stay)
next
  case (Some v)
  show ?thesis
  proof (cases "b \<and> vf_established v \<noteq> None")
    case True
    then obtain est where est: "vf_established v = Some est" and b: "b = True" by auto
    obtain st d where s: "settle t (v\<lparr>vf_we_sent_mac := True, vf_we_sent_done := True\<rparr>) c = (st, d)"
      by (cases "settle t (v\<lparr>vf_we_sent_mac := True, vf_we_sent_done := True\<rparr>) c")
    have step: "vs_done step = vs_done st" "vs_emoji step = vs_emoji st" "c' = d"
      "map fst (vs_send step) = [''m.key.verification.mac'', ''m.key.verification.done'']"
      using assms Some est b s by (auto simp: confirm_verification_def Let_def)
    from settle_settled [OF s] have "settled step (v\<lparr>vf_we_sent_mac := True, vf_we_sent_done := True\<rparr>) (k_verifications c' t)"
      by (simp add: settled_def step)
    from moves.confirm [OF _ est this step(4), of "Confirm t b" t V me dev c] settle_settled [OF s] show ?thesis
      unfolding Some b step(3) by simp
  next
    case False
    with assms Some show ?thesis
      by (auto simp: confirm_verification_def Let_def split: option.splits if_splits dest!: cancel_moves [of t _ _ _ _ step])
  qed
qed

text \<open>
  Every handler makes one move on the entry of its transaction, after the entries that are too old
  have been dropped, and touches no other.
\<close>

definition fresh_of :: "'k crypto_lib \<Rightarrow> verify_event \<Rightarrow> 'k crypto \<Rightarrow> 'k crypto" where
  "fresh_of V ev c = (case ev of Receive _ _ _ \<Rightarrow> expire_verifications V c | Confirm _ _ \<Rightarrow> c)"

lemma respond_moves:
  assumes "respond V me dev ev c = (step, c')"
  shows "case subject ev of
       None \<Rightarrow> step = quiet_step \<and> k_verifications c' = k_verifications (fresh_of V ev c)
     | Some t \<Rightarrow> moves V me dev t (fresh_of V ev c) ev step (k_verifications (fresh_of V ev c) t) (k_verifications c' t)
         \<and> (\<forall>u. u \<noteq> t \<longrightarrow> k_verifications c' u = k_verifications (fresh_of V ev c) u)"
proof (cases ev)
  case (Confirm t b)
  with assms confirm_moves [of V me dev t b c step c'] show ?thesis by (simp add: fresh_of_def)
next
  case (Receive sender kind content)
  show ?thesis
  proof (cases "get_str ''transaction_id'' content")
    case None
    with assms Receive show ?thesis by (simp add: handle_verification_def fresh_of_def Let_def)
  next
    case (Some t)
    have other: "verification_cancel t content d = (step, c') \<Longrightarrow>
        moves V me dev t d ev step (k_verifications d t) (k_verifications c' t)
        \<and> (\<forall>u. u \<noteq> t \<longrightarrow> k_verifications c' u = k_verifications d u)" for d
      by (cases "k_verifications d t")
        (auto simp: verification_cancel_def moves.stay Let_def intro!: moves.give_up)
    have h: "handle_verification V me dev sender kind content c = (step, c')" using assms Receive by simp
    have fresh: "fresh_of V ev c = expire_verifications V c" and s: "subject ev = Some t"
      using Receive Some by (simp_all add: fresh_of_def)
    show ?thesis
      unfolding s fresh option.case using h Some Receive other [of "expire_verifications V c"]
        request_moves [of V t sender dev content "expire_verifications V c" step c' ev me]
        start_moves [of V t sender content "expire_verifications V c" step c' ev me dev]
        key_moves [of V t me dev content "expire_verifications V c" step c' ev sender]
        mac_moves [of V t me dev content "expire_verifications V c" step c' ev sender]
        done_moves [of t "expire_verifications V c" step c' ev sender content V me dev]
      unfolding handle_verification_def Let_def
      by (auto split: if_splits intro: moves.stay)
  qed
qed

section \<open>Histories\<close>

text \<open>
  The events so far, each with the step it led to and the crypto state it came to. Between two events
  anything may happen that does not touch the verifications: keys arrive, devices are remembered,
  messages are sent.
\<close>

type_synonym 'k occurrence = "verify_event \<times> verify_step \<times> 'k crypto"

inductive reach :: "'k crypto_lib \<Rightarrow> string \<Rightarrow> string \<Rightarrow> 'k occurrence list \<Rightarrow> 'k crypto \<Rightarrow> bool"
  for V me dev where
  init: "k_verifications c = Map.empty \<Longrightarrow> reach V me dev [] c"
| event: "reach V me dev h c \<Longrightarrow> respond V me dev ev c = (step, c') \<Longrightarrow> reach V me dev (h @ [(ev, step, c)]) c'"
| elsewhere: "reach V me dev h c \<Longrightarrow> k_verifications c' = k_verifications c \<Longrightarrow> reach V me dev h c'"

definition emoji_shown :: "'k crypto_lib \<Rightarrow> string \<Rightarrow> string \<Rightarrow> string \<Rightarrow> string \<Rightarrow> 'k \<Rightarrow> 'k occurrence \<Rightarrow> bool" where
  "emoji_shown V me dev t d est x \<longleftrightarrow> (case x of (ev, step, c) \<Rightarrow> \<exists>sender content v s their our.
     ev = Receive sender ''m.key.verification.key'' content \<and> get_str ''transaction_id'' content = Some t
     \<and> k_verifications c t = Some v \<and> vf_their_device v = d \<and> vf_sas v = Some s \<and> vf_our_public_key v = Some our
     \<and> get_str ''key'' content = Some their \<and> sas_dh V s their = Inr est
     \<and> vs_emoji step = Some (t, d, est_emoji V est (sas_info v their me dev our t)))"

definition agreed :: "string \<Rightarrow> 'k occurrence \<Rightarrow> bool" where
  "agreed t x \<longleftrightarrow> fst x = Confirm t True"

definition macs_checked :: "'k crypto_lib \<Rightarrow> string \<Rightarrow> string \<Rightarrow> string \<Rightarrow> string \<Rightarrow> 'k \<Rightarrow> 'k occurrence \<Rightarrow> bool" where
  "macs_checked V me dev t d est x \<longleftrightarrow> (case x of (ev, step, c) \<Rightarrow> \<exists>sender content v.
     ev = Receive sender ''m.key.verification.mac'' content \<and> get_str ''transaction_id'' content = Some t
     \<and> k_verifications c t = Some v \<and> vf_their_device v = d \<and> vf_established v = Some est
     \<and> macs_verified V me dev t est v c content)"

definition finished :: "string \<Rightarrow> 'k occurrence \<Rightarrow> bool" where
  "finished t x \<longleftrightarrow> (\<exists>sender content. fst x = Receive sender ''m.key.verification.done'' content
     \<and> get_str ''transaction_id'' content = Some t)"

definition committed :: "'k crypto_lib \<Rightarrow> string \<Rightarrow> string \<Rightarrow> 'k occurrence \<Rightarrow> bool" where
  "committed V t k x \<longleftrightarrow> (\<exists>sender content device. fst x = Receive sender ''m.key.verification.start'' content
     \<and> vs_send (fst (snd x)) = [(''m.key.verification.accept'', device, accept_content (commitment V k content) t)])"

text \<open>Somewhere \<open>P\<close>, and later \<open>Q\<close>.\<close>

definition followed :: "'a list \<Rightarrow> ('a \<Rightarrow> bool) \<Rightarrow> ('a \<Rightarrow> bool) \<Rightarrow> bool" where
  "followed h P Q \<longleftrightarrow> (\<exists>h1 x h2. h = h1 @ x # h2 \<and> P x \<and> (\<exists>y \<in> set h2. Q y))"

lemma followed_mono: "followed h P Q \<Longrightarrow> followed (h @ [y]) P Q"
  unfolding followed_def by fastforce

lemma followed_last: "\<exists>x \<in> set h. P x \<Longrightarrow> Q y \<Longrightarrow> followed (h @ [y]) P Q"
proof -
  assume "\<exists>x \<in> set h. P x" and Q: "Q y"
  then obtain x where "x \<in> set h" "P x" by blast
  moreover from this(1) obtain h1 h2 where "h = h1 @ x # h2" by (meson split_list)
  ultimately have "h @ [y] = h1 @ x # (h2 @ [y]) \<and> P x \<and> (\<exists>z \<in> set (h2 @ [y]). Q z)" using Q by simp
  then show ?thesis unfolding followed_def by blast
qed

definition verified ::
  "'k crypto_lib \<Rightarrow> string \<Rightarrow> string \<Rightarrow> 'k occurrence list \<Rightarrow> string \<Rightarrow> bool" where
  "verified V me dev h d \<longleftrightarrow> (\<exists>t est. followed h (emoji_shown V me dev t d est) (agreed t)
     \<and> followed h (emoji_shown V me dev t d est) (macs_checked V me dev t d est)
     \<and> (\<exists>x \<in> set h. finished t x))"

lemma verified_mono: "verified V me dev h d \<Longrightarrow> verified V me dev (h @ [y]) d"
  unfolding verified_def by (fastforce intro: followed_mono)

text \<open>What the history has to hold for an entry to be in the state it is in.\<close>

definition backed ::
  "'k crypto_lib \<Rightarrow> string \<Rightarrow> string \<Rightarrow> 'k occurrence list \<Rightarrow> string \<Rightarrow> 'k verification \<Rightarrow> bool" where
  "backed V me dev h t v \<longleftrightarrow>
     (\<forall>k. vf_our_public_key v = Some k \<longrightarrow> (\<exists>x \<in> set h. committed V t k x))
     \<and> (vf_start v = None \<longrightarrow> vf_established v = None \<and> vf_our_public_key v = None)
     \<and> (\<forall>est. vf_established v = Some est \<longrightarrow> vf_sas v = None
          \<and> (\<exists>x \<in> set h. emoji_shown V me dev t (vf_their_device v) est x)
          \<and> (vf_we_sent_mac v \<longrightarrow> followed h (emoji_shown V me dev t (vf_their_device v) est) (agreed t))
          \<and> (vf_they_sent_mac v \<longrightarrow> followed h (emoji_shown V me dev t (vf_their_device v) est)
               (macs_checked V me dev t (vf_their_device v) est)))
     \<and> (vf_established v = None \<longrightarrow> \<not> vf_we_sent_mac v \<and> \<not> vf_they_sent_mac v)
     \<and> (vf_they_sent_done v \<longrightarrow> (\<exists>x \<in> set h. finished t x))
     \<and> vf_we_sent_done v = vf_we_sent_mac v"

lemma backed_mono: "backed V me dev h t v \<Longrightarrow> backed V me dev (h @ [y]) t v"
  unfolding backed_def by (auto intro: followed_mono)

lemma backed_new: "backed V me dev h t (new_verification now user device)"
  by (simp add: backed_def new_verification_def)

lemma backed_complete:
  assumes "backed V me dev h t v" "complete v"
  shows "verified V me dev h (vf_their_device v)"
proof -
  from assms obtain est where "vf_established v = Some est" unfolding backed_def complete_def by auto
  with assms show ?thesis unfolding backed_def complete_def verified_def by auto
qed

lemma backed_settled:
  assumes "backed V me dev h t v" "settled step v new"
  shows "(\<forall>w. new = Some w \<longrightarrow> backed V me dev h t w) \<and> (\<forall>d. vs_done step = Some d \<longrightarrow> verified V me dev h d)"
  using assms backed_complete [OF assms(1)] by (auto simp: settled_def split: if_splits)

lemma fresh_of_subset: "k_verifications (fresh_of V ev c) t = Some v \<Longrightarrow> k_verifications c t = Some v"
  by (cases ev) (auto simp: fresh_of_def expire_verifications_def Let_def split: option.splits if_splits)

lemma macs_verified_fresh: "macs_verified V me dev t est v (fresh_of V ev c) content = macs_verified V me dev t est v c content"
  by (simp add: macs_verified_def fresh_of_def split: verify_event.split)

text \<open>One move keeps an entry backed, and reports a device as done only when that is backed too.\<close>

lemma backed_move:
  assumes m: "moves V me dev t (fresh_of V ev c) ev step old new" and b: "\<And>v. old = Some v \<Longrightarrow> backed V me dev h t v"
    and t: "subject ev = Some t" and now: "old = k_verifications (fresh_of V ev c) t"
  shows "(\<forall>w. new = Some w \<longrightarrow> backed V me dev (h @ [(ev, step, c)]) t w)
    \<and> (\<forall>d. vs_done step = Some d \<longrightarrow> verified V me dev (h @ [(ev, step, c)]) d)"
  using m
proof cases
  case stay
  with b show ?thesis by (auto intro: backed_mono)
next
  case (request sender content now device)
  then show ?thesis by (auto intro: backed_new)
next
  case (accept sender content v now device s)
  then have v: "backed V me dev h t v" using b backed_new by blast
  have "committed V t (sas_public V s) (ev, step, c)" using accept by (auto simp: committed_def)
  with backed_mono [OF v, of "(ev, step, c)"] accept show ?thesis by (auto simp: backed_def)
next
  case (key sender content their_key v s our_key est)
  then have v: "backed V me dev h t v" using b by blast
  have "k_verifications c t = Some v" by (rule fresh_of_subset [where ev = ev and V = V]) (use now \<open>old = Some v\<close> in simp)
  then have "emoji_shown V me dev t (vf_their_device v) est (ev, step, c)" 
    unfolding emoji_shown_def prod.case using key t
    by (intro exI [of _ sender] exI [of _ content] exI [of _ v] exI [of _ s] exI [of _ their_key] exI [of _ our_key]) simp
  with v key show ?thesis unfolding backed_def by (cases "vf_established v") auto
next
  case (mac sender content v est)
  let ?h = "h @ [(ev, step, c)]" and ?w = "v\<lparr>vf_they_sent_mac := True\<rparr>"
  have v: "backed V me dev h t v" using b mac by blast
  have "k_verifications c t = Some v" by (rule fresh_of_subset [where ev = ev and V = V]) (use now \<open>old = Some v\<close> in simp)
  moreover have "macs_verified V me dev t est v c content" using mac by (simp add: macs_verified_fresh)
  ultimately have "macs_checked V me dev t (vf_their_device v) est (ev, step, c)" 
    unfolding macs_checked_def prod.case using mac t
    by (intro exI [of _ sender] exI [of _ content] exI [of _ v]) simp
  then have "followed ?h (emoji_shown V me dev t (vf_their_device v) est) (macs_checked V me dev t (vf_their_device v) est)"
    using v mac by (intro followed_last) (auto simp: backed_def)
  with backed_mono [OF v, of "(ev, step, c)"] mac have "backed V me dev ?h t ?w" by (auto simp: backed_def)
  from backed_settled [OF this] mac show ?thesis by blast
next
  case (their_done sender content v)
  let ?h = "h @ [(ev, step, c)]" and ?w = "v\<lparr>vf_they_sent_done := True\<rparr>"
  have v: "backed V me dev h t v" using b their_done by blast
  have "finished t (ev, step, c)" using their_done t by (auto simp: finished_def)
  with backed_mono [OF v, of "(ev, step, c)"] have "backed V me dev ?h t ?w" by (auto simp: backed_def)
  from backed_settled [OF this] their_done show ?thesis by blast
next
  case (confirm v est)
  let ?h = "h @ [(ev, step, c)]" and ?w = "v\<lparr>vf_we_sent_mac := True, vf_we_sent_done := True\<rparr>"
  have v: "backed V me dev h t v" using b confirm by blast
  have "agreed t (ev, step, c)" using confirm by (simp add: agreed_def)
  then have "followed ?h (emoji_shown V me dev t (vf_their_device v) est) (agreed t)"
    using v confirm by (intro followed_last) (auto simp: backed_def)
  with backed_mono [OF v, of "(ev, step, c)"] confirm have "backed V me dev ?h t ?w" by (auto simp: backed_def)
  from backed_settled [OF this] confirm show ?thesis by blast
qed simp_all

lemma reach_backed:
  "reach V me dev h c \<Longrightarrow> (\<forall>t v. k_verifications c t = Some v \<longrightarrow> backed V me dev h t v)
    \<and> (\<forall>x \<in> set h. \<forall>d. vs_done (fst (snd x)) = Some d \<longrightarrow> verified V me dev h d)"
proof (induction rule: reach.induct)
  case (event h c ev step c')
  let ?h = "h @ [(ev, step, c)]"
  have old: "backed V me dev h t v" if "k_verifications (fresh_of V ev c) t = Some v" for t v
    using event.IH fresh_of_subset [OF that] by blast
  have "(\<forall>t v. k_verifications c' t = Some v \<longrightarrow> backed V me dev ?h t v)
      \<and> (\<forall>d. vs_done step = Some d \<longrightarrow> verified V me dev ?h d)"
  proof (cases "subject ev")
    case None
    with respond_moves [OF event.hyps(2)] old show ?thesis by (auto intro: backed_mono)
  next
    case (Some t)
    with respond_moves [OF event.hyps(2)]
    have m: "moves V me dev t (fresh_of V ev c) ev step (k_verifications (fresh_of V ev c) t) (k_verifications c' t)"
      and u: "\<And>u. u \<noteq> t \<Longrightarrow> k_verifications c' u = k_verifications (fresh_of V ev c) u" by auto
    have "backed V me dev ?h u v" if "k_verifications c' u = Some v" for u v
      using backed_move [OF m old Some refl] u [of u] old [of u v] that backed_mono by (cases "u = t") auto
    with backed_move [OF m old Some refl] show ?thesis by blast
  qed
  with event.IH show ?case by (auto intro: verified_mono)
qed auto

text \<open>A key message opens a commitment made earlier in the same transaction.\<close>

definition reveals :: "string \<Rightarrow> string \<Rightarrow> verify_step \<Rightarrow> bool" where
  "reveals t k step \<longleftrightarrow> (\<exists>device. (''m.key.verification.key'', device,
     obj [(''key'', JStr k), (''transaction_id'', JStr t)]) \<in> set (vs_send step))"

lemma obj_inj: "obj [(''key'', JStr k), (''transaction_id'', JStr t)] = obj [(''key'', JStr k'), (''transaction_id'', JStr t')]
    \<longleftrightarrow> k = k' \<and> t = t'"
  by (simp add: obj_def bt_collect_def)

lemma move_reveals:
  assumes "moves V me dev u c ev step old new" "reveals t k step"
    "\<And>v. old = Some v \<Longrightarrow> backed V me dev h u v" "subject ev = Some u"
  shows "\<exists>x \<in> set h. committed V t k x"
  using assms(1)
proof cases
  case (key sender content their_key v s our_key est)
  then have "backed V me dev h u v" using assms(3) by blast
  with key assms(2) show ?thesis by (auto simp: reveals_def obj_inj backed_def)
qed (use assms(2) in \<open>auto simp: reveals_def\<close>)

lemma reach_reveals:
  "reach V me dev h c \<Longrightarrow> h = h1 @ x # h2 \<Longrightarrow> reveals t k (fst (snd x)) \<Longrightarrow> \<exists>y \<in> set h1. committed V t k y"
proof (induction arbitrary: h2 rule: reach.induct)
  case (event h c ev step c')
  have old: "backed V me dev h u v" if "k_verifications (fresh_of V ev c) u = Some v" for u v
    using reach_backed [OF event.hyps(1)] fresh_of_subset [OF that] by blast
  show ?case
  proof (cases h2 rule: rev_cases)
    case Nil
    then have h: "h = h1" "x = (ev, step, c)" using event.prems(1) by simp_all
    show ?thesis
    proof (cases "subject ev")
      case None
      with respond_moves [OF event.hyps(2)] event.prems(2) h show ?thesis by (simp add: reveals_def)
    next
      case (Some u)
      with respond_moves [OF event.hyps(2)]
      have "moves V me dev u (fresh_of V ev c) ev step (k_verifications (fresh_of V ev c) u) (k_verifications c' u)" by simp
      from move_reveals [OF this _ old Some] event.prems(2) h show ?thesis by simp
    qed
  next
    case (snoc h2' y)
    with event.prems(1) have "h = h1 @ x # h2'" by simp
    from event.IH [OF this event.prems(2)] show ?thesis .
  qed
qed auto

section \<open>Properties\<close>

text \<open>
  C5: Whatever events arrive and however they are interleaved with each other and with everything
  else the daemon does, a device is reported as verified only if, in the same transaction, its emoji
  were shown for one key exchange, the user later agreed, a MAC message passed later under that very
  key exchange, and the other side said it was done. A MAC message has passed if the MAC over its key
  ids is right and, for every signing key of that user's devices it lists and the daemon knew at that
  moment, the MAC over that key is. (A listed key the daemon does not know is passed over.)
\<close>

theorem verified_only_after_comparison:
  assumes "reach V me dev h c" "(ev, step, c0) \<in> set h" "vs_done step = Some d"
  shows "\<exists>t est. followed h (emoji_shown V me dev t d est) (agreed t)
    \<and> followed h (emoji_shown V me dev t d est) (macs_checked V me dev t d est)
    \<and> (\<exists>x \<in> set h. finished t x)"
  using reach_backed [OF assms(1)] assms(2,3) unfolding verified_def by force

lemmas demo_events = demo_start_def demo_key_def demo_mac_content_def demo_done_def obj_def bt_collect_def
  get_str_def get_obj_def get_arr_def

fun demo_events_run :: "verify_event list \<Rightarrow> string occurrence list \<times> string crypto
    \<Rightarrow> string occurrence list \<times> string crypto" where
  "demo_events_run [] hc = hc"
| "demo_events_run (ev # evs) (h, c) =
     (case respond demo_crypto ''@me:a.io'' ''ME'' ev c of (step, c') \<Rightarrow> demo_events_run evs (h @ [(ev, step, c)], c'))"

definition demo_run :: "verify_event list" where
  "demo_run = [Receive ''@me:a.io'' ''m.key.verification.start'' demo_start,
     Receive ''@me:a.io'' ''m.key.verification.key'' demo_key, Confirm ''t'' True,
     Receive ''@me:a.io'' ''m.key.verification.mac'' demo_mac_content,
     Receive ''@me:a.io'' ''m.key.verification.done'' demo_done]"

lemma demo_reach: "reach demo_crypto ''@me:a.io'' ''ME'' h c
    \<Longrightarrow> reach demo_crypto ''@me:a.io'' ''ME'' (fst (demo_events_run evs (h, c))) (snd (demo_events_run evs (h, c)))"
proof (induction evs arbitrary: h c)
  case (Cons ev evs)
  obtain step c' where r: "respond demo_crypto ''@me:a.io'' ''ME'' ev c = (step, c')"
    by (cases "respond demo_crypto ''@me:a.io'' ''ME'' ev c")
  from Cons.IH [OF reach.event [OF Cons.prems r]] r show ?case by simp
qed simp

lemmas demo_handlers = handle_verification_def expire_verifications_def verification_start_def accept_start_def
  verification_key_def verification_mac_def verification_done_def confirm_verification_def settle_def complete_def
  negotiated_def offers_def insert_new_def put_entry_def drop_entry_def new_verification_def verify_mac_b64_def
  VERIFICATION_TIMEOUT_def Let_def

lemma demo_done_step: "vs_done (fst (snd (last (fst (demo_events_run demo_run ([], demo_state)))))) = Some ''D''"
  by (simp add: demo_run_def demo_events demo_handlers demo_state_def demo_crypto_def strip_prefix_def)

abbreviation demo_history where
  "demo_history \<equiv> fst (demo_events_run demo_run ([], demo_state))"

lemma demo_history_reach: "reach demo_crypto ''@me:a.io'' ''ME'' demo_history (snd (demo_events_run demo_run ([], demo_state)))"
  by (rule demo_reach) (rule reach.init, simp add: demo_state_def)

lemma demo_history_length: "length (fst (demo_events_run evs hc)) = length (fst hc) + length evs"
  by (induction evs hc rule: demo_events_run.induct) (auto split: prod.split)

lemma demo_history_5: "length demo_history = 5"
  by (simp only: demo_history_length) (simp add: demo_run_def)

theorem verified_only_after_comparison_witness:
  "\<exists>t est. followed demo_history (emoji_shown demo_crypto ''@me:a.io'' ''ME'' t ''D'' est) (agreed t)
    \<and> followed demo_history (emoji_shown demo_crypto ''@me:a.io'' ''ME'' t ''D'' est)
        (macs_checked demo_crypto ''@me:a.io'' ''ME'' t ''D'' est)
    \<and> (\<exists>x \<in> set demo_history. finished t x)"
proof -
  have "last demo_history \<in> set demo_history"
    using demo_history_5 by (intro last_in_set) (metis list.size(3) zero_neq_numeral)
  with verified_only_after_comparison [OF demo_history_reach, of "fst (last demo_history)" "fst (snd (last demo_history))"
      "snd (snd (last demo_history))"]
    demo_done_step show ?thesis by simp
qed

text \<open>
  C24: Our ephemeral key is only ever revealed after it was committed to: every key message we send
  carries a key whose hash, with the exact start content it answers, we had sent in an accept of the
  same transaction before.
\<close>

theorem key_opens_commitment:
  assumes "reach V me dev h c" "h = h1 @ (ev, step, c0) # h2"
    and "(''m.key.verification.key'', device, obj [(''key'', JStr k), (''transaction_id'', JStr t)]) \<in> set (vs_send step)"
  shows "\<exists>x \<in> set h1. \<exists>sender content device. fst x = Receive sender ''m.key.verification.start'' content
    \<and> vs_send (fst (snd x)) = [(''m.key.verification.accept'', device, accept_content (commitment V k content) t)]"
proof -
  have "reveals t k step" using assms(3) by (auto simp: reveals_def)
  with reach_reveals [OF assms(1,2)] show ?thesis unfolding committed_def by simp
qed

theorem key_opens_commitment_witness:
  "\<exists>h1 ev step c0 h2. demo_history = h1 @ (ev, step, c0) # h2 \<and>
     (\<exists>x \<in> set h1. \<exists>sender content device. fst x = Receive sender ''m.key.verification.start'' content
       \<and> vs_send (fst (snd x)) = [(''m.key.verification.accept'', device,
            accept_content (commitment demo_crypto ''sas'' content) ''t'')])"
proof -
  have len: "1 < length demo_history"
    by (simp only: demo_history_5)
  obtain ev step c0 where x: "demo_history ! 1 = (ev, step, c0)" by (cases "demo_history ! 1")
  have h: "demo_history = take 1 demo_history @ (ev, step, c0) # drop 2 demo_history"
    using id_take_nth_drop [OF len] x by (simp add: numeral_2_eq_2)
  have "vs_send (fst (snd (demo_history ! 1))) = [(''m.key.verification.key'', ''D'',
      obj [(''key'', JStr ''sas''), (''transaction_id'', JStr ''t'')])]"
    by (simp add: demo_run_def demo_events demo_handlers demo_state_def demo_crypto_def strip_prefix_def)
  then have "(''m.key.verification.key'', ''D'', obj [(''key'', JStr ''sas''), (''transaction_id'', JStr ''t'')]) \<in> set (vs_send step)"
    using x by simp
  from key_opens_commitment [OF demo_history_reach h this] h show ?thesis by blast
qed

text \<open>
  C37: Of a transaction that is unknown or older than ten minutes only a request or a start is
  answered; every other event is dropped without a reply and without an effect on the other
  verifications.
\<close>

theorem stale_transaction_ignored:
  assumes "get_str ''transaction_id'' content = Some t"
    and "kind \<notin> {''m.key.verification.request'', ''m.key.verification.start''}"
    and "case k_verifications c t of None \<Rightarrow> True | Some v \<Rightarrow> vf_created v + 600000 \<le> instant_ms V (k_reads c)"
  shows "handle_verification V me dev sender kind content c = (quiet_step, expire_verifications V c)
    \<and> k_verifications (expire_verifications V c) t = None"
proof -
  have "k_verifications (expire_verifications V c) t = None"
    using assms(3) by (auto simp: expire_verifications_def Let_def VERIFICATION_TIMEOUT_def split: option.splits)
  with assms(1,2) show ?thesis
    by (simp add: handle_verification_def Let_def verification_key_def verification_mac_def verification_done_def
        verification_cancel_def)
qed

theorem stale_transaction_ignored_witness:
  "handle_verification demo_crypto ''@me:a.io'' ''ME'' ''@me:a.io'' ''m.key.verification.done'' demo_done demo_state
     = (quiet_step, expire_verifications demo_crypto demo_state)"
  using stale_transaction_ignored [of demo_done "''t''" "''m.key.verification.done''" demo_crypto demo_state]
  by (simp add: demo_events demo_state_def)

end
