(* ===== verification/Crypto_Laws.thy ===== *)
theory Crypto_Laws
  imports Crypto_Share Store_View
begin

text \<open>
  What \<open>Crypto\<close> keeps true of the store: every key and session held in memory can be read back from
  the pickle table, in the state a restart has to find it in. Each operation keeps this, and a
  restart rebuilds the state from it.
\<close>

section \<open>What is relied on\<close>

text \<open>
  Documented behaviour of vodozemac and base64: pickles and base64 can be read back, a session keeps
  its id (and its first index) as its ratchet moves, a failed operation leaves the session as it
  was, and an account keeps its identity keys.
\<close>

definition crypto_lib_ok :: "'k crypto_lib \<Rightarrow> bool" where
  "crypto_lib_ok V \<longleftrightarrow>
     cipher_ok (db_cipher V)
     \<and> (\<forall>b. std_decode V (std_encode V b) = Inr b \<and> ascii (std_encode V b) \<and> \<not> is_sealed (std_encode V b))
     \<and> (\<forall>n. length (random_key V n) = 32)
     \<and> (\<forall>key k. acc_unpickle V key (acc_pickle V key k) = Inr k \<and> sess_unpickle V key (sess_pickle V key k) = Inr k
          \<and> in_unpickle V key (in_pickle V key k) = Inr k \<and> out_unpickle V key (out_pickle V key k) = Inr k)
     \<and> (\<forall>k m r k'. sess_decrypt V k m = (r, k') \<longrightarrow> sess_id V k' = sess_id V k \<and> (\<forall>e. r = Inl e \<longrightarrow> k' = k))
     \<and> (\<forall>n k p r k'. sess_encrypt V n k p = (r, k') \<longrightarrow> sess_id V k' = sess_id V k \<and> (\<forall>e. r = Inl e \<longrightarrow> k' = k))
     \<and> (\<forall>k m. in_id V (snd (in_decrypt V k m)) = in_id V k \<and> in_first V (snd (in_decrypt V k m)) = in_first V k)
     \<and> (\<forall>n m k i p. \<forall>f \<in> {acc_generate V n m, acc_published V, \<lambda>a. snd (acc_inbound V a i p)}.
          acc_curve V (f k) = acc_curve V k \<and> acc_ed V (f k) = acc_ed V k)"

lemma lib_db: "crypto_lib_ok V \<Longrightarrow> cipher_ok (db_cipher V)"
  by (simp add: crypto_lib_ok_def)

lemma lib_base64:
  "crypto_lib_ok V \<Longrightarrow> std_decode V (std_encode V b) = Inr b"
  "crypto_lib_ok V \<Longrightarrow> text_ok key (std_encode V b)"
  "crypto_lib_ok V \<Longrightarrow> length (random_key V n) = 32"
  by (auto simp: crypto_lib_ok_def text_ok_def valid_utf8_ascii)

lemma lib_pickles:
  assumes "crypto_lib_ok V"
  shows "acc_unpickle V key (acc_pickle V key k) = Inr k" "sess_unpickle V key (sess_pickle V key k) = Inr k"
    "in_unpickle V key (in_pickle V key k) = Inr k" "out_unpickle V key (out_pickle V key k) = Inr k"
  using assms by (simp_all add: crypto_lib_ok_def)

lemma lib_sessions:
  assumes "crypto_lib_ok V"
  shows "sess_decrypt V k m = (r, k') \<Longrightarrow> sess_id V k' = sess_id V k"
    "sess_decrypt V k m = (Inl e, k') \<Longrightarrow> k' = k"
    "sess_encrypt V n k p = (x, k') \<Longrightarrow> sess_id V k' = sess_id V k"
    "sess_encrypt V n k p = (Inl e, k') \<Longrightarrow> k' = k"
  using assms unfolding crypto_lib_ok_def by blast+

lemma lib_identity:
  assumes "crypto_lib_ok V"
  shows "acc_curve V (acc_generate V n m k) = acc_curve V k" "acc_ed V (acc_generate V n m k) = acc_ed V k"
    "acc_curve V (acc_published V k) = acc_curve V k" "acc_ed V (acc_published V k) = acc_ed V k"
    "acc_inbound V k i p = (r, a) \<Longrightarrow> acc_curve V a = acc_curve V k \<and> acc_ed V a = acc_ed V k"
  using assms unfolding crypto_lib_ok_def by (metis insertI1 insertI2 snd_conv)+

section \<open>The pickle table\<close>

definition stored :: "(string \<Rightarrow> string + 'k) \<Rightarrow> string \<Rightarrow> store \<Rightarrow> string \<Rightarrow> (string \<times> 'k) option" where
  "stored unpickle kind s i =
     Option.bind (row_at pk_key (kind, i) (t_pickle (s_db s)))
       (\<lambda>row. case unpickle (pk_pickle row) of Inr k \<Rightarrow> Some (pk_extra row, k) | Inl e \<Rightarrow> None)"

lemma row_put_pickle:
  "row_at pk_key k (t_pickle (s_db (put_pickle kind i x p s))) =
     (if k = (kind, i) then Some \<lparr>pk_kind = kind, pk_id = i, pk_extra = x, pk_pickle = p\<rparr>
      else row_at pk_key k (t_pickle (s_db s)))"
proof -
  have row: "r\<lparr>pk_extra := x, pk_pickle := p\<rparr> = \<lparr>pk_kind = kind, pk_id = i, pk_extra = x, pk_pickle = p\<rparr>"
    if "pk_key r = (kind, i)" for r using that by simp
  show ?thesis
    unfolding put_pickle_def on_db_def
    by (auto simp: row_at_upsert split: option.split dest!: row_at_SomeD intro!: row)
qed

lemma stored_put_pickle:
  "stored unpickle kind' (put_pickle kind i x p s) j =
     (if kind' = kind \<and> j = i then (case unpickle p of Inr k \<Rightarrow> Some (x, k) | Inl e \<Rightarrow> None)
      else stored unpickle kind' s j)"
  by (cases "unpickle p") (simp_all add: stored_def row_put_pickle)

text \<open>All that is asked of the tables for this: a pickle is found by its key.\<close>

definition pickles_ok :: "store \<Rightarrow> bool" where
  "pickles_ok s \<longleftrightarrow> distinct (map pk_key (t_pickle (s_db s)))"

lemma pickles_ok_put [simp]: "pickles_ok s \<Longrightarrow> pickles_ok (put_pickle kind i x p s)"
  by (auto simp: pickles_ok_def put_pickle_def on_db_def intro!: distinct_upsert)

lemma pickles_set_meta [simp]: "t_pickle (s_db (set_meta L k v s)) = t_pickle (s_db s)"
  by (simp add: set_meta_def on_db_def put_meta_row_def case_prod_unfold Let_def split: option.split)

lemma stored_set_meta [simp]: "stored unpickle kind (set_meta L k v s) = stored unpickle kind s"
  by (simp add: stored_def fun_eq_iff)

lemma pickles_ok_set_meta [simp]: "pickles_ok (set_meta L k v s) = pickles_ok s"
  by (simp add: pickles_ok_def)

text \<open>What was written to \<open>meta\<close> is read back, whatever else the store holds.\<close>

lemma key_set_meta [simp]: "s_key (set_meta L k v s) = s_key s"
  using key_run_write [of L "SetMeta k v" s] by simp

lemma get_meta_set_meta:
  assumes "cipher_ok L" "secret_meta_label k \<noteq> None \<Longrightarrow> text_ok (s_key s) v"
  shows "get_meta L k' (set_meta L k v s) = (if k' = k then Inr (Some v) else get_meta L k' s)"
proof (cases "k' = k")
  case True
  then show ?thesis
  proof (cases "secret_meta_label k")
    case (Some l)
    with protect_value [of L s v] assms have "unseal L (s_key s) c (fst (protect L v s)) = Inr v" for c
      using unseal_readable [of L "s_key s" "fst (protect L v s)"] by (simp add: value_ok_def)
    with True Some show ?thesis
      by (simp add: get_meta_def reveal_opt_def reveal_def Let_def)
        (simp add: set_meta_def on_db_def meta_row_put reveal_def case_prod_unfold Let_def)
  qed (simp add: get_meta_def set_meta_def on_db_def meta_row_put)
next
  case False
  have "meta_row k' (s_db (set_meta L k v s)) = meta_row k' (s_db s)"
    using False by (simp add: set_meta_def on_db_def case_prod_unfold Let_def meta_row_put split: option.split)
  with False show ?thesis by (simp add: get_meta_def reveal_opt_def reveal_def Let_def split: option.split)
qed

lemma all_pickles_iff:
  assumes "pickles_ok s"
  shows "(i, x, p) \<in> set (all_pickles kind s) \<longleftrightarrow>
    (\<exists>row. row_at pk_key (kind, i) (t_pickle (s_db s)) = Some row \<and> pk_extra row = x \<and> pk_pickle row = p)"
proof
  assume "(i, x, p) \<in> set (all_pickles kind s)"
  then obtain row where row: "row \<in> set (t_pickle (s_db s))" "pk_key row = (kind, i)" "pk_extra row = x" "pk_pickle row = p"
    unfolding all_pickles_def order_by_def by force
  have "distinct (map pk_key (t_pickle (s_db s)))" using assms by (simp add: pickles_ok_def)
  from row_at_member [OF this row(1)] row(2)
  have "row_at pk_key (kind, i) (t_pickle (s_db s)) = Some row" by metis
  with row show "\<exists>row. row_at pk_key (kind, i) (t_pickle (s_db s)) = Some row \<and> pk_extra row = x \<and> pk_pickle row = p"
    by blast
next
  assume "\<exists>row. row_at pk_key (kind, i) (t_pickle (s_db s)) = Some row \<and> pk_extra row = x \<and> pk_pickle row = p"
  then obtain row where "row_at pk_key (kind, i) (t_pickle (s_db s)) = Some row" "pk_extra row = x" "pk_pickle row = p"
    by blast
  with row_at_SomeD [OF this(1)] show "(i, x, p) \<in> set (all_pickles kind s)"
    unfolding all_pickles_def order_by_def by force
qed

lemma distinct_map_sort: "distinct (map f (sort_key g xs)) = distinct (map f xs)"
  unfolding distinct_map set_sort distinct_sort ..

lemma all_pickles_distinct: "pickles_ok s \<Longrightarrow> distinct (map fst (all_pickles kind s))"
proof -
  assume "pickles_ok s"
  then have d: "distinct (map pk_key (t_pickle (s_db s)))" by (simp add: pickles_ok_def)
  then have inj: "inj_on pk_key (set (t_pickle (s_db s)))" and "distinct (t_pickle (s_db s))"
    by (simp_all add: distinct_map)
  moreover have "inj_on pk_id (set (filter (\<lambda>row. pk_kind row = kind) (t_pickle (s_db s))))"
  proof (rule inj_onI)
    fix x y assume "x \<in> set (filter (\<lambda>row. pk_kind row = kind) (t_pickle (s_db s)))"
      "y \<in> set (filter (\<lambda>row. pk_kind row = kind) (t_pickle (s_db s)))" and i: "pk_id x = pk_id y"
    then have xy: "x \<in> set (t_pickle (s_db s))" "y \<in> set (t_pickle (s_db s))" and k: "pk_kind x = pk_kind y" by simp_all
    have "pk_key x = pk_key y" by (simp only: i k)
    from inj_onD [OF inj this xy] show "x = y" .
  qed
  ultimately have "distinct (map pk_id (filter (\<lambda>row. pk_kind row = kind) (t_pickle (s_db s))))"
    unfolding distinct_map by (intro conjI distinct_filter)
  then show ?thesis
    unfolding all_pickles_def order_by_def map_map comp_def fst_conv distinct_map_sort .
qed

lemma stored_iff:
  "stored unpickle kind s i = Some (x, k)
     \<longleftrightarrow> (\<exists>row. row_at pk_key (kind, i) (t_pickle (s_db s)) = Some row
           \<and> pk_extra row = x \<and> unpickle (pk_pickle row) = Inr k)"
  unfolding stored_def by (cases "row_at pk_key (kind, i) (t_pickle (s_db s))") (auto split: sum.splits)

lemma stored_pickles:
  "pickles_ok s \<Longrightarrow> stored unpickle kind s i = Some (x, k)
     \<longleftrightarrow> (\<exists>p. (i, x, p) \<in> set (all_pickles kind s) \<and> unpickle p = Inr k)"
  by (auto simp only: all_pickles_iff stored_iff)

section \<open>Reading the tables back\<close>

lemma load_by_id_fold:
  "distinct (map fst rows) \<Longrightarrow>
   fold (\<lambda>(i, x, p) m. case unpickle p of Inr k \<Rightarrow> m(i \<mapsto> k) | Inl e \<Rightarrow> m) rows m0 i
     = (case map_of rows i of
          Some (x, p) \<Rightarrow> (case unpickle p of Inr k \<Rightarrow> Some k | Inl e \<Rightarrow> m0 i)
        | None \<Rightarrow> m0 i)"
proof (induction rows arbitrary: m0)
  case (Cons row rows)
  obtain j y q where row: "row = (j, y, q)" by (cases row)
  from Cons.prems have new: "map_of rows j = None" by (simp add: row map_of_eq_None_iff)
  show ?case
  proof (cases "unpickle q")
    case (Inl e)
    with Cons.IH [of m0] Cons.prems new show ?thesis by (cases "j = i") (simp_all add: row)
  next
    case (Inr k)
    with Cons.IH [of "m0(j \<mapsto> k)"] Cons.prems new show ?thesis by (cases "j = i") (simp_all add: row fun_upd_def split: option.split sum.split)
  qed
qed simp

lemma load_by_id_stored:
  assumes "pickles_ok s"
  shows "load_by_id unpickle (all_pickles kind s) = (\<lambda>i. map_option snd (stored unpickle kind s i))"
proof
  fix i
  note d = all_pickles_distinct [OF assms, of kind]
  have "load_by_id unpickle (all_pickles kind s) i = Some k \<longleftrightarrow> (\<exists>x. stored unpickle kind s i = Some (x, k))" for k
    unfolding load_by_id_def load_by_id_fold [OF d] stored_pickles [OF assms] map_of_eq_Some_iff [OF d, symmetric]
    by (auto split: option.splits sum.splits)
  then show "load_by_id unpickle (all_pickles kind s) i = map_option snd (stored unpickle kind s i)"
    by (cases "stored unpickle kind s i"; cases "load_by_id unpickle (all_pickles kind s) i") auto
qed

definition sessions_of :: "'k crypto \<Rightarrow> string \<Rightarrow> 'k list" where
  "sessions_of c curve = (case k_olm_sessions c curve of None \<Rightarrow> [] | Some l \<Rightarrow> l)"

lemma push_at_sessions:
  "(case push_at key k m curve of None \<Rightarrow> [] | Some l \<Rightarrow> l)
     = (case m curve of None \<Rightarrow> [] | Some l \<Rightarrow> l) @ (if curve = key then [k] else [])"
  by (simp add: push_at_def)

lemma load_olm_fold:
  "k \<in> set (case fold (\<lambda>(i, sender_key, p) m. case sess_unpickle V key p of
             Inr k \<Rightarrow> push_at sender_key k m | Inl e \<Rightarrow> m) rows m0 curve of None \<Rightarrow> [] | Some l \<Rightarrow> l)
     \<longleftrightarrow> k \<in> set (case m0 curve of None \<Rightarrow> [] | Some l \<Rightarrow> l)
        \<or> (\<exists>i p. (i, curve, p) \<in> set rows \<and> sess_unpickle V key p = Inr k)"
proof (induction rows arbitrary: m0)
  case (Cons row rows)
  obtain j y q where row: "row = (j, y, q)" by (cases row)
  show ?case
  proof (cases "sess_unpickle V key q")
    case (Inl e)
    with Cons.IH [of m0] show ?thesis by (simp add: row) (metis Inl Inr_Inl_False)
  next
    case (Inr k')
    have "k \<in> set (case push_at y k' m0 curve of None \<Rightarrow> [] | Some l \<Rightarrow> l)
        \<longleftrightarrow> k \<in> set (case m0 curve of None \<Rightarrow> [] | Some l \<Rightarrow> l) \<or> curve = y \<and> k = k'"
      by (cases "curve = y") (simp_all add: push_at_sessions disj_commute)
    with Cons.IH [of "push_at y k' m0"] Inr show ?thesis
      by (simp only: row fold_Cons comp_def case_prod_conv sum.case) auto
  qed
qed simp

lemma load_olm_stored:
  assumes "pickles_ok s"
  shows "k \<in> set (case load_olm V key (all_pickles KIND_OLM s) curve of None \<Rightarrow> [] | Some l \<Rightarrow> l)
     \<longleftrightarrow> (\<exists>i. stored (sess_unpickle V key) KIND_OLM s i = Some (curve, k))"
  unfolding load_olm_def load_olm_fold stored_pickles [OF assms] by simp

section \<open>What is kept\<close>

definition same_ratchet :: "'k crypto_lib \<Rightarrow> 'k \<Rightarrow> 'k \<Rightarrow> bool" where
  "same_ratchet V k k' \<longleftrightarrow> in_id V k = in_id V k' \<and> in_first V k = in_first V k'"

text \<open>
  Each part of the state against the rows that hold it: the identity keys of the account, the inbound
  sessions up to how far their ratchet was used, the outbound sessions exactly, and the Olm sessions
  as a set, each under its id.
\<close>

definition account_kept :: "'k crypto_lib \<Rightarrow> string \<Rightarrow> store \<Rightarrow> 'k \<Rightarrow> bool" where
  "account_kept V key s a \<longleftrightarrow> (\<exists>x b. stored (acc_unpickle V key) KIND_ACCOUNT s ''self'' = Some (x, b)
     \<and> acc_curve V b = acc_curve V a \<and> acc_ed V b = acc_ed V a)"

definition inbound_kept :: "'k crypto_lib \<Rightarrow> string \<Rightarrow> store \<Rightarrow> (string \<Rightarrow> 'k option) \<Rightarrow> bool" where
  "inbound_kept V key s m \<longleftrightarrow>
     (\<forall>i. rel_option (same_ratchet V) (m i) (map_option snd (stored (in_unpickle V key) KIND_MEGOLM_IN s i)))"

definition outbound_kept :: "'k crypto_lib \<Rightarrow> string \<Rightarrow> store \<Rightarrow> (string \<Rightarrow> 'k option) \<Rightarrow> bool" where
  "outbound_kept V key s m \<longleftrightarrow>
     (\<forall>room. m room = map_option snd (stored (out_unpickle V key) KIND_MEGOLM_OUT s room))"

definition olm_kept :: "'k crypto_lib \<Rightarrow> string \<Rightarrow> store \<Rightarrow> (string \<Rightarrow> 'k list) \<Rightarrow> bool" where
  "olm_kept V key s m \<longleftrightarrow>
     (\<forall>curve k. k \<in> set (m curve) \<longrightarrow> stored (sess_unpickle V key) KIND_OLM s (sess_id V k) \<noteq> None)
     \<and> (\<forall>i curve k. stored (sess_unpickle V key) KIND_OLM s i = Some (curve, k)
          \<longrightarrow> k \<in> set (m curve) \<and> sess_id V k = i)"

definition persisted :: "'k crypto_lib \<Rightarrow> 'k cs \<Rightarrow> bool" where
  "persisted V cs \<longleftrightarrow>
     (let c = fst cs; s = snd cs; key = k_pickle_key c in
       pickles_ok s
       \<and> get_meta (db_cipher V) PICKLE_KEY_META s = Inr (Some (std_encode V key)) \<and> length key = 32
       \<and> fst (load_backup_key V s) = Inr (k_backup_key c)
       \<and> account_kept V key s (k_account c) \<and> inbound_kept V key s (k_inbound c)
       \<and> outbound_kept V key s (k_outbound c) \<and> olm_kept V key s (sessions_of c))"

lemma kinds_distinct [simp]:
  "KIND_ACCOUNT \<noteq> KIND_OLM" "KIND_ACCOUNT \<noteq> KIND_MEGOLM_IN" "KIND_ACCOUNT \<noteq> KIND_MEGOLM_OUT"
  "KIND_OLM \<noteq> KIND_ACCOUNT" "KIND_OLM \<noteq> KIND_MEGOLM_IN" "KIND_OLM \<noteq> KIND_MEGOLM_OUT"
  "KIND_MEGOLM_IN \<noteq> KIND_ACCOUNT" "KIND_MEGOLM_IN \<noteq> KIND_OLM" "KIND_MEGOLM_IN \<noteq> KIND_MEGOLM_OUT"
  "KIND_MEGOLM_OUT \<noteq> KIND_ACCOUNT" "KIND_MEGOLM_OUT \<noteq> KIND_OLM" "KIND_MEGOLM_OUT \<noteq> KIND_MEGOLM_IN"
  by (simp_all add: KIND_ACCOUNT_def KIND_OLM_def KIND_MEGOLM_IN_def KIND_MEGOLM_OUT_def)

text \<open>A pickle of one kind does not disturb the others.\<close>

lemma get_meta_put_pickle [simp]: "get_meta L k (put_pickle kind i x p s) = get_meta L k s"
  by (simp add: get_meta_def put_pickle_def on_db_def reveal_opt_def reveal_def Let_def meta_row_def split: option.split)

lemma load_backup_key_put_pickle [simp]:
  "fst (load_backup_key V (put_pickle kind i x p s)) = fst (load_backup_key V s)"
  by (simp add: load_backup_key_def)

lemma kept_put_pickle [simp]:
  "kind \<noteq> KIND_ACCOUNT \<Longrightarrow> account_kept V key (put_pickle kind i x p s) a = account_kept V key s a"
  "kind \<noteq> KIND_MEGOLM_IN \<Longrightarrow> inbound_kept V key (put_pickle kind i x p s) m = inbound_kept V key s m"
  "kind \<noteq> KIND_MEGOLM_OUT \<Longrightarrow> outbound_kept V key (put_pickle kind i x p s) m = outbound_kept V key s m"
  "kind \<noteq> KIND_OLM \<Longrightarrow> olm_kept V key (put_pickle kind i x p s) l = olm_kept V key s l"
  by (simp_all add: account_kept_def inbound_kept_def outbound_kept_def olm_kept_def stored_put_pickle)

lemma account_kept_put:
  "crypto_lib_ok V \<Longrightarrow> acc_curve V b = acc_curve V a \<Longrightarrow> acc_ed V b = acc_ed V a
   \<Longrightarrow> account_kept V key (put_pickle KIND_ACCOUNT ''self'' x (acc_pickle V key b) s) a"
  by (simp add: account_kept_def stored_put_pickle lib_pickles)

lemma inbound_kept_put:
  "crypto_lib_ok V \<Longrightarrow> inbound_kept V key s m
   \<Longrightarrow> inbound_kept V key (put_pickle KIND_MEGOLM_IN i x (in_pickle V key k) s) (m(i \<mapsto> k))"
  by (simp add: inbound_kept_def stored_put_pickle lib_pickles same_ratchet_def)

lemma outbound_kept_put:
  "crypto_lib_ok V \<Longrightarrow> outbound_kept V key s m
   \<Longrightarrow> outbound_kept V key (put_pickle KIND_MEGOLM_OUT room x (out_pickle V key k) s) (m(room \<mapsto> k))"
  by (simp add: outbound_kept_def stored_put_pickle lib_pickles)

text \<open>A session is added, or takes the place of the one with its id.\<close>

lemma olm_kept_put:
  assumes "crypto_lib_ok V" "olm_kept V key s m" "k \<in> set (m' curve)"
    and "\<And>c x. x \<in> set (m' c) \<Longrightarrow> x \<in> set (m c) \<or> x = k"
    and "\<And>c x. x \<in> set (m c) \<Longrightarrow> x \<in> set (m' c) \<or> sess_id V x = sess_id V k"
  shows "olm_kept V key (put_pickle KIND_OLM (sess_id V k) curve (sess_pickle V key k) s) m'"
  unfolding olm_kept_def stored_put_pickle using assms(2-)
  by (auto simp: olm_kept_def lib_pickles [OF assms(1)]) blast+

section \<open>Every operation keeps it\<close>

text \<open>The parts of the state that are not written down.\<close>

definition same_core :: "'k crypto \<Rightarrow> 'k crypto \<Rightarrow> bool" where
  "same_core c d \<longleftrightarrow> k_account c = k_account d \<and> k_pickle_key c = k_pickle_key d \<and> k_inbound c = k_inbound d
     \<and> k_outbound c = k_outbound d \<and> k_olm_sessions c = k_olm_sessions d \<and> k_backup_key c = k_backup_key d"

lemma persisted_core: "persisted V (c, s) \<Longrightarrow> same_core c d \<Longrightarrow> persisted V (d, s)"
  by (simp add: persisted_def same_core_def Let_def sessions_of_def [abs_def])

lemma persisted_intro:
  assumes "persisted V (c, s)" "pickles_ok s'" "k_pickle_key d = k_pickle_key c"
    "get_meta (db_cipher V) PICKLE_KEY_META s' = get_meta (db_cipher V) PICKLE_KEY_META s"
    "fst (load_backup_key V s') = fst (load_backup_key V s)" "k_backup_key d = k_backup_key c"
    "account_kept V (k_pickle_key c) s' (k_account d)" "inbound_kept V (k_pickle_key c) s' (k_inbound d)"
    "outbound_kept V (k_pickle_key c) s' (k_outbound d)" "olm_kept V (k_pickle_key c) s' (sessions_of d)"
  shows "persisted V (d, s')"
  using assms by (simp add: persisted_def Let_def)

lemma persistedD:
  assumes "persisted V (c, s)"
  shows "pickles_ok s" "account_kept V (k_pickle_key c) s (k_account c)"
    "inbound_kept V (k_pickle_key c) s (k_inbound c)" "outbound_kept V (k_pickle_key c) s (k_outbound c)"
    "olm_kept V (k_pickle_key c) s (sessions_of c)"
  using assms by (simp_all add: persisted_def Let_def)

lemma keep_draw: "persisted V (c, s) \<Longrightarrow> persisted V (c\<lparr>k_draws := n\<rparr>, s)"
  by (erule persisted_core) (simp add: same_core_def)

lemma sessions_of_simps [simp]:
  "sessions_of (c\<lparr>k_account := a\<rparr>) = sessions_of c" "sessions_of (c\<lparr>k_inbound := i\<rparr>) = sessions_of c"
  "sessions_of (c\<lparr>k_outbound := out\<rparr>) = sessions_of c" "sessions_of (c\<lparr>k_draws := n\<rparr>) = sessions_of c"
  "sessions_of (c\<lparr>k_known_devices := d\<rparr>) = sessions_of c" "sessions_of (c\<lparr>k_backup_key := b\<rparr>) = sessions_of c"
  "sessions_of (c\<lparr>k_olm_sessions := (k_olm_sessions c)(key \<mapsto> ks)\<rparr>) = (sessions_of c)(key := ks)"
  "sessions_of (c\<lparr>k_olm_sessions := push_at key k (k_olm_sessions c)\<rparr>)
     = (sessions_of c)(key := sessions_of c key @ [k])"
  by (auto simp: sessions_of_def fun_eq_iff push_at_def split: option.splits)

lemma account_kept_cong:
  "account_kept V key s a \<Longrightarrow> acc_curve V b = acc_curve V a \<Longrightarrow> acc_ed V b = acc_ed V a \<Longrightarrow> account_kept V key s b"
  by (simp add: account_kept_def)

lemma keep_account:
  assumes "persisted V (c, s)" "acc_curve V a = acc_curve V (k_account c)" "acc_ed V a = acc_ed V (k_account c)"
  shows "persisted V (c\<lparr>k_account := a\<rparr>, s)"
  by (rule persisted_intro [OF assms(1)];
      use persistedD [OF assms(1)] account_kept_cong assms in simp)

lemma keep_persist_account:
  assumes "crypto_lib_ok V" "persisted V cs"
  shows "persisted V (persist_account V cs)"
proof -
  obtain c s where cs: "cs = (c, s)" by (cases cs)
  have p: "persisted V (c, s)" using assms(2) cs by simp
  then show ?thesis
    unfolding persist_account_def cs
    by (rule persisted_intro; use persistedD [OF p] in
      \<open>simp add: account_kept_put [OF assms(1)]\<close>)
qed

lemma keep_add_inbound:
  assumes "crypto_lib_ok V" "persisted V cs"
  shows "persisted V (add_inbound V room k cs)"
proof -
  obtain c s where cs: "cs = (c, s)" by (cases cs)
  have "persisted V (c, s)" using assms(2) cs by simp
  then show ?thesis
    unfolding add_inbound_def cs
    by (rule persisted_intro; use persistedD [OF \<open>persisted V (c, s)\<close>] in
      \<open>simp add: inbound_kept_put [OF assms(1)]\<close>)
qed

lemma keep_save_outbound:
  assumes "crypto_lib_ok V" "persisted V (c, s)"
  shows "persisted V (save_outbound_pickle V room index k (c\<lparr>k_outbound := (k_outbound c)(room \<mapsto> k)\<rparr>, s))"
  unfolding save_outbound_pickle_def
  by (rule persisted_intro [OF assms(2)];
      use persistedD [OF assms(2)] in \<open>simp add: outbound_kept_put [OF assms(1)]\<close>)

lemma keep_save_session:
  assumes "crypto_lib_ok V" "persisted V (c, s)" "k \<in> set ks"
    and "\<And>x. x \<in> set ks \<Longrightarrow> x \<in> set (sessions_of c curve) \<or> x = k"
    and "\<And>x. x \<in> set (sessions_of c curve) \<Longrightarrow> x \<in> set ks \<or> sess_id V x = sess_id V k"
  shows "persisted V (save_session_pickle V curve k (c\<lparr>k_olm_sessions := (k_olm_sessions c)(curve \<mapsto> ks)\<rparr>, s))"
proof -
  have "olm_kept V (k_pickle_key c)
      (put_pickle KIND_OLM (sess_id V k) curve (sess_pickle V (k_pickle_key c) k) s) ((sessions_of c)(curve := ks))"
    by (rule olm_kept_put [OF assms(1) persistedD(5) [OF assms(2)]]) (use assms(3-) in \<open>auto split: if_splits\<close>)
  then show ?thesis
    unfolding save_session_pickle_def
    by (intro persisted_intro [OF assms(2)]; use persistedD [OF assms(2)] in simp)
qed

lemma push_at_sessions_of: "push_at key k (k_olm_sessions c) = (k_olm_sessions c)(key \<mapsto> sessions_of c key @ [k])"
  by (simp add: push_at_def sessions_of_def)

lemma keep_push_session:
  assumes "crypto_lib_ok V" "persisted V (c, s)"
  shows "persisted V (save_session_pickle V curve k (c\<lparr>k_olm_sessions := push_at curve k (k_olm_sessions c)\<rparr>, s))"
  unfolding push_at_sessions_of by (rule keep_save_session [OF assms]) auto

subsection \<open>Receiving\<close>

lemma try_sessions_facts:
  assumes "crypto_lib_ok V"
  shows "try_sessions V m ks = (ks', None) \<Longrightarrow> ks' = ks"
    "try_sessions V m ks = (ks', Some (p, k)) \<Longrightarrow>
       k \<in> set ks' \<and> (\<forall>x \<in> set ks'. x \<in> set ks \<or> x = k) \<and> (\<forall>x \<in> set ks. x \<in> set ks' \<or> sess_id V x = sess_id V k)"
proof (induction ks arbitrary: ks')
  case (Cons a ks)
  obtain r a' where d: "sess_decrypt V a m = (r, a')" by (cases "sess_decrypt V a m")
  obtain ks'' t where t: "try_sessions V m ks = (ks'', t)" by (cases "try_sessions V m ks")
  {
    case 1
    with d t Cons.IH(1) [of ks''] show ?case
      by (cases r) (auto dest: lib_sessions(2) [OF assms])
  next
    case 2
    show ?case
    proof (cases r)
      case (Inr q)
      with 2 d lib_sessions(1) [OF assms d] show ?thesis by auto
    next
      case (Inl e)
      with 2 d t have "ks' = a # ks''" "t = Some (p, k)" by (auto dest: lib_sessions(2) [OF assms])
      with Cons.IH(2) [of ks''] t show ?thesis by auto
    qed
  }
qed simp_all

lemma keep_decrypt_with_existing:
  assumes "crypto_lib_ok V" "persisted V cs"
  shows "persisted V (snd (decrypt_with_existing V sender m cs))"
proof (cases "k_olm_sessions (fst cs) sender")
  case None
  with assms show ?thesis by (simp add: decrypt_with_existing_def)
next
  case (Some ks)
  obtain c s where cs: "cs = (c, s)" by (cases cs)
  obtain ks' r where t: "try_sessions V m ks = (ks', r)" by (cases "try_sessions V m ks")
  note facts = try_sessions_facts [OF assms(1)]
  have ks: "sessions_of c sender = ks" using Some cs by (simp add: sessions_of_def)
  show ?thesis
  proof (cases r)
    case None
    with t facts(1) have "ks' = ks" by simp
    moreover have "(k_olm_sessions c)(sender \<mapsto> ks) = k_olm_sessions c" using Some cs by (simp add: map_upd_triv)
    ultimately show ?thesis
      using assms(2) None Some t cs by (simp add: decrypt_with_existing_def)
  next
    case (Some pk)
    obtain p k where pk: "pk = (p, k)" by (cases pk)
    have f: "k \<in> set ks'" "\<forall>x \<in> set ks'. x \<in> set ks \<or> x = k" "\<forall>x \<in> set ks. x \<in> set ks' \<or> sess_id V x = sess_id V k"
      using facts(2) [of m ks ks' p k] t Some pk by simp_all
    have "persisted V (save_session_pickle V sender k (c\<lparr>k_olm_sessions := (k_olm_sessions c)(sender \<mapsto> ks')\<rparr>, s))"
      by (rule keep_save_session [OF assms(1) _ f(1)]) (use assms(2) f ks cs in auto)
    with \<open>k_olm_sessions (fst cs) sender = Some ks\<close> show ?thesis
      by (simp add: decrypt_with_existing_def t Some pk cs)
  qed
qed

lemma and_then_from_result:
  "and_then (from_result r) f s = (case r of Inl e \<Rightarrow> (Inl e, s) | Inr x \<Rightarrow> f x s)"
  by (cases r) simp_all

lemma handle_olm_plaintext_cases:
  "snd (handle_olm_plaintext V key p cs) = cs
   \<or> (\<exists>room k. snd (handle_olm_plaintext V key p cs) = add_inbound V room (in_new V k) cs)"
  unfolding handle_olm_plaintext_def and_then_from_result
  by (auto split: sum.split)

lemma keep_start_inbound:
  assumes "crypto_lib_ok V" "persisted V cs"
  shows "persisted V (snd (start_inbound V sender m cs))"
proof (cases m)
  case (Normal x)
  with assms show ?thesis by (simp add: start_inbound_def)
next
  case (PreKey pre_key)
  obtain c s where cs: "cs = (c, s)" by (cases cs)
  show ?thesis
  proof (cases "curve_parse V sender")
    case (Inl e)
    with assms PreKey show ?thesis by (simp add: start_inbound_def)
  next
    case (Inr identity)
    obtain r a where r: "acc_inbound V (k_account c) identity pre_key = (r, a)"
      by (cases "acc_inbound V (k_account c) identity pre_key")
    have p: "persisted V (c\<lparr>k_account := a\<rparr>, s)"
      using keep_account [of V c s a] lib_identity(5) [OF assms(1) r] assms(2) cs by simp
    show ?thesis
    proof (cases r)
      case (Inl e)
      with p PreKey Inr r cs show ?thesis by (simp add: start_inbound_def)
    next
      case (Inr st)
      let ?c = "c\<lparr>k_account := a\<rparr>"
      have "persisted V (persist_account V (save_session_pickle V sender (fst st)
          (?c\<lparr>k_olm_sessions := push_at sender (fst st) (k_olm_sessions ?c)\<rparr>, s)))"
        by (rule keep_persist_account [OF assms(1) keep_push_session [OF assms(1) p]])
      with Inr r PreKey \<open>curve_parse V sender = Inr identity\<close> cs show ?thesis
        by (simp add: start_inbound_def case_prod_unfold persist_account_def save_session_pickle_def Let_def)
    qed
  qed
qed

lemma keep_handle_olm_event:
  assumes "crypto_lib_ok V" "persisted V cs"
  shows "persisted V (snd (handle_olm_event V event cs))"
proof -
  have plain: "persisted V (snd (handle_olm_plaintext V key p d))" if "persisted V d" for key p d
    using handle_olm_plaintext_cases [of V key p d] keep_add_inbound [OF assms(1)] that by metis
  have "persisted V (snd (olm_plaintext V sender m cs))" for sender m
    using keep_decrypt_with_existing [OF assms, of sender m] keep_start_inbound [OF assms(1), of _ sender m]
    unfolding olm_plaintext_def by (auto split: prod.split option.split)
  then have "persisted V (snd (and_then (olm_plaintext V sender m) (handle_olm_plaintext V sender) cs))" for sender m
    using plain unfolding and_then_def by (auto split: prod.split sum.split) (metis snd_conv)+
  with assms(2) show ?thesis
    unfolding handle_olm_event_def Let_def and_then_from_result by (auto split: sum.split)
qed

lemma keep_handle_to_device:
  assumes "crypto_lib_ok V"
  shows "persisted V cs \<Longrightarrow> persisted V (snd (handle_to_device V events cs))"
proof (induction events arbitrary: cs)
  case (Cons event events)
  have "persisted V (snd (handle_olm_event V event cs))" by (rule keep_handle_olm_event [OF assms Cons.prems])
  from Cons.IH [OF this] Cons.IH [OF Cons.prems] show ?case
    by (auto simp: case_prod_unfold Let_def split: sum.split option.split)
qed simp

lemma keep_decrypt:
  assumes "crypto_lib_ok V" "persisted V (c, s)"
  shows "persisted V (snd (decrypt V i t c), s)"
proof -
  have "persisted V (c\<lparr>k_inbound := (k_inbound c)(i \<mapsto> snd (in_decrypt V k m))\<rparr>, s)"
    if k: "k_inbound c i = Some k" for k m
  proof -
    let ?k = "snd (in_decrypt V k m)"
    have "in_id V ?k = in_id V k \<and> in_first V ?k = in_first V k"
      using assms(1) unfolding crypto_lib_ok_def by blast
    then have "inbound_kept V (k_pickle_key c) s ((k_inbound c)(i \<mapsto> ?k))"
      using persistedD(3) [OF assms(2)] k unfolding inbound_kept_def
      by (auto simp: same_ratchet_def option_rel_Some1 dest!: spec [of _ i])
    then show ?thesis
      by (intro persisted_intro [OF assms(2)]; use persistedD [OF assms(2)] in simp)
  qed
  with assms(2) show ?thesis
    by (auto simp: decrypt_def case_prod_unfold Let_def split: option.split sum.split)
qed

subsection \<open>Uploading and sharing\<close>

lemma keep_keys_upload_body:
  assumes "crypto_lib_ok V" "persisted V (c, s)"
  shows "persisted V (snd (keys_upload_body V user device n include c), s)"
proof -
  have "persisted V (generate_otks V w c, s)" for w
  proof (cases "0 < w")
    case True
    have "persisted V (c\<lparr>k_account := acc_generate V (k_draws c) w (k_account c)\<rparr>, s)"
      by (rule keep_account [OF assms(2)]) (simp_all add: lib_identity [OF assms(1)])
    then show ?thesis by (rule persisted_core) (simp add: generate_otks_def True same_core_def)
  qed (use assms in \<open>simp add: generate_otks_def\<close>)
  then show ?thesis by (simp add: keys_upload_body_def Let_def)
qed

lemma keep_mark_published:
  assumes "crypto_lib_ok V" "persisted V cs"
  shows "persisted V (mark_published V cs)"
proof -
  have "persisted V ((fst cs)\<lparr>k_account := acc_published V (k_account (fst cs))\<rparr>, snd cs)"
    by (rule keep_account) (use assms in \<open>simp_all add: lib_identity\<close>)
  then show ?thesis unfolding mark_published_def by (rule keep_persist_account [OF assms(1)])
qed

lemma keep_remember_devices:
  assumes "persisted V (c, s)"
  shows "persisted V (remember_devices ds c, s)"
proof -
  have "same_core c (remember_devices ds c)"
    unfolding remember_devices_def
    by (induction ds arbitrary: c rule: rev_induct) (simp_all add: same_core_def)
  with assms show ?thesis by (rule persisted_core)
qed

lemma keep_start_olm_session:
  assumes "crypto_lib_ok V" "persisted V cs"
  shows "persisted V (snd (start_olm_session V d otk cs))"
proof -
  obtain c s where cs: "cs = (c, s)" by (cases cs)
  let ?c = "c\<lparr>k_draws := k_draws c + 1\<rparr>"
  have p: "persisted V (?c, s)" using assms(2) cs keep_draw by simp
  have "persisted V (case save_session_pickle V (di_curve_key d) k (?c, s) of (c', s') \<Rightarrow>
      (c'\<lparr>k_olm_sessions := push_at (di_curve_key d) k (k_olm_sessions c'),
          k_known_devices := (k_known_devices c') (di_curve_key d \<mapsto> (di_user_id d, di_device_id d))\<rparr>, s'))" for k
  proof -
    have "persisted V (save_session_pickle V (di_curve_key d) k
        (?c\<lparr>k_olm_sessions := push_at (di_curve_key d) k (k_olm_sessions ?c)\<rparr>, s))"
      by (rule keep_push_session [OF assms(1) p])
    then show ?thesis
      by (simp add: save_session_pickle_def, elim persisted_core) (simp add: same_core_def)
  qed
  with assms(2) p cs show ?thesis
    unfolding start_olm_session_def and_then_from_result
    by (auto simp: Let_def case_prod_unfold split: sum.split)
qed

lemma keep_create_outbound_olm:
  assumes "crypto_lib_ok V"
  shows "persisted V cs \<Longrightarrow> persisted V (create_outbound_olm V claim ds cs)"
  by (induction ds arbitrary: cs) (auto simp: keep_start_olm_session [OF assms] split: option.split)

lemma keep_olm_encrypt:
  assumes "crypto_lib_ok V" "persisted V cs"
  shows "persisted V (snd (olm_encrypt V curve p cs))"
proof -
  obtain c s where cs: "cs = (c, s)" by (cases cs)
  let ?c = "c\<lparr>k_draws := k_draws c + 1\<rparr>"
  have p: "persisted V (?c, s)" using assms(2) cs keep_draw by simp
  show ?thesis
  proof (cases "k_olm_sessions c curve")
    case (Some l)
    show ?thesis
    proof (cases l)
      case (Cons k ks)
      obtain r k' where r: "sess_encrypt V (k_draws c) (last l) p = (r, k')"
        by (cases "sess_encrypt V (k_draws c) (last l) p")
      have l: "sessions_of c curve = l" using Some by (simp add: sessions_of_def)
      have same: "sess_id V k' = sess_id V (last l)" by (rule lib_sessions(3) [OF assms(1) r])
      have mem: "x \<in> set l \<longleftrightarrow> x \<in> set (butlast l) \<or> x = last l" for x
        using Cons by (metis append_butlast_last_id list.distinct(1) Un_iff empty_iff list.set insert_iff set_append)
      show ?thesis
      proof (cases r)
        case (Inl e)
        then have "k' = last l" using lib_sessions(4) [OF assms(1)] r by metis
        then have "butlast l @ [k'] = l" using Cons by simp
        moreover have "(k_olm_sessions c)(curve \<mapsto> l) = k_olm_sessions c" using Some by (simp add: map_upd_triv)
        ultimately have "snd (olm_encrypt V curve p cs) = (?c, s)"
          using r Some Inl cs Cons by (simp add: olm_encrypt_def)
        with p show ?thesis by simp
      next
        case (Inr tc)
        have "persisted V (save_session_pickle V curve k'
            (?c\<lparr>k_olm_sessions := (k_olm_sessions ?c)(curve \<mapsto> butlast l @ [k'])\<rparr>, s))"
          by (rule keep_save_session [OF assms(1) p]) (auto simp: l mem same)
        moreover have "snd (olm_encrypt V curve p cs) = save_session_pickle V curve k'
            (c\<lparr>k_olm_sessions := (k_olm_sessions c)(curve \<mapsto> butlast l @ [k']), k_draws := k_draws c + 1\<rparr>, s)"
          using Inr r Some cs Cons by (simp add: olm_encrypt_def case_prod_unfold)
        ultimately show ?thesis
          by (simp add: save_session_pickle_def, elim persisted_core) (simp add: same_core_def)
      qed
    qed (use assms Some cs in \<open>simp add: olm_encrypt_def\<close>)
  qed (use assms cs in \<open>simp add: olm_encrypt_def\<close>)
qed

lemma keep_get_or_create_outbound:
  assumes "crypto_lib_ok V" "persisted V cs"
  shows "persisted V (snd (get_or_create_outbound V room cs))"
proof (cases "k_outbound (fst cs) room")
  case None
  obtain c s where cs: "cs = (c, s)" by (cases cs)
  let ?c = "c\<lparr>k_draws := k_draws c + 1\<rparr>" and ?k = "out_new V (k_draws c)"
  have "persisted V (?c, s)" using assms(2) cs keep_draw by simp
  then have "persisted V (add_inbound V room (in_of_out V ?k)
      (save_outbound_pickle V room ''0'' ?k (?c\<lparr>k_outbound := (k_outbound ?c)(room \<mapsto> ?k)\<rparr>, s)))"
    by (intro keep_add_inbound keep_save_outbound assms(1))
  then show ?thesis
    using None unfolding cs fst_conv
    by (simp add: get_or_create_outbound_def add_inbound_def save_outbound_pickle_def Let_def,
        elim persisted_core) (simp add: same_core_def)
qed (use assms in \<open>simp add: get_or_create_outbound_def\<close>)

lemma keep_share_key:
  assumes "crypto_lib_ok V"
  shows "persisted V cs \<Longrightarrow> persisted V (snd (share_key V content u d ds messages cs))"
proof (induction ds arbitrary: messages cs)
  case (Cons a ds)
  let ?e = "olm_encrypt V (di_curve_key a) (json_print (serde V) (room_key_envelope content u d (ed25519_key V (fst cs)) a)) cs"
  obtain r c s where e: "?e = (r, (c, s))" by (metis prod.collapse)
  have p: "persisted V (c, s)" using keep_olm_encrypt [OF assms Cons.prems] e by (metis snd_conv)
  then have "persisted V (c\<lparr>k_known_devices := m\<rparr>, s)" for m
    by (rule persisted_core) (simp add: same_core_def)
  with Cons p e show ?case by (auto simp: Let_def split: sum.split)
qed simp

lemma keep_encrypt:
  assumes "crypto_lib_ok V" "persisted V cs"
  shows "persisted V (snd (encrypt V room plaintext device cs))"
proof -
  obtain k c s where k: "get_or_create_outbound V room cs = (k, (c, s))" by (metis prod.collapse)
  have "persisted V (c, s)" using keep_get_or_create_outbound [OF assms, of room] k by simp
  then have "persisted V (save_outbound_pickle V room i k' (c\<lparr>k_outbound := (k_outbound c)(room \<mapsto> k')\<rparr>, s))" for i k'
    by (rule keep_save_outbound [OF assms(1)])
  then show ?thesis by (simp add: encrypt_def k Let_def case_prod_unfold)
qed

subsection \<open>Backup and secrets\<close>

lemma keep_store_backup_key:
  assumes "crypto_lib_ok V" "persisted V cs" "length raw = 32"
  shows "persisted V (store_backup_key V raw cs)"
proof -
  obtain c s where cs: "cs = (c, s)" by (cases cs)
  let ?L = "db_cipher V" and ?s = "set_meta (db_cipher V) BACKUP_KEY_META (std_encode V raw) s"
  have p: "persisted V (c, s)" using assms(2) cs by simp
  have meta: "get_meta ?L k ?s = (if k = BACKUP_KEY_META then Inr (Some (std_encode V raw)) else get_meta ?L k s)" for k
    by (rule get_meta_set_meta [OF lib_db [OF assms(1)] lib_base64(2) [OF assms(1)]])
  have "fst (load_backup_key V ?s) = Inr (Some (pk_from_key V raw))"
    by (simp add: load_backup_key_def meta decode_backup_key_def lib_base64(1) [OF assms(1)] assms(3))
  moreover have "sessions_of (c\<lparr>k_backup_key := b\<rparr>) = sessions_of c" for b by simp
  ultimately show ?thesis
    using p meta [of PICKLE_KEY_META]
    by (simp add: persisted_def store_backup_key_def cs Let_def account_kept_def inbound_kept_def outbound_kept_def
        olm_kept_def PICKLE_KEY_META_def BACKUP_KEY_META_def)
qed

lemma length_of_bytes [simp]: "length (of_bytes bs) = length bs"
  by (simp add: of_bytes_def)

lemma keep_set_backup_key:
  assumes "crypto_lib_ok V" "persisted V cs"
  shows "persisted V (snd (set_backup_key V key expected cs))"
    "persisted V (snd (set_backup_key_base64 V secret expected' cs))"
  using assms keep_store_backup_key [OF assms]
  by (auto simp: set_backup_key_def set_backup_key_base64_def Let_def decode_recovery_key_Inr split: sum.split option.split)

lemma keep_import_backup_session:
  assumes "crypto_lib_ok V" "persisted V cs"
  shows "persisted V (snd (import_backup_session V room i entry cs))"
  using assms(2) keep_add_inbound [OF assms]
  unfolding import_backup_session_def and_then_from_result Let_def
  by (auto split: sum.split option.split)

lemma keep_secret_request:
  assumes "persisted V (c, s)"
  shows "persisted V (snd (secret_request V device name c), s)"
  using assms by (rule persisted_core) (simp add: same_core_def secret_request_def Let_def)

end
