(* ===== verification/Crypto_Restart.thy ===== *)
theory Crypto_Restart
  imports Crypto_Laws Verification_Laws
begin

text \<open>
  The whole of \<open>Crypto\<close> as one machine: every operation the daemon calls, the fact that each keeps
  memory and pickle table in step, and what a restart finds after any sequence of them. Then the
  properties of single operations: uploads, room keys, secrets and the key backup.
\<close>

section \<open>All operations\<close>

datatype crypto_op =
    HandleToDevice "to_device_event list" | Decrypt string string
  | KeysUploadBody string string "32 word" bool | MarkPublished
  | RememberDevices "device_info list" | CreateOutboundOlm json "device_info list"
  | EncryptRoomKey string "device_info list" string string | Encrypt string json string
  | SetBackupKey string string | SetBackupKeyBase64 string "string option"
  | ImportBackupSession string string json | SecretRequest string string
  | Verify string string verify_event

fun run_crypto :: "'k crypto_lib \<Rightarrow> crypto_op \<Rightarrow> 'k cs \<Rightarrow> 'k cs" where
  "run_crypto V (HandleToDevice events) cs = snd (handle_to_device V events cs)"
| "run_crypto V (Decrypt i t) cs = (snd (decrypt V i t (fst cs)), snd cs)"
| "run_crypto V (KeysUploadBody u d n b) cs = (snd (keys_upload_body V u d n b (fst cs)), snd cs)"
| "run_crypto V MarkPublished cs = mark_published V cs"
| "run_crypto V (RememberDevices ds) cs = (remember_devices ds (fst cs), snd cs)"
| "run_crypto V (CreateOutboundOlm claim ds) cs = create_outbound_olm V claim ds cs"
| "run_crypto V (EncryptRoomKey room ds u d) cs = snd (encrypt_room_key_to_devices V room ds u d cs)"
| "run_crypto V (Encrypt room event d) cs = snd (encrypt V room event d cs)"
| "run_crypto V (SetBackupKey key expected) cs = snd (set_backup_key V key expected cs)"
| "run_crypto V (SetBackupKeyBase64 secret expected) cs = snd (set_backup_key_base64 V secret expected cs)"
| "run_crypto V (ImportBackupSession room i entry) cs = snd (import_backup_session V room i entry cs)"
| "run_crypto V (SecretRequest d name) cs = (snd (secret_request V d name (fst cs)), snd cs)"
| "run_crypto V (Verify u d ev) cs = (snd (respond V u d ev (fst cs)), snd cs)"

text \<open>The verification writes nothing down.\<close>

lemma same_core_refl [simp]: "same_core c c"
  by (simp add: same_core_def)

lemma same_core_trans: "same_core c d \<Longrightarrow> same_core d e \<Longrightarrow> same_core c e"
  by (simp add: same_core_def)

lemma core_steps [simp]:
  "same_core c (put_entry t v d) = same_core c d" "same_core c (drop_entry t d) = same_core c d"
  "same_core c (insert_new V t user device d) = same_core c d" "same_core c (snd (cancel t device code reason d)) = same_core c d"
  "same_core c (snd (settle t v d)) = same_core c d" "same_core c (expire_verifications V d) = same_core c d"
  "same_core c (d\<lparr>k_draws := n\<rparr>) = same_core c d"
  by (simp_all add: same_core_def put_entry_def drop_entry_def insert_new_def cancel_def settle_def
      expire_verifications_def Let_def)

lemma core_handlers:
  "same_core c (snd (verification_request V t sender device content c))"
  "same_core c (snd (accept_start V t v content d)) = same_core c d"
  "same_core c (snd (verification_key V t me device content c))"
  "same_core c (snd (verification_mac V t me device content c))"
  "same_core c (snd (verification_done t c))" "same_core c (snd (verification_cancel t content c))"
  "same_core c (snd (confirm_verification V me device t b c))"
  by (auto simp: verification_request_def accept_start_def verification_key_def verification_mac_def
      verification_done_def verification_cancel_def confirm_verification_def Let_def case_prod_unfold
      split: option.split sum.split)

lemma core_start: "same_core c (snd (verification_start V t sender content c))"
  by (auto simp: verification_start_def core_handlers Let_def split: option.split)

lemma core_respond: "same_core c (snd (respond V me dev ev c))"
proof (cases ev)
  case (Receive sender kind content)
  let ?e = "expire_verifications V c"
  have e: "same_core ?e (snd x) \<Longrightarrow> same_core c (snd x)" for x :: "verify_step \<times> 'a crypto"
    by (rule same_core_trans [of c ?e]) simp_all
  show ?thesis
    unfolding Receive respond.simps handle_verification_def Let_def
    by (rule e) (simp add: core_handlers core_start split: option.split)
qed (simp add: core_handlers)

lemma run_crypto_keeps:
  assumes "crypto_lib_ok V" "persisted V cs"
  shows "persisted V (run_crypto V op cs)"
proof -
  obtain c s where cs: "cs = (c, s)" by (cases cs)
  show ?thesis
  proof (cases op)
    case (Decrypt i t)
    with keep_decrypt [of V c s i t] assms cs show ?thesis by simp
  next
    case (KeysUploadBody u d n b)
    with keep_keys_upload_body [of V c s u d n b] assms cs show ?thesis by simp
  next
    case (RememberDevices ds)
    with keep_remember_devices [of V c s ds] assms cs show ?thesis by simp
  next
    case (EncryptRoomKey room ds u d)
    have "persisted V (snd (get_or_create_outbound V room cs))" by (rule keep_get_or_create_outbound [OF assms])
    with keep_share_key [OF assms(1)] EncryptRoomKey show ?thesis
      by (simp add: encrypt_room_key_to_devices_def Let_def case_prod_unfold)
  next
    case (SecretRequest d name)
    with keep_secret_request [of V c s d name] assms cs show ?thesis by simp
  next
    case (Verify u d ev)
    with persisted_core [OF _ core_respond, of V c s V u d ev] assms cs show ?thesis by simp
  qed (use assms keep_handle_to_device keep_mark_published keep_create_outbound_olm keep_encrypt
      keep_set_backup_key keep_import_backup_session in simp_all)
qed

section \<open>Restarting\<close>

lemma find_account:
  assumes "pickles_ok s" "stored unpickle kind s i = Some (x, k)"
  shows "\<exists>p. List.find (\<lambda>(j, x, p). j = i) (all_pickles kind s) = Some (i, x, p) \<and> unpickle p = Inr k"
proof -
  obtain p where p: "(i, x, p) \<in> set (all_pickles kind s)" "unpickle p = Inr k"
    using iffD1 [OF stored_pickles [OF assms(1)] assms(2)] by blast
  have "distinct (map fst rows) \<Longrightarrow> (i, x, p) \<in> set rows
      \<Longrightarrow> List.find (\<lambda>(j, x, p). j = i) rows = Some (i, x, p)" for rows :: "(string \<times> string \<times> string) list"
  proof (induction rows)
    case (Cons row rows)
    show ?case
    proof (cases "fst row = i")
      case True
      with Cons.prems(1) have "i \<notin> fst ` set rows" by simp
      then have "(i, x, p) \<notin> set rows" by force
      with Cons.prems(2) have "row = (i, x, p)" by auto
      then show ?thesis by simp
    next
      case False
      with Cons show ?thesis by (cases row) auto
    qed
  qed simp
  with all_pickles_distinct [OF assms(1)] p show ?thesis by blast
qed

definition resumes :: "'k crypto_lib \<Rightarrow> 'k crypto \<Rightarrow> 'k crypto \<Rightarrow> bool" where
  "resumes V c c' \<longleftrightarrow>
     curve25519_key V c' = curve25519_key V c \<and> ed25519_key V c' = ed25519_key V c
     \<and> k_pickle_key c' = k_pickle_key c \<and> k_backup_key c' = k_backup_key c \<and> k_outbound c' = k_outbound c
     \<and> (\<forall>i. rel_option (same_ratchet V) (k_inbound c i) (k_inbound c' i))
     \<and> (\<forall>curve. set (sessions_of c' curve) \<subseteq> set (sessions_of c curve))
     \<and> (\<forall>curve. \<forall>k \<in> set (sessions_of c curve). \<exists>curve'. \<exists>k' \<in> set (sessions_of c' curve'). sess_id V k' = sess_id V k)"

lemma load_or_create_steps:
  assumes "load_pickle_key V n s = (Inr key, s1)" "load_account V key (n + 1) s1 = (Inr a, s2)"
    "load_backup_key V s2 = (Inr b, s2)"
  shows "load_or_create V n s = (Inr \<lparr>k_account = a, k_pickle_key = key,
      k_inbound = load_by_id (in_unpickle V key) (all_pickles KIND_MEGOLM_IN s2),
      k_outbound = load_by_id (out_unpickle V key) (all_pickles KIND_MEGOLM_OUT s2),
      k_olm_sessions = load_olm V key (all_pickles KIND_OLM s2), k_known_devices = Map.empty,
      k_backup_key = b, k_device_ed_keys = Map.empty, k_verifications = Map.empty,
      k_secret_requests = Map.empty, k_draws = n + 2, k_reads = 0\<rparr>, s2)"
  unfolding load_or_create_def and_then_def assms prod.case sum.case Let_def succeed_def ..

lemma restart_resumes:
  assumes "crypto_lib_ok V" "persisted V (c, s)"
  shows "\<exists>c'. load_or_create V n s = (Inr c', s) \<and> resumes V c c' \<and> persisted V (c', s)"
proof -
  let ?L = "db_cipher V" and ?key = "k_pickle_key c"
  have p: "pickles_ok s" "get_meta ?L PICKLE_KEY_META s = Inr (Some (std_encode V ?key))" "length ?key = 32"
    "load_backup_key V s = (Inr (k_backup_key c), s)"
    "account_kept V ?key s (k_account c)" "inbound_kept V ?key s (k_inbound c)"
    "outbound_kept V ?key s (k_outbound c)" "olm_kept V ?key s (sessions_of c)"
    using assms(2) by (simp_all add: persisted_def Let_def load_backup_key_def)
  obtain x a where a: "stored (acc_unpickle V ?key) KIND_ACCOUNT s ''self'' = Some (x, a)"
      "acc_curve V a = acc_curve V (k_account c)" "acc_ed V a = acc_ed V (k_account c)"
    using p(5) unfolding account_kept_def by blast
  from find_account [OF p(1) a(1)] obtain q where
    q: "List.find (\<lambda>(j, x, p). j = ''self'') (all_pickles KIND_ACCOUNT s) = Some (''self'', x, q)"
      "acc_unpickle V ?key q = Inr a" by blast
  let ?c = "\<lparr>k_account = a, k_pickle_key = ?key,
      k_inbound = load_by_id (in_unpickle V ?key) (all_pickles KIND_MEGOLM_IN s),
      k_outbound = load_by_id (out_unpickle V ?key) (all_pickles KIND_MEGOLM_OUT s),
      k_olm_sessions = load_olm V ?key (all_pickles KIND_OLM s), k_known_devices = Map.empty,
      k_backup_key = k_backup_key c, k_device_ed_keys = Map.empty, k_verifications = Map.empty,
      k_secret_requests = Map.empty, k_draws = n + 2, k_reads = 0\<rparr>"
  have key: "load_pickle_key V n s = (Inr ?key, s)"
    using p(2,3) by (simp add: load_pickle_key_def lib_base64(1) [OF assms(1)])
  have account: "load_account V ?key m s = (Inr a, s)" for m
    using q by (simp add: load_account_def)
  have load: "load_or_create V n s = (Inr ?c, s)"
    by (rule load_or_create_steps [OF key account p(4)])
  have inb: "k_inbound ?c = (\<lambda>i. map_option snd (stored (in_unpickle V ?key) KIND_MEGOLM_IN s i))"
    and out: "k_outbound ?c = k_outbound c"
    using p(7) by (simp_all add: load_by_id_stored [OF p(1)] outbound_kept_def fun_eq_iff)
  have sess: "k \<in> set (sessions_of ?c curve) \<longleftrightarrow> (\<exists>i. stored (sess_unpickle V ?key) KIND_OLM s i = Some (curve, k))" for k curve
    unfolding sessions_of_def crypto.select_convs by (rule load_olm_stored [OF p(1)])
  have "inbound_kept V ?key s (k_inbound ?c)"
    unfolding inbound_kept_def inb by (simp add: option.rel_refl same_ratchet_def)
  moreover have "outbound_kept V ?key s (k_outbound ?c)" using out p(7) by simp
  moreover have "olm_kept V ?key s (sessions_of ?c)"
    using p(8) unfolding olm_kept_def sess by fastforce
  moreover have "account_kept V ?key s (k_account ?c)" using a by (auto simp: account_kept_def)
  ultimately have "persisted V (?c, s)"
    using p(1-4) by (simp add: persisted_def Let_def)
  moreover have "resumes V c ?c"
  proof -
    have "\<exists>curve'. \<exists>k' \<in> set (sessions_of ?c curve'). sess_id V k' = sess_id V k" if "k \<in> set (sessions_of c curve)" for curve k
      using that p(8) unfolding olm_kept_def Bex_def sess by fastforce
    moreover have "set (sessions_of ?c curve) \<subseteq> set (sessions_of c curve)" for curve
    proof
      fix k assume "k \<in> set (sessions_of ?c curve)"
      then obtain i where "stored (sess_unpickle V ?key) KIND_OLM s i = Some (curve, k)" unfolding sess by blast
      with p(8) show "k \<in> set (sessions_of c curve)" unfolding olm_kept_def by blast
    qed
    ultimately show ?thesis
      unfolding resumes_def using p(6) a(2,3) out inb by (simp add: curve25519_key_def ed25519_key_def inbound_kept_def)
  qed
  ultimately show ?thesis using load by blast
qed

text \<open>
  The first start, on a store that holds no keys yet: the crypto state made of the random draws after
  the n-th, with a new identity and nothing else, and the store that holds it.
\<close>

definition new_crypto :: "'k crypto_lib \<Rightarrow> nat \<Rightarrow> 'k crypto" where
  "new_crypto V n =
     \<lparr>k_account = acc_new V (n + 1), k_pickle_key = random_key V n, k_inbound = Map.empty, k_outbound = Map.empty,
      k_olm_sessions = Map.empty, k_known_devices = Map.empty, k_backup_key = None, k_device_ed_keys = Map.empty,
      k_verifications = Map.empty, k_secret_requests = Map.empty, k_draws = n + 2, k_reads = 0\<rparr>"

definition new_crypto_store :: "'k crypto_lib \<Rightarrow> nat \<Rightarrow> store \<Rightarrow> store" where
  "new_crypto_store V n s =
     put_pickle KIND_ACCOUNT ''self'' [] (acc_pickle V (random_key V n) (acc_new V (n + 1)))
       (set_meta (db_cipher V) PICKLE_KEY_META (std_encode V (random_key V n)) s)"

lemma first_start_is_new:
  assumes "crypto_lib_ok V" "t_pickle (s_db s) = []"
    "get_meta (db_cipher V) PICKLE_KEY_META s = Inr None" "get_meta (db_cipher V) BACKUP_KEY_META s = Inr None"
  shows "load_or_create V n s = (Inr (new_crypto V n), new_crypto_store V n s)"
    "persisted V (new_crypto V n, new_crypto_store V n s)"
proof -
  let ?L = "db_cipher V" and ?key = "random_key V n"
  let ?s1 = "set_meta ?L PICKLE_KEY_META (std_encode V ?key) s" and ?a = "acc_new V (Suc n)"
  let ?s2 = "put_pickle KIND_ACCOUNT ''self'' [] (acc_pickle V ?key ?a) ?s1"
  have meta: "get_meta ?L k ?s1 = (if k = PICKLE_KEY_META then Inr (Some (std_encode V ?key)) else get_meta ?L k s)" for k
    by (rule get_meta_set_meta [OF lib_db [OF assms(1)] lib_base64(2) [OF assms(1)]])
  have none: "stored u kind s i = None" for u :: "string \<Rightarrow> string + 'a" and kind i
    by (simp add: stored_def assms(2))
  have t1: "t_pickle (s_db ?s1) = []" using assms(2) by simp
  then have all: "all_pickles kind ?s1 = []" for kind by (simp add: all_pickles_def order_by_def)
  have t2: "t_pickle (s_db ?s2) = [\<lparr>pk_kind = KIND_ACCOUNT, pk_id = ''self'', pk_extra = [], pk_pickle = acc_pickle V ?key ?a\<rparr>]"
    by (simp add: put_pickle_def on_db_def upsert_def assms(2))
  then have all2: "kind \<noteq> KIND_ACCOUNT \<Longrightarrow> all_pickles kind ?s2 = []" for kind
    by (simp add: all_pickles_def order_by_def)
  have neq: "BACKUP_KEY_META \<noteq> PICKLE_KEY_META" by (simp add: BACKUP_KEY_META_def PICKLE_KEY_META_def)
  have backup: "load_backup_key V ?s2 = (Inr None, ?s2)"
    using meta [of BACKUP_KEY_META] neq assms(4) by (simp add: load_backup_key_def)
  have key: "load_pickle_key V n s = (Inr ?key, ?s1)" using assms(3) by (simp add: load_pickle_key_def Let_def)
  have account: "load_account V ?key (n + 1) ?s1 = (Inr ?a, ?s2)" by (simp add: load_account_def all Let_def)
  have made: "new_crypto_store V n s = ?s2" by (simp add: new_crypto_store_def)
  show "load_or_create V n s = (Inr (new_crypto V n), new_crypto_store V n s)"
    unfolding made
    by (subst load_or_create_steps [OF key account backup]) (simp add: all2 load_by_id_def load_olm_def new_crypto_def)
  show "persisted V (new_crypto V n, new_crypto_store V n s)"
    unfolding made
    using meta [of PICKLE_KEY_META] backup lib_base64(3) [OF assms(1)] neq assms(4) meta [of BACKUP_KEY_META]
    by (simp add: pickles_ok_def t2 persisted_def Let_def account_kept_put [OF assms(1)] inbound_kept_def outbound_kept_def olm_kept_def
        stored_put_pickle none sessions_of_def load_backup_key_def new_crypto_def)
qed

lemma first_start:
  assumes "crypto_lib_ok V" "t_pickle (s_db s) = []"
    "get_meta (db_cipher V) PICKLE_KEY_META s = Inr None" "get_meta (db_cipher V) BACKUP_KEY_META s = Inr None"
  shows "\<exists>c s'. load_or_create V n s = (Inr c, s') \<and> persisted V (c, s')"
  using first_start_is_new [OF assms] by blast

text \<open>
  C3: However many events were handled, messages sent, sessions started, keys shared and backups
  imported since the first start, a restart finds them: the same device identity and backup key, the
  same outbound sessions at the same message index (so no index is ever used twice), every inbound
  session with its first index, and every Olm session.
\<close>

theorem nothing_lost_on_restart:
  assumes "crypto_lib_ok V" "t_pickle (s_db s) = []"
    "get_meta (db_cipher V) PICKLE_KEY_META s = Inr None" "get_meta (db_cipher V) BACKUP_KEY_META s = Inr None"
    and "load_or_create V n s = (Inr c0, s0)" "fold (run_crypto V) ops (c0, s0) = (c, s1)"
  shows "\<exists>c'. load_or_create V m s1 = (Inr c', s1) \<and> resumes V c c'"
proof -
  have "persisted V (c0, s0)" using first_start [OF assms(1-4), of n] assms(5) by auto
  then have "persisted V (fold (run_crypto V) ops (c0, s0))"
    by (induction ops rule: rev_induct) (simp_all add: run_crypto_keeps [OF assms(1)])
  with restart_resumes [OF assms(1), of c s1 m] assms(6) show ?thesis by auto
qed

lemma demo_crypto_ok: "crypto_lib_ok demo_crypto"
proof -
  have "ascii (replicate n CHR ''1'')" for n by (simp add: ascii_def list_all_iff)
  moreover have "\<not> is_sealed (replicate n CHR ''1'')" for n
    by (cases n) (simp_all add: is_sealed_def ENC_PREFIX_def)
  moreover have "cipher_ok demo_cipher" by simp
  ultimately show ?thesis by (simp add: crypto_lib_ok_def demo_crypto_def)
qed

definition demo_ops :: "crypto_op list" where
  "demo_ops = [KeysUploadBody ''@me:a.io'' ''ME'' 0 True, MarkPublished,
     CreateOutboundOlm JNull [], EncryptRoomKey ''!r'' [] ''@me:a.io'' ''ME'', Encrypt ''!r'' JNull ''ME'']"

theorem nothing_lost_on_restart_witness:
  "\<exists>c0 s0 c s1 c'. load_or_create demo_crypto 0 (fresh_store (Some ''k'')) = (Inr c0, s0)
     \<and> fold (run_crypto demo_crypto) demo_ops (c0, s0) = (c, s1)
     \<and> load_or_create demo_crypto 9 s1 = (Inr c', s1) \<and> resumes demo_crypto c c'"
proof -
  let ?s = "fresh_store (Some ''k'')"
  have db: "db_cipher demo_crypto = demo_cipher" by (simp add: demo_crypto_def)
  have s: "t_pickle (s_db ?s) = []" "meta_row k (s_db ?s) = (if k = ENCRYPTED_FLAG then Some ''1'' else None)" for k
    by (simp_all add: fresh_store_def clear_def on_db_def Let_def mark_encrypted_def meta_row_put)
      (simp_all add: empty_db_def meta_row_def)
  have "get_meta demo_cipher PICKLE_KEY_META ?s = Inr None" "get_meta demo_cipher BACKUP_KEY_META ?s = Inr None"
    by (simp_all add: get_meta_def Let_def s reveal_opt_def ENCRYPTED_FLAG_def PICKLE_KEY_META_def BACKUP_KEY_META_def
        split: option.split)
  note start = demo_crypto_ok s(1) this [folded db]
  obtain c0 s0 where l: "load_or_create demo_crypto 0 ?s = (Inr c0, s0)"
    using first_start [OF start, of 0] by blast
  obtain c s1 where r: "fold (run_crypto demo_crypto) demo_ops (c0, s0) = (c, s1)"
    by (cases "fold (run_crypto demo_crypto) demo_ops (c0, s0)")
  from nothing_lost_on_restart [OF start l r, of 9] l r show ?thesis by blast
qed

end
