(* ===== verification/Crypto_Contracts.thy ===== *)
theory Crypto_Contracts
  imports Crypto_Restart
begin

text \<open>
  What single operations of \<open>Crypto\<close> promise: which room keys and secrets are taken from an incoming
  event, what an upload is signed over, to whom a room key goes, and that the backup never replaces
  a session by one that knows less.
\<close>

section \<open>What an Olm event can change\<close>

lemma and_then_from_result':
  "and_then (from_result r) f s = (case r of Inl e \<Rightarrow> (Inl e, s) | Inr x \<Rightarrow> f x s)"
  by (cases r) simp_all

text \<open>The parts of the state that decide whom to believe.\<close>

definition same_trust :: "'k crypto \<Rightarrow> 'k crypto \<Rightarrow> bool" where
  "same_trust c d \<longleftrightarrow> k_known_devices c = k_known_devices d \<and> k_secret_requests c = k_secret_requests d"

lemma trust_existing:
  "same_trust (fst cs) (fst (snd (decrypt_with_existing V key m cs)))"
  "k_inbound (fst (snd (decrypt_with_existing V key m cs))) = k_inbound (fst cs)"
  "k_account (fst (snd (decrypt_with_existing V key m cs))) = k_account (fst cs)"
  by (auto simp: decrypt_with_existing_def save_session_pickle_def same_trust_def case_prod_unfold Let_def
      split: option.split)

lemma trust_start:
  "same_trust (fst cs) (fst (snd (start_inbound V key m cs)))"
  "k_inbound (fst (snd (start_inbound V key m cs))) = k_inbound (fst cs)"
  by (auto simp: start_inbound_def save_session_pickle_def persist_account_def same_trust_def and_then_from_result'
      case_prod_unfold Let_def split: olm_message.split sum.split)

lemma trust_plaintext:
  "same_trust (fst cs) (fst (snd (olm_plaintext V key m cs)))"
  "k_inbound (fst (snd (olm_plaintext V key m cs))) = k_inbound (fst cs)"
  using trust_existing(1) [where cs = cs and V = V and key = key and m = m]
    trust_existing(2) [where cs = cs and V = V and key = key and m = m]
    trust_start [where cs = "snd (decrypt_with_existing V key m cs)" and V = V and key = key and m = m]
  by (auto simp: olm_plaintext_def same_trust_def split: prod.split option.split)

text \<open>The one plaintext that adds a session, and what it has passed.\<close>

definition sender_ok :: "string \<Rightarrow> json \<Rightarrow> 'k crypto \<Rightarrow> bool" where
  "sender_ok sender_key event c \<longleftrightarrow>
     (case k_known_devices c sender_key of
        Some (user, device) \<Rightarrow> get_str ''sender'' event = Some user | None \<Rightarrow> True)"

definition recipient_ok :: "'k crypto_lib \<Rightarrow> json \<Rightarrow> 'k crypto \<Rightarrow> bool" where
  "recipient_ok V event c \<longleftrightarrow>
     (case Option.bind (get ''recipient_keys'' event) (get_str ''ed25519'') of
        Some key \<Rightarrow> key = ed25519_key V c | None \<Rightarrow> True)"

lemma check_sender_ok:
  "sender_ok key event c \<Longrightarrow> check_sender what key event c = Inr ()"
  "\<not> sender_ok key event c \<Longrightarrow> \<exists>e. check_sender what key event c = Inl e"
  by (auto simp: check_sender_def sender_ok_def Let_def split: option.splits)

lemma room_key_for_us_ok:
  "recipient_ok V event c \<Longrightarrow> room_key_for_us V event c = Inr ()"
  "\<not> recipient_ok V event c \<Longrightarrow> \<exists>e. room_key_for_us V event c = Inl e"
  by (auto simp: room_key_for_us_def recipient_ok_def split: option.splits)

lemma plaintext_room_key:
  assumes "k_inbound (fst (snd (handle_olm_plaintext V key p cs))) \<noteq> k_inbound (fst cs)"
  shows "\<exists>event content room t k. json_parse (serde V) p = Inr event \<and> get_str ''type'' event = Some ''m.room_key''
    \<and> sender_ok key event (fst cs) \<and> recipient_ok V event (fst cs)
    \<and> get ''content'' event = Some content \<and> get_str ''algorithm'' content = Some MEGOLM_ALGORITHM
    \<and> get_str ''room_id'' content = Some room \<and> get_str ''session_key'' content = Some t \<and> key_parse V t = Inr k
    \<and> snd (handle_olm_plaintext V key p cs) = add_inbound V room (in_new V k) cs"
proof (cases "json_parse (serde V) p")
  case (Inl e)
  with assms show ?thesis by (simp add: handle_olm_plaintext_def and_then_from_result')
next
  case (Inr event)
  have "sender_ok key event (fst cs)"
  proof (rule ccontr)
    assume "\<not> sender_ok key event (fst cs)"
    from check_sender_ok(2) [OF this, of "''m.room_key''"] assms Inr show False
      unfolding handle_olm_plaintext_def and_then_from_result' by (auto split: sum.splits if_splits)
  qed
  moreover have "recipient_ok V event (fst cs)"
  proof (rule ccontr)
    assume "\<not> recipient_ok V event (fst cs)"
    from room_key_for_us_ok(2) [OF this] assms Inr show False
      unfolding handle_olm_plaintext_def and_then_from_result' by (auto split: sum.splits if_splits)
  qed
  ultimately show ?thesis
    using assms Inr unfolding handle_olm_plaintext_def and_then_from_result'
    by (auto split: sum.splits if_splits)
qed

lemma plaintext_outcome:
  assumes "fst (handle_olm_plaintext V key p cs) = Inr (Some outcome)"
  shows "k_secret_requests (fst cs) (secret_id outcome) = Some (secret_name outcome)
    \<and> (\<exists>event. json_parse (serde V) p = Inr event \<and> get_str ''type'' event = Some ''m.secret.send''
         \<and> sender_ok key event (fst cs))"
proof (cases "json_parse (serde V) p")
  case (Inl e)
  with assms show ?thesis by (simp add: handle_olm_plaintext_def and_then_from_result')
next
  case (Inr event)
  with assms have secret: "get_str ''type'' event = Some ''m.secret.send''"
    "handle_secret_send key event (fst cs) = Inr (Some outcome)"
    unfolding handle_olm_plaintext_def and_then_from_result' by (auto split: sum.splits if_splits)
  have "sender_ok key event (fst cs)"
  proof (rule ccontr)
    assume "\<not> sender_ok key event (fst cs)"
    from check_sender_ok(2) [OF this, of "''m.secret.send''"] secret(2) show False
      by (auto simp: handle_secret_send_def split: option.splits)
  qed
  with Inr secret show ?thesis by (auto simp: handle_secret_send_def split: option.splits)
qed

lemma plaintext_trust: "same_trust (fst cs) (fst (snd (handle_olm_plaintext V key p cs)))"
  unfolding handle_olm_plaintext_def and_then_from_result'
  by (auto simp: same_trust_def add_inbound_def split: sum.split)

lemma event_cases:
  "handle_olm_event V event cs = (r, cs') \<Longrightarrow> (cs' = cs \<and> (\<forall>x. r \<noteq> Inr (Some x)))
   \<or> (\<exists>key m. get_str ''sender_key'' (td_content event) = Some key
        \<and> addressed_message V (td_content event) (fst cs) = Inr m
        \<and> ((\<exists>e. olm_plaintext V key m cs = (Inl e, cs') \<and> r = Inl e)
          \<or> (\<exists>p d. olm_plaintext V key m cs = (Inr p, d) \<and> handle_olm_plaintext V key p d = (r, cs'))))"
  unfolding handle_olm_event_def and_then_from_result' Let_def
  by (auto simp: and_then_def split: if_splits sum.splits prod.splits)

lemma event_trust: "same_trust (fst cs) (fst (snd (handle_olm_event V event cs)))"
proof -
  obtain r cs' where h: "handle_olm_event V event cs = (r, cs')" by (cases "handle_olm_event V event cs")
  have step: "olm_plaintext V key m cs = (x, d) \<Longrightarrow> same_trust (fst cs) (fst d)" for key m x d
    using trust_plaintext(1) [of cs V key m] by simp
  have "same_trust (fst d) (fst cs')" if "handle_olm_plaintext V key p d = (r, cs')" for key p d
    using plaintext_trust [of d V key p] that by simp
  with event_cases [OF h] step have "same_trust (fst cs) (fst cs')"
    by (elim disjE exE conjE) (auto simp: same_trust_def)
  with h show ?thesis by simp
qed

lemma plaintext_identity:
  assumes "crypto_lib_ok V"
  shows "ed25519_key V (fst (snd (olm_plaintext V key m cs))) = ed25519_key V (fst cs)"
proof -
  have "ed25519_key V (fst (snd (start_inbound V key m d))) = ed25519_key V (fst d)" for d
    using lib_identity(5) [OF assms]
    by (auto simp: start_inbound_def and_then_from_result' ed25519_key_def save_session_pickle_def persist_account_def
        case_prod_unfold Let_def split: olm_message.split sum.split) (metis prod.collapse)+
  with trust_existing(3) [where V = V and key = key and m = m and cs = cs] show ?thesis
    by (auto simp: olm_plaintext_def ed25519_key_def split: prod.split option.split)
qed

text \<open>
  C10: The room keys we hold change only through a well-formed \<open>m.room_key\<close> that came out of an Olm
  message addressed to this device, that names the sender we know for the device it came from, and
  that was not meant for another recipient; it then adds that one session and nothing else.
\<close>

theorem room_keys_authenticated:
  assumes "crypto_lib_ok V" "handle_olm_event V event cs = (r, cs')"
    and "k_inbound (fst cs') \<noteq> k_inbound (fst cs)"
  shows "\<exists>key m p e content t k.
    get_str ''algorithm'' (td_content event) = Some OLM_ALGORITHM
    \<and> get_str ''sender_key'' (td_content event) = Some key
    \<and> addressed_message V (td_content event) (fst cs) = Inr m \<and> fst (olm_plaintext V key m cs) = Inr p
    \<and> json_parse (serde V) p = Inr e \<and> get_str ''type'' e = Some ''m.room_key''
    \<and> (case k_known_devices (fst cs) key of Some (user, device) \<Rightarrow> get_str ''sender'' e = Some user | None \<Rightarrow> True)
    \<and> (case Option.bind (get ''recipient_keys'' e) (get_str ''ed25519'') of
         Some ed \<Rightarrow> ed = ed25519_key V (fst cs) | None \<Rightarrow> True)
    \<and> get ''content'' e = Some content \<and> get_str ''session_key'' content = Some t \<and> key_parse V t = Inr k
    \<and> k_inbound (fst cs') = (k_inbound (fst cs))(in_id V (in_new V k) \<mapsto> in_new V k)"
proof -
  from event_cases [OF assms(2)] assms(3) trust_plaintext(2) [where V = V and cs = cs]
  obtain key m p d where o: "get_str ''sender_key'' (td_content event) = Some key"
    "addressed_message V (td_content event) (fst cs) = Inr m"
    "olm_plaintext V key m cs = (Inr p, d)" "handle_olm_plaintext V key p d = (r, cs')"
    by (elim disjE exE conjE) (simp, metis fst_conv snd_conv, blast)
  have alg: "get_str ''algorithm'' (td_content event) = Some OLM_ALGORITHM"
    using assms(2,3) by (auto simp: handle_olm_event_def Let_def split: if_splits)
  have d: "k_inbound (fst d) = k_inbound (fst cs)" "k_known_devices (fst d) = k_known_devices (fst cs)"
    "ed25519_key V (fst d) = ed25519_key V (fst cs)"
    using trust_plaintext [where V = V and cs = cs and key = key and m = m] plaintext_identity [OF assms(1), of key m cs] o(3)
    by (simp_all add: same_trust_def)
  have "k_inbound (fst (snd (handle_olm_plaintext V key p d))) \<noteq> k_inbound (fst d)" using o(4) assms(3) d(1) by simp
  from plaintext_room_key [OF this] obtain e content room t k where
    e: "json_parse (serde V) p = Inr e" "get_str ''type'' e = Some ''m.room_key''" "sender_ok key e (fst d)"
      "recipient_ok V e (fst d)" "get ''content'' e = Some content" "get_str ''session_key'' content = Some t"
      "key_parse V t = Inr k" "cs' = add_inbound V room (in_new V k) d"
    using o(4) by auto
  have "k_inbound (fst cs') = (k_inbound (fst cs))(in_id V (in_new V k) \<mapsto> in_new V k)"
    using e(8) d(1) by (simp add: add_inbound_def)
  moreover have "recipient_ok V e (fst cs)" using e(4) d(3) by (simp add: recipient_ok_def split: option.splits)
  ultimately show ?thesis using e o(1-3) alg d(2) unfolding sender_ok_def recipient_ok_def by auto
qed

lemmas demo_olm = demo_olm_event_def demo_room_key_def demo_secret_def demo_waiting_def demo_state_def obj_def
  bt_collect_def get_str_def

lemmas demo_receive = handle_olm_event_def addressed_message_def curve25519_key_def olm_plaintext_def
  decrypt_with_existing_def start_inbound_def handle_olm_plaintext_def and_then_def from_result_def
  check_sender_def room_key_for_us_def handle_secret_send_def save_session_pickle_def persist_account_def

theorem room_keys_authenticated_witness:
  "\<exists>key e content t. get_str ''sender_key'' (td_content (demo_olm_event demo_room_key)) = Some key
    \<and> get_str ''type'' e = Some ''m.room_key'' \<and> get ''content'' e = Some content
    \<and> get_str ''session_key'' content = Some t"
proof -
  let ?cs = "(demo_waiting, fresh_store None)" and ?e = "demo_olm_event demo_room_key"
  have "k_inbound (fst (snd (handle_olm_event demo_crypto ?e ?cs))) ''sk'' = Some ''sk''"
    by (simp add: demo_receive demo_olm demo_crypto_def unary_json_def add_inbound_def)
  moreover have "k_inbound (fst ?cs) ''sk'' = None" by (simp add: demo_waiting_def demo_state_def)
  ultimately have "k_inbound (fst (snd (handle_olm_event demo_crypto ?e ?cs))) \<noteq> k_inbound (fst ?cs)" by auto
  from room_keys_authenticated [OF demo_crypto_ok prod.collapse [symmetric] this] show ?thesis by blast
qed

text \<open>
  C23: A secret is handed on only in answer to a request of ours, under the name that was asked for
  with that request id, and never if it claims another sender than the device it came from.
\<close>

theorem only_requested_secrets:
  assumes "handle_to_device V events cs = (outcomes, cs')" "Secret name secret request_id \<in> set outcomes"
  shows "k_secret_requests (fst cs) request_id = Some name
    \<and> (\<exists>event \<in> set events. \<exists>key p e. td_kind event = ''m.room.encrypted''
         \<and> get_str ''sender_key'' (td_content event) = Some key \<and> json_parse (serde V) p = Inr e
         \<and> get_str ''type'' e = Some ''m.secret.send''
         \<and> (case k_known_devices (fst cs) key of Some (user, device) \<Rightarrow> get_str ''sender'' e = Some user | None \<Rightarrow> True))"
  using assms
proof (induction events arbitrary: cs outcomes)
  case (Cons event events)
  obtain r d where h: "handle_olm_event V event cs = (r, d)" by (cases "handle_olm_event V event cs")
  have trust: "same_trust (fst cs) (fst d)" using event_trust [of cs V event] h by simp
  show ?case
  proof (cases "td_kind event = ''m.room.encrypted'' \<and> r = Inr (Some (Secret name secret request_id))")
    case True
    with event_cases [OF h] obtain key m p d' where o: "get_str ''sender_key'' (td_content event) = Some key"
      "olm_plaintext V key m cs = (Inr p, d')" "handle_olm_plaintext V key p d' = (r, d)" by auto
    have "same_trust (fst cs) (fst d')" using trust_plaintext(1) [of cs V key m] o(2) by simp
    with plaintext_outcome [of V key p d'] o(3) True
    have "k_secret_requests (fst cs) request_id = Some name"
      "\<exists>e. json_parse (serde V) p = Inr e \<and> get_str ''type'' e = Some ''m.secret.send'' \<and> sender_ok key e (fst cs)"
      by (auto simp: same_trust_def sender_ok_def)
    with o(1) True show ?thesis unfolding sender_ok_def by auto
  next
    case False
    show ?thesis
    proof (cases "td_kind event = ''m.room.encrypted''")
      case True
      with Cons.prems h False
      obtain os where "handle_to_device V events d = (os, cs')" "Secret name secret request_id \<in> set os"
        by (auto simp: case_prod_unfold Let_def split: sum.splits option.splits) (metis prod.collapse)+
      from Cons.IH [OF this] trust show ?thesis by (auto simp: same_trust_def)
    next
      case F: False
      with Cons.prems have "handle_to_device V events cs = (outcomes, cs')" by simp
      from Cons.IH [OF this Cons.prems(2)] show ?thesis by auto
    qed
  qed
qed simp

theorem only_requested_secrets_witness:
  "\<exists>outcomes. fst (handle_to_device demo_crypto [demo_olm_event demo_secret] (demo_waiting, fresh_store None)) = outcomes
     \<and> Secret MEGOLM_BACKUP_SECRET ''s3cret'' ''q'' \<in> set outcomes
     \<and> k_secret_requests demo_waiting ''q'' = Some MEGOLM_BACKUP_SECRET"
proof -
  let ?cs = "(demo_waiting, fresh_store None)" and ?es = "[demo_olm_event demo_secret]"
  have "fst (handle_olm_event demo_crypto (demo_olm_event demo_secret) ?cs)
      = Inr (Some (Secret MEGOLM_BACKUP_SECRET ''s3cret'' ''q''))"
    by (simp add: demo_receive demo_olm demo_crypto_def unary_json_def)
  then obtain d where "handle_olm_event demo_crypto (demo_olm_event demo_secret) ?cs
      = (Inr (Some (Secret MEGOLM_BACKUP_SECRET ''s3cret'' ''q'')), d)"
    by (metis prod.collapse)
  moreover have "td_kind (demo_olm_event demo_secret) = ''m.room.encrypted''" by (simp add: demo_olm_event_def)
  ultimately have "fst (handle_to_device demo_crypto ?es ?cs) = [Secret MEGOLM_BACKUP_SECRET ''s3cret'' ''q'']"
    by simp
  then have m: "Secret MEGOLM_BACKUP_SECRET ''s3cret'' ''q'' \<in> set (fst (handle_to_device demo_crypto ?es ?cs))"
    by (simp only: list.set insert_iff simp_thms)
  from only_requested_secrets [OF prod.collapse [symmetric] m] have "k_secret_requests demo_waiting ''q'' = Some MEGOLM_BACKUP_SECRET"
    by (simp only: fst_conv)
  with m show ?thesis by blast
qed

section \<open>Uploads\<close>

lemma filter_bt_insert:
  "(\<And>x. \<not> P (k, x)) \<Longrightarrow> filter P (bt_insert k v m) = filter P m"
  by (induction m) auto

lemma bt_collect_snoc: "bt_collect (kvs @ [(k, v)]) = bt_insert k v (bt_collect kvs)"
  by (simp add: bt_collect_def)

text \<open>The signature covers the object it is put into, since canonical JSON leaves it out.\<close>

lemma signed_object_canonical:
  "canonical_json (signed_object V a user device entries) = canonical_json (obj entries)"
  by (simp add: signed_object_def obj_def bt_collect_snoc canonical_json_redact redact_def filter_bt_insert)

lemma signed_object_signature:
  "Option.bind (get ''signatures'' (signed_object V a user device entries)) (\<lambda>s.
     Option.bind (get user s) (get_str (''ed25519:'' @ device))) = Some (acc_sign V a (canonical_json (obj entries)))"
  by (simp add: signed_object_def obj_def bt_collect_snoc signatures_for_def get_str_def bt_collect_def)

lemma bt_collect_values: "(k, v) \<in> set (bt_collect kvs) \<Longrightarrow> (k, v) \<in> set kvs"
proof -
  have ins: "set (bt_insert a b m) \<subseteq> insert (a, b) (set m)" for a :: 'a and b :: 'b and m
    by (induction m) (auto split: if_splits)
  have "set (fold (\<lambda>(k, v). bt_insert k v) kvs m) \<subseteq> set kvs \<union> set m" for m :: "('a \<times> 'b) list"
  proof (induction kvs arbitrary: m)
    case (Cons kv kvs)
    from Cons.IH [of "bt_insert (fst kv) (snd kv) m"] ins [of "fst kv" "snd kv" m] show ?case
      by (cases kv) auto
  qed simp
  then show "(k, v) \<in> set (bt_collect kvs) \<Longrightarrow> (k, v) \<in> set kvs" unfolding bt_collect_def by fastforce
qed

lemma signed_object_entry:
  "k \<noteq> ''signatures'' \<Longrightarrow> get k (signed_object V a user device entries) = get k (obj entries)"
  by (simp add: signed_object_def obj_def bt_collect_snoc)

text \<open>What it means that an object carries our signature over itself.\<close>

definition signed_by_us :: "'k crypto_lib \<Rightarrow> 'k \<Rightarrow> string \<Rightarrow> string \<Rightarrow> json \<Rightarrow> bool" where
  "signed_by_us V account user device v \<longleftrightarrow>
     Option.bind (get ''signatures'' v) (\<lambda>s. Option.bind (get user s) (get_str (''ed25519:'' @ device)))
       = Some (acc_sign V account (canonical_json v))"

lemma signed_object_signed: "signed_by_us V a user device (signed_object V a user device entries)"
  unfolding signed_by_us_def signed_object_canonical by (rule signed_object_signature)

definition otk_name :: "'k crypto_lib \<Rightarrow> 64 word \<Rightarrow> string" where
  "otk_name V i = ''signed_curve25519:'' @ key_id_base64 V i"

definition our_device_keys :: "'k crypto_lib \<Rightarrow> 'k crypto \<Rightarrow> string \<Rightarrow> string \<Rightarrow> json \<Rightarrow> bool" where
  "our_device_keys V c user device keys \<longleftrightarrow> signed_by_us V (k_account c) user device keys
     \<and> get_str ''user_id'' keys = Some user \<and> get_str ''device_id'' keys = Some device
     \<and> get ''keys'' keys = Some (obj [(''curve25519:'' @ device, JStr (curve25519_key V c)),
                                   (''ed25519:'' @ device, JStr (ed25519_key V c))])"

lemma signed_device_keys_ours: "our_device_keys V c user device (signed_device_keys V c user device)"
  by (simp add: our_device_keys_def signed_device_keys_def signed_object_signed get_str_def signed_object_entry
      unsigned_device_keys_def)
    (simp add: obj_def bt_collect_def)

text \<open>The one-time keys of an upload: those of the account that are not published yet, all of them and no other.\<close>

definition our_otks :: "'k crypto_lib \<Rightarrow> 'k crypto \<Rightarrow> string \<Rightarrow> string \<Rightarrow> (string, json) btree \<Rightarrow> bool" where
  "our_otks V c user device otks \<longleftrightarrow>
     fst ` set otks = (\<lambda>(i, k). otk_name V i) ` set (acc_otks V (k_account c))
     \<and> (\<forall>(name, key) \<in> set otks. signed_by_us V (k_account c) user device key
          \<and> (\<exists>(i, k) \<in> set (acc_otks V (k_account c)). name = otk_name V i \<and> get_str ''key'' key = Some k))"

lemma bt_collect_keys: "fst ` set (bt_collect kvs) = fst ` set kvs"
proof -
  have ins: "fst ` set (bt_insert a b m) = insert a (fst ` set m)" for a :: 'a and b :: 'b and m
    by (induction m) auto
  have "fst ` set (fold (\<lambda>(k, v). bt_insert k v) kvs m) = fst ` set kvs \<union> fst ` set m" for m :: "('a \<times> 'b) list"
  proof (induction kvs arbitrary: m)
    case (Cons kv kvs)
    then show ?case by (cases kv) (simp add: ins)
  qed simp
  then show ?thesis unfolding bt_collect_def by simp
qed

lemma signed_otks_ours: "our_otks V c user device (signed_otks V c user device)"
proof -
  let ?entry = "\<lambda>(i, k). (otk_name V i, signed_object V (k_account c) user device [(''key'', JStr k)])"
  have otks: "signed_otks V c user device = bt_collect (map ?entry (sort_key fst (acc_otks V (k_account c))))"
    by (simp add: signed_otks_def otk_name_def)
  have "fst ` set (signed_otks V c user device) = (\<lambda>(i, k). otk_name V i) ` set (acc_otks V (k_account c))"
    unfolding otks bt_collect_keys by (auto simp: image_image case_prod_unfold)
  moreover have "signed_by_us V (k_account c) user device key
      \<and> (\<exists>(i, k) \<in> set (acc_otks V (k_account c)). name = otk_name V i \<and> get_str ''key'' key = Some k)"
    if entry: "(name, key) \<in> set (signed_otks V c user device)" for name key
  proof -
    from bt_collect_values [OF entry [unfolded otks]] obtain i k where k: "(i, k) \<in> set (acc_otks V (k_account c))"
      "name = otk_name V i" "key = signed_object V (k_account c) user device [(''key'', JStr k)]" by auto
    have "get_str ''key'' key = Some k" unfolding k(3) get_str_def
      by (simp add: signed_object_entry) (simp add: obj_def bt_collect_def)
    with k show ?thesis using signed_object_signed by auto
  qed
  ultimately show ?thesis unfolding our_otks_def by blast
qed

text \<open>
  C29: An upload of keys holds exactly what it should, and all of it is signed in place. Device keys are
  in it exactly when asked for; they name our user, our device and both identity keys. The one-time
  keys in it are all keys of the account that have not been published yet, among them those of an
  upload that failed, and no others; there is no upload only when there is nothing to send. Each
  object carries, under our user and device, the account's signature over its own canonical JSON. New
  keys are generated only as many as the server lacks of fifty and as the account can hold.
\<close>

theorem uploads_are_signed:
  "case keys_upload_body V user device n include_device_keys c of (upload, c') \<Rightarrow>
     c' = generate_otks V (min (50 - unat n) (acc_max_otks V (k_account c))) c
     \<and> (case upload of
          None \<Rightarrow> \<not> include_device_keys \<and> acc_otks V (k_account c') = []
        | Some body \<Rightarrow>
            (case get ''device_keys'' body of
               None \<Rightarrow> \<not> include_device_keys
             | Some keys \<Rightarrow> include_device_keys \<and> our_device_keys V c user device keys)
          \<and> (case get_obj ''one_time_keys'' body of
               None \<Rightarrow> acc_otks V (k_account c') = []
             | Some otks \<Rightarrow> acc_otks V (k_account c') \<noteq> [] \<and> our_otks V c' user device otks))"
proof -
  let ?c = "generate_otks V (wanted_otks V c n) c"
  have "wanted_otks V c n = min (50 - unat n) (acc_max_otks V (k_account c))" by (simp add: wanted_otks_def OTK_TARGET_def)
  moreover have "keys_upload_body V user device n include_device_keys c =
      (if include_device_keys \<or> acc_otks V (k_account ?c) \<noteq> []
       then Some (obj ((if include_device_keys then [(''device_keys'', signed_device_keys V c user device)] else [])
              @ (if acc_otks V (k_account ?c) = [] then [] else [(''one_time_keys'', JObj (signed_otks V ?c user device))])))
       else None, ?c)"
    by (simp add: keys_upload_body_def Let_def)
  ultimately show ?thesis
    using signed_device_keys_ours [of V c user device] signed_otks_ours [of V ?c user device]
    by (simp add: obj_def bt_collect_def get_obj_def)
qed

section \<open>Sharing a room key\<close>

lemma put_message_entries:
  "(u, m) \<in> set (put_message d content messages) \<Longrightarrow> (dev, x) \<in> set m \<Longrightarrow>
     (u = di_user_id d \<and> dev = di_device_id d \<and> x = content) \<or> (\<exists>m'. (u, m') \<in> set messages \<and> (dev, x) \<in> set m')"
proof -
  assume u: "(u, m) \<in> set (put_message d content messages)" and x: "(dev, x) \<in> set m"
  have ins: "p \<in> set (bt_insert a b t) \<Longrightarrow> p = (a, b) \<or> p \<in> set t"
    for a :: string and b :: 'c and t :: "(string, 'c) btree" and p
    by (induction t) (auto split: if_splits)
  from ins [OF u [unfolded put_message_def]] show ?thesis
  proof
    assume "(u, m) = (di_user_id d, bt_insert (di_device_id d) content
        (case bt_get messages (di_user_id d) of None \<Rightarrow> [] | Some m \<Rightarrow> m))"
    then have m: "u = di_user_id d" "m = bt_insert (di_device_id d) content
        (case bt_get messages u of None \<Rightarrow> [] | Some m \<Rightarrow> m)" by simp_all
    from ins [OF x [unfolded m(2)]] m(1) show ?thesis
      by (cases "bt_get messages u") (auto dest: map_of_SomeD)
  qed (use x in blast)
qed

text \<open>An Olm session after some messages were encrypted with it.\<close>

inductive advanced :: "'k crypto_lib \<Rightarrow> 'k \<Rightarrow> 'k \<Rightarrow> bool" for V start where
  unused: "advanced V start start"
| used: "advanced V start k \<Longrightarrow> advanced V start (snd (sess_encrypt V n k p))"

text \<open>The session that is used for a device: the newest one.\<close>

definition newest_session :: "'k crypto \<Rightarrow> string \<Rightarrow> 'k option" where
  "newest_session c curve = (case k_olm_sessions c curve of Some (k # ks) \<Rightarrow> Some (last (k # ks)) | _ \<Rightarrow> None)"

lemma newest_session_snoc [simp]:
  "newest_session (c\<lparr>k_olm_sessions := (k_olm_sessions c)(curve \<mapsto> ks @ [k]), k_draws := n\<rparr>) x
     = (if x = curve then Some k else newest_session c x)"
  by (cases ks) (simp_all add: newest_session_def)

lemma olm_encrypt_newest:
  "olm_encrypt V curve p cs = (case newest_session (fst cs) curve of
     None \<Rightarrow> (Inl (Msg (''no olm session for device key '' @ curve)), cs)
   | Some k \<Rightarrow>
      (let (r, session) = sess_encrypt V (k_draws (fst cs)) k p;
           c = (fst cs)\<lparr>k_olm_sessions := (k_olm_sessions (fst cs))
                 (curve \<mapsto> butlast (the (k_olm_sessions (fst cs) curve)) @ [session]), k_draws := k_draws (fst cs) + 1\<rparr>
       in case r of
            Inl e \<Rightarrow> (Inl (Context ''olm encrypt'' (Msg e)), (c, snd cs))
          | Inr (t, ct) \<Rightarrow> (Inr (t, voz_encode V ct), save_session_pickle V curve session (c, snd cs))))"
  unfolding olm_encrypt_def newest_session_def by (cases "k_olm_sessions (fst cs) curve") (auto split: list.split)

lemma olm_encrypt_session:
  assumes "olm_encrypt V curve p cs = (r, cs')"
  shows "k_account (fst cs') = k_account (fst cs)"
    "newest_session (fst cs') x = Some k' \<Longrightarrow> \<exists>k. newest_session (fst cs) x = Some k \<and> (k' = k \<or> (\<exists>n. k' = snd (sess_encrypt V n k p)))"
    "r = Inr (t, body) \<Longrightarrow> \<exists>n k ct. newest_session (fst cs) curve = Some k \<and> fst (sess_encrypt V n k p) = Inr (t, ct)
      \<and> body = voz_encode V ct"
proof -
  show "k_account (fst cs') = k_account (fst cs)"
    "newest_session (fst cs') x = Some k' \<Longrightarrow> \<exists>k. newest_session (fst cs) x = Some k \<and> (k' = k \<or> (\<exists>n. k' = snd (sess_encrypt V n k p)))"
    using assms unfolding olm_encrypt_newest
    by (auto simp: save_session_pickle_def Let_def case_prod_unfold split: option.splits sum.splits if_splits)
  assume "r = Inr (t, body)"
  then show "\<exists>n k ct. newest_session (fst cs) curve = Some k \<and> fst (sess_encrypt V n k p) = Inr (t, ct) \<and> body = voz_encode V ct"
    using assms unfolding olm_encrypt_newest
    by (auto simp: Let_def case_prod_unfold split: option.splits sum.splits) blast
qed

text \<open>The Olm ciphertext of a text under the session of a device, as it was in \<open>c\<close> or has moved on since.\<close>

definition sealed_for :: "'k crypto_lib \<Rightarrow> 'k crypto \<Rightarrow> string \<Rightarrow> string \<Rightarrow> 64 word \<Rightarrow> string \<Rightarrow> bool" where
  "sealed_for V c curve text t body \<longleftrightarrow> (\<exists>start k n ct. newest_session c curve = Some start \<and> advanced V start k
     \<and> fst (sess_encrypt V n k text) = Inr (t, ct) \<and> body = voz_encode V ct)"

lemma sealed_for_before:
  assumes "\<And>x k'. newest_session c' x = Some k' \<Longrightarrow> \<exists>k. newest_session c x = Some k \<and> (k' = k \<or> (\<exists>n p. k' = snd (sess_encrypt V n k p)))"
    and "sealed_for V c' curve text t body"
  shows "sealed_for V c curve text t body"
proof -
  obtain start' k n ct where s: "newest_session c' curve = Some start'" "advanced V start' k"
    "fst (sess_encrypt V n k text) = Inr (t, ct)" "body = voz_encode V ct"
    using assms(2) unfolding sealed_for_def by blast
  from assms(1) [OF s(1)] obtain start where start: "newest_session c curve = Some start"
    "advanced V start start'" using advanced.intros by metis
  from s(2) start(2) have "advanced V start k" by (induction rule: advanced.induct) (auto intro: advanced.used)
  with start(1) s(3,4) show ?thesis unfolding sealed_for_def by blast
qed

definition key_for :: "'k crypto_lib \<Rightarrow> json \<Rightarrow> string \<Rightarrow> string \<Rightarrow> 'k crypto \<Rightarrow> device_info \<Rightarrow> json \<Rightarrow> bool" where
  "key_for V content u d c info x \<longleftrightarrow> di_curve_key info \<noteq> curve25519_key V c
     \<and> (\<exists>t body. x = olm_to_device_content (curve25519_key V c) (di_curve_key info) t body
          \<and> sealed_for V c (di_curve_key info)
              (json_print (serde V) (room_key_envelope content u d (ed25519_key V c) info)) t body)"

lemma key_for_before:
  assumes "k_account c' = k_account c"
    and "\<And>x k'. newest_session c' x = Some k' \<Longrightarrow> \<exists>k. newest_session c x = Some k \<and> (k' = k \<or> (\<exists>n p. k' = snd (sess_encrypt V n k p)))"
    and "key_for V content u d c' info x"
  shows "key_for V content u d c info x"
proof -
  have "sealed_for V c' curve p t body \<Longrightarrow> sealed_for V c curve p t body" for curve p t body
    by (rule sealed_for_before [of c' c]) (rule assms(2))
  then show ?thesis using assms(3) unfolding key_for_def curve25519_key_def ed25519_key_def assms(1) by blast
qed

lemma share_key_sealed:
  "share_key V content u d devices messages cs = (out, cs') \<Longrightarrow> (user, m) \<in> set out \<Longrightarrow> (device, x) \<in> set m \<Longrightarrow>
   (\<exists>m'. (user, m') \<in> set messages \<and> (device, x) \<in> set m')
   \<or> (\<exists>info \<in> set devices. di_user_id info = user \<and> di_device_id info = device \<and> key_for V content u d (fst cs) info x)"
proof (induction devices arbitrary: messages cs)
  case (Cons a ds)
  let ?own = "curve25519_key V (fst cs)"
  show ?case
  proof (cases "di_curve_key a = ?own")
    case True
    with Cons.prems Cons.IH [of messages cs] show ?thesis by auto
  next
    case False
    let ?text = "json_print (serde V) (room_key_envelope content u d (ed25519_key V (fst cs)) a)"
    obtain r c where e: "olm_encrypt V (di_curve_key a) ?text cs = (r, c)"
      by (cases "olm_encrypt V (di_curve_key a) ?text cs")
    note enc = olm_encrypt_session [OF e]
    have before: "key_for V content u d c' info x \<Longrightarrow> key_for V content u d (fst cs) info x"
      if "k_account c' = k_account (fst c)" "\<And>y. newest_session c' y = newest_session (fst c) y" for info c'
      by (rule key_for_before [of c']) (use that enc(1,2) in \<open>auto, blast\<close>)
    show ?thesis
    proof (cases r)
      case (Inl err)
      with Cons.prems e False have "share_key V content u d ds messages c = (out, cs')" by simp
      from Cons.IH [OF this Cons.prems(2,3)] before [of "fst c"] show ?thesis by auto
    next
      case (Inr tb)
      let ?c = "(fst c)\<lparr>k_known_devices := (k_known_devices (fst c)) (di_curve_key a \<mapsto> (di_user_id a, di_device_id a))\<rparr>"
      let ?x = "olm_to_device_content ?own (di_curve_key a) (fst tb) (snd tb)"
      have s: "share_key V content u d ds (put_message a ?x messages) (?c, snd c) = (out, cs')"
        using Cons.prems(1) e False Inr enc(1) by (simp add: case_prod_unfold Let_def curve25519_key_def)
      have later: "key_for V content u d ?c info x \<Longrightarrow> key_for V content u d (fst cs) info x" for info
        by (rule before) (simp_all add: newest_session_def)
      have "sealed_for V (fst cs) (di_curve_key a) ?text (fst tb) (snd tb)"
        using enc(3) [of "fst tb" "snd tb"] Inr unfolding sealed_for_def by (auto intro: advanced.unused)
      then have here: "key_for V content u d (fst cs) a ?x" using False unfolding key_for_def by auto
      from Cons.IH [OF s Cons.prems(2,3)] later show ?thesis
      proof (elim disjE exE conjE)
        fix m' assume "(user, m') \<in> set (put_message a ?x messages)" "(device, x) \<in> set m'"
        from put_message_entries [OF this] here show ?thesis by auto
      qed auto
    qed
  qed
qed auto

text \<open>
  C22: A room key is sent to the listed devices only, never to our own, and only under encryption: what
  a device gets is addressed to its key, and its body is the Olm ciphertext, under the newest session
  we already had with that device (moved on by the messages encrypted before), of the envelope that
  carries the room's session and names us as the sender and that device as the recipient.
\<close>

theorem room_key_only_to_listed:
  assumes "encrypt_room_key_to_devices V room devices u d cs = (JObj messages, cs')"
    and "(user, JObj m) \<in> set messages" "(device, content) \<in> set m"
  shows "\<exists>info \<in> set devices. di_user_id info = user \<and> di_device_id info = device
    \<and> di_curve_key info \<noteq> curve25519_key V (fst cs)
    \<and> (\<exists>t ct start k n. content = olm_to_device_content (curve25519_key V (fst cs)) (di_curve_key info) t (voz_encode V ct)
         \<and> newest_session (fst cs) (di_curve_key info) = Some start \<and> advanced V start k
         \<and> fst (sess_encrypt V n k (json_print (serde V)
               (room_key_envelope (room_key_content V room (fst (get_or_create_outbound V room cs))) u d
                  (ed25519_key V (fst cs)) info))) = Inr (t, ct))"
proof -
  obtain k c where k: "get_or_create_outbound V room cs = (k, c)" by (cases "get_or_create_outbound V room cs")
  obtain out c' where s: "share_key V (room_key_content V room k) u d devices [] c = (out, c')"
    by (cases "share_key V (room_key_content V room k) u d devices [] c")
  have "messages = map (\<lambda>(u, m). (u, JObj m)) out" using assms(1) k s by (simp add: encrypt_room_key_to_devices_def)
  with assms(2) have "(user, m) \<in> set out" by auto
  from share_key_sealed [OF s this assms(3)] obtain info where info: "info \<in> set devices" "di_user_id info = user"
    "di_device_id info = device" "key_for V (room_key_content V room k) u d (fst c) info content" by auto
  have "k_account (fst c) = k_account (fst cs)" "newest_session (fst c) x = newest_session (fst cs) x" for x
    using k by (auto simp: get_or_create_outbound_def add_inbound_def save_outbound_pickle_def newest_session_def
        Let_def split: option.splits)
  then have "key_for V (room_key_content V room k) u d (fst cs) info content"
    by (intro key_for_before [OF _ _ info(4)]) auto
  then obtain t ct start n k' where key: "di_curve_key info \<noteq> curve25519_key V (fst cs)"
    "content = olm_to_device_content (curve25519_key V (fst cs)) (di_curve_key info) t (voz_encode V ct)"
    "newest_session (fst cs) (di_curve_key info) = Some start" "advanced V start k'"
    "fst (sess_encrypt V n k' (json_print (serde V) (room_key_envelope (room_key_content V room k) u d
       (ed25519_key V (fst cs)) info))) = Inr (t, ct)"
    unfolding key_for_def sealed_for_def by blast
  from k have "fst (get_or_create_outbound V room cs) = k" by simp
  with info(1-3) key show ?thesis by (intro bexI [of _ info] conjI exI) simp_all
qed

definition demo_peer :: device_info where
  "demo_peer = \<lparr>di_user_id = ''@a:a.io'', di_device_id = ''D'', di_curve_key = ''theirs'', di_ed_key = ''ed''\<rparr>"

theorem room_key_only_to_listed_witness:
  "\<exists>m content t ct. (''D'', content) \<in> set (m :: (string \<times> json) list)
     \<and> content = olm_to_device_content ''curve'' ''theirs'' t (voz_encode demo_crypto ct)
     \<and> (\<exists>n k. fst (sess_encrypt demo_crypto n k (json_print (serde demo_crypto)
           (room_key_envelope (room_key_content demo_crypto ''!r'' (out_new demo_crypto 0)) ''@me:a.io'' ''ME''
              (ed25519_key demo_crypto demo_state) demo_peer))) = Inr (t, ct))"
proof -
  let ?cs = "(demo_state\<lparr>k_olm_sessions := [''theirs'' \<mapsto> [''olm'']]\<rparr>, fresh_store None)"
  let ?r = "encrypt_room_key_to_devices demo_crypto ''!r'' [demo_peer] ''@me:a.io'' ''ME'' ?cs"
  obtain content where "fst ?r = JObj [(''@a:a.io'', JObj [(''D'', content)])]"
    by (simp add: encrypt_room_key_to_devices_def get_or_create_outbound_def add_inbound_def save_outbound_pickle_def
        olm_encrypt_def put_message_def curve25519_key_def demo_peer_def demo_state_def demo_crypto_def Let_def
        case_prod_unfold save_session_pickle_def)
  then have r: "?r = (JObj [(''@a:a.io'', JObj [(''D'', content)])], snd ?r)" by (metis prod.collapse)
  have "fst (get_or_create_outbound demo_crypto ''!r'' ?cs) = out_new demo_crypto 0"
    "curve25519_key demo_crypto (fst ?cs) = ''curve''" "ed25519_key demo_crypto (fst ?cs) = ed25519_key demo_crypto demo_state"
    by (simp_all add: get_or_create_outbound_def demo_state_def curve25519_key_def ed25519_key_def demo_crypto_def Let_def
        case_prod_unfold)
  moreover have "di_curve_key demo_peer = ''theirs''" by (simp add: demo_peer_def)
  moreover note room_key_only_to_listed [OF r, of "''@a:a.io''" "[(''D'', content)]" "''D''" content]
  ultimately show ?thesis by (intro exI [of _ "[(''D'', content)]"] exI [of _ content]) auto
qed

section \<open>The key backup\<close>

text \<open>
  C38: Importing from the backup changes at most the session the entry is filed under, and only to
  one that really has that id and, where a session was known, starts at an earlier index; in every
  other case, errors included, it leaves everything as it was.
\<close>

theorem import_never_goes_back:
  "case import_backup_session V room session_id entry cs of
     (Inr True, cs') \<Rightarrow> (\<exists>k. cs' = add_inbound V room k cs \<and> in_id V k = session_id
         \<and> k_inbound (fst cs') = (k_inbound (fst cs))(session_id \<mapsto> k)
         \<and> (case k_inbound (fst cs) session_id of Some old \<Rightarrow> in_first V k < in_first V old | None \<Rightarrow> True))
   | (_, cs') \<Rightarrow> cs' = cs"
proof -
  have imported: "k_inbound (fst (add_inbound V room k cs)) = (k_inbound (fst cs))(in_id V k \<mapsto> k)" for k
    by (simp add: add_inbound_def)
  have "exported_session V session_id decoded = Inr k \<Longrightarrow> in_id V k = session_id" for decoded k
    by (auto simp: exported_session_def Let_def split: if_splits)
  then show ?thesis
    unfolding import_backup_session_def and_then_from_result' Let_def
    by (auto simp: imported known_as_early_def word_less_nat_alt split: sum.splits option.splits)
qed

end
