(* ===== verification/Naming.thy ===== *)
theory Naming
  imports Store
begin

text \<open>
  How \<open>main.rs\<close> names a room that has no name of its own: from the heroes of the sync summary, or
  from the list of its members without the users of a bridge, with a limit on how many are listed
  and a count of the rest.
\<close>

definition HERO_CAP :: nat where
  "HERO_CAP = 5"

definition BRIDGE_UBIQUITY :: nat where
  "BRIDGE_UBIQUITY = 3"

definition saturating_sub :: "32 word \<Rightarrow> 32 word \<Rightarrow> 32 word" where
  "saturating_sub a b = (if b \<le> a then a - b else 0)"

definition compose_name :: "string list \<Rightarrow> 32 word \<Rightarrow> string" where
  "compose_name names members =
     (let others = saturating_sub (saturating_sub members 1) (word_of_nat (length names));
          listed = join '', '' names
      in if others = 0 then listed
         else if others = 1 then listed @ '' and 1 other''
         else listed @ '' and '' @ show_nat (unat others) @ '' others'')"

definition localpart :: "string \<Rightarrow> string" where
  "localpart user =
     takeWhile (\<lambda>c. c \<noteq> CHR '':'')
       (case strip_prefix ''@'' user of Some rest \<Rightarrow> rest | None \<Rightarrow> user)"

text \<open>A display name if there is one, else the local part of the id.\<close>

definition shown_name :: "string \<Rightarrow> string option \<Rightarrow> string" where
  "shown_name user name =
     (case name of Some n \<Rightarrow> if n \<noteq> [] then n else localpart user | None \<Rightarrow> localpart user)"

definition hero_name :: "joined_room \<Rightarrow> string \<Rightarrow> string" where
  "hero_name jr user =
     (let member = List.find (\<lambda>ev. e_kind ev = ''m.room.member'' \<and> e_state_key ev = Some user)
                     (j_state jr @ tl_events (j_timeline jr))
      in shown_name user (Option.bind member (\<lambda>ev. c_displayname (e_content ev))))"

definition name_from_heroes :: "joined_room \<Rightarrow> string option" where
  "name_from_heroes jr =
     (let s = j_summary jr;
          members = joined_member_count s + invited_member_count s
      in if heroes s = [] then (if members = 1 then Some ''Empty room'' else None)
         else Some (compose_name (map (hero_name jr) (heroes s)) members))"

definition person_name :: "string \<Rightarrow> (string, string option) btree \<Rightarrow> string" where
  "person_name user members =
     shown_name user (case bt_get members user of Some d \<Rightarrow> d | None \<Rightarrow> None)"

text \<open>Whom a room is named after: everyone but us and the bridge, or everyone but us.\<close>

definition people_of :: "string \<Rightarrow> (string, string option) btree \<Rightarrow> string list \<Rightarrow> string list" where
  "people_of me joined skip =
     (let people = filter (\<lambda>u. u \<noteq> me \<and> u \<notin> set skip) (map fst joined)
      in if people = [] then filter (\<lambda>u. u \<noteq> me) (map fst joined) else people)"

definition name_from_members ::
  "string \<Rightarrow> (string, string option) btree \<Rightarrow> string list \<Rightarrow> string option" where
  "name_from_members me joined skip =
     (let people = people_of me joined skip
      in if people = [] then (if length joined \<le> 1 then Some ''Empty room'' else None)
         else Some (compose_name (map (\<lambda>user. person_name user joined) (take HERO_CAP people))
                      (word_of_nat (length people) + 1)))"

text \<open>
  In how many direct chats each user turns up beside the counterpart, and those who do so too often.
\<close>

definition count_bystanders ::
  "string \<Rightarrow> string list \<Rightarrow> string \<Rightarrow> string list \<Rightarrow> (string, nat) btree \<Rightarrow> (string, nat) btree" where
  "count_bystanders me partners partner ids seen =
     fold (\<lambda>i seen.
         if i = me \<or> i = partner \<or> i \<in> set partners then seen
         else bt_insert i ((case bt_get seen i of Some n \<Rightarrow> n | None \<Rightarrow> 0) + 1) seen) ids seen"

definition bridge_users :: "store \<Rightarrow> string \<Rightarrow> (string, string) btree \<Rightarrow> string list" where
  "bridge_users db me counterpart =
     (let partners = map snd counterpart;
          seen_in = fold (\<lambda>(room, partner). count_bystanders me partners partner (member_ids room db)) counterpart []
      in map fst (filter (\<lambda>(user, rooms). BRIDGE_UBIQUITY \<le> rooms) seen_in))"

section \<open>What a name says\<close>

text \<open>The names listed, and the words for the people left out.\<close>

definition and_others :: "nat \<Rightarrow> string" where
  "and_others n = (if n = 0 then [] else if n = 1 then '' and 1 other'' else '' and '' @ show_nat n @ '' others'')"

lemma unat_saturating_sub: "unat (saturating_sub a b) = unat a - unat b"
  by (auto simp: saturating_sub_def unat_sub word_le_nat_alt)

lemma compose_name_counts:
  assumes "length names < 2 ^ 32"
  shows "compose_name names members = join '', '' names @ and_others (unat members - 1 - length names)"
proof -
  let ?o = "saturating_sub (saturating_sub members 1) (word_of_nat (length names))"
  have "unat ?o = unat members - 1 - length names"
    using assms by (simp add: unat_saturating_sub unat_of_nat)
  moreover have "?o = 0 \<longleftrightarrow> unat ?o = 0" "?o = 1 \<longleftrightarrow> unat ?o = 1"
    by (auto simp: word_unat_eq_iff)
  ultimately show ?thesis by (simp add: compose_name_def and_others_def Let_def)
qed

lemma people_of_sound:
  "u \<in> set (people_of me joined skip) \<Longrightarrow> u \<in> fst ` set joined \<and> u \<noteq> me"
  by (auto simp: people_of_def Let_def split: if_splits)

lemma people_of_empty: "people_of me joined skip = [] \<longleftrightarrow> (\<forall>u \<in> fst ` set joined. u = me)"
  by (auto simp: people_of_def Let_def filter_empty_iff)

lemma distinct_people: "bt_ok joined \<Longrightarrow> distinct (people_of me joined skip)"
  by (auto simp: people_of_def Let_def dest: bt_ok_distinct)

lemma only_me:
  assumes "bt_ok joined" "\<forall>u \<in> fst ` set joined. u = me"
  shows "length joined \<le> 1"
proof -
  have "set (map fst joined) \<subseteq> {me}" using assms(2) by auto
  then have "card (set (map fst joined)) \<le> 1" using card_mono [of "{me}"] by simp
  with distinct_card [OF bt_ok_distinct [OF assms(1)]] show ?thesis by simp
qed

text \<open>
  Whom a room is named after, as a set: everybody but us, without the users of the bridge unless that
  leaves nobody.
\<close>

definition named_people :: "string \<Rightarrow> (string, string option) btree \<Rightarrow> string list \<Rightarrow> string set" where
  "named_people me joined skip =
     (let others = fst ` set joined - {me} in if others \<subseteq> set skip then others else others - set skip)"

text \<open>The list the code goes through is that set, each of them once and in the order of the ids.\<close>

lemma people_of_set: "set (people_of me joined skip) = named_people me joined skip"
proof -
  have "filter (\<lambda>u. u \<noteq> me \<and> u \<notin> set skip) (map fst joined) = [] \<longleftrightarrow> fst ` set joined - {me} \<subseteq> set skip"
    by (auto simp: filter_empty_conv)
  then show ?thesis by (auto simp: people_of_def named_people_def Let_def)
qed

lemma people_of_list: "bt_ok joined \<Longrightarrow> people_of me joined skip = sorted_list_of_set (named_people me joined skip)"
proof -
  assume ok: "bt_ok joined"
  then have "sorted (people_of me joined skip)"
    by (simp add: people_of_def Let_def strict_sorted_iff sorted_wrt_filter)
  with distinct_people [OF ok] show ?thesis
    using sorted_list_of_set.idem_if_sorted_distinct people_of_set by metis
qed

text \<open>
  C39: A room with a member list always gets a name. The people it is named after are all members but
  us, and of these all but the users of the bridge, unless nobody else is there. With no such person
  the name is "Empty room"; otherwise it lists the first five of them in the order of their ids, each
  by the display name the room knows or else by the local part of the id, and the words after them
  count exactly the people left out.
\<close>

theorem room_named_after_people:
  assumes "bt_ok joined" and "length joined < 2 ^ 32 - 1"
  shows "name_from_members me joined skip =
    (let others = fst ` set joined - {me};
         people = sorted_list_of_set (if others \<subseteq> set skip then others else others - set skip)
     in Some (if people = [] then ''Empty room''
              else join '', '' (map (\<lambda>u. person_name u joined) (take 5 people)) @ and_others (length people - 5)))"
proof -
  let ?people = "people_of me joined skip"
  have "length ?people \<le> length joined"
  proof -
    have "length (filter P (map fst joined)) \<le> length joined" for P
      using length_filter_le [of P "map fst joined"] by simp
    then show ?thesis by (simp add: people_of_def Let_def)
  qed
  with assms(2) have "length ?people + 1 < 2 ^ LENGTH(32)" by simp
  then have "unat (word_of_nat (length ?people + 1) :: 32 word) = length ?people + 1"
    unfolding unat_of_nat by (rule mod_less)
  then have count: "unat (word_of_nat (length ?people) + 1 :: 32 word) = length ?people + 1"
    by (simp only: of_nat_add of_nat_1)
  have "name_from_members me joined skip =
      Some (if ?people = [] then ''Empty room''
            else join '', '' (map (\<lambda>u. person_name u joined) (take HERO_CAP ?people))
                 @ and_others (length ?people - HERO_CAP))"
  proof (cases "?people = []")
    case True
    then have "length joined \<le> 1" using only_me [OF assms(1)] people_of_empty by blast
    with True show ?thesis by (simp add: name_from_members_def)
  next
    case False
    have "compose_name (map (\<lambda>u. person_name u joined) (take HERO_CAP ?people)) (word_of_nat (length ?people) + 1)
        = join '', '' (map (\<lambda>u. person_name u joined) (take HERO_CAP ?people))
          @ and_others (length ?people - HERO_CAP)"
      by (subst compose_name_counts) (simp_all only: count, simp_all add: HERO_CAP_def min_def)
    with False show ?thesis by (simp add: name_from_members_def Let_def)
  qed
  then show ?thesis
    unfolding people_of_list [OF assms(1)] named_people_def Let_def HERO_CAP_def .
qed

definition demo_members :: "(string, string option) btree" where
  "demo_members = [(''@bob:h'', None), (''@bot:h'', Some ''Bridge bot''), (''@me:h'', Some ''Me'')]"

theorem room_named_after_people_witness:
  "name_from_members ''@me:h'' demo_members [''@bot:h''] = Some ''bob''"
proof -
  have others: "fst ` set demo_members - {''@me:h''} = {''@bob:h'', ''@bot:h''}" by (auto simp: demo_members_def)
  have "bt_ok demo_members" "person_name ''@bob:h'' demo_members = ''bob''" by code_simp+
  moreover have "length demo_members < 2 ^ 32 - 1" by (simp add: demo_members_def)
  moreover have "{''@bob:h'', ''@bot:h''} - {''@bot:h''} = {''@bob:h''}" by auto
  ultimately show ?thesis
    using room_named_after_people [of demo_members "''@me:h''" "[''@bot:h'']"]
    unfolding others by (simp add: and_others_def)
qed

end
