(* ===== verification/Emoji.thy ===== *)
theory Emoji
  imports Rust_Text
begin

text \<open>
  The table of \<open>emoji.rs\<close>: the glyph and the English name of each of the 64 values of six bits that
  the two sides of a verification compare. The glyphs are given by their code points.
\<close>

definition EMOJI_CODES :: "(nat list \<times> string) list" where
  "EMOJI_CODES =
    [([0x1F436], ''Dog''), ([0x1F431], ''Cat''),
     ([0x1F981], ''Lion''), ([0x1F40E], ''Horse''),
     ([0x1F984], ''Unicorn''), ([0x1F437], ''Pig''),
     ([0x1F418], ''Elephant''), ([0x1F430], ''Rabbit''),
     ([0x1F43C], ''Panda''), ([0x1F413], ''Rooster''),
     ([0x1F427], ''Penguin''), ([0x1F422], ''Turtle''),
     ([0x1F41F], ''Fish''), ([0x1F419], ''Octopus''),
     ([0x1F98B], ''Butterfly''), ([0x1F337], ''Flower''),
     ([0x1F333], ''Tree''), ([0x1F335], ''Cactus''),
     ([0x1F344], ''Mushroom''), ([0x1F30F], ''Globe''),
     ([0x1F319], ''Moon''), ([0x2601, 0xFE0F], ''Cloud''),
     ([0x1F525], ''Fire''), ([0x1F34C], ''Banana''),
     ([0x1F34E], ''Apple''), ([0x1F353], ''Strawberry''),
     ([0x1F33D], ''Corn''), ([0x1F355], ''Pizza''),
     ([0x1F382], ''Cake''), ([0x2764, 0xFE0F], ''Heart''),
     ([0x1F600], ''Smiley''), ([0x1F916], ''Robot''),
     ([0x1F3A9], ''Hat''), ([0x1F453], ''Glasses''),
     ([0x1F527], ''Spanner''), ([0x1F385], ''Santa''),
     ([0x1F44D], ''Thumbs Up''), ([0x2602, 0xFE0F], ''Umbrella''),
     ([0x231B], ''Hourglass''), ([0x23F0], ''Clock''),
     ([0x1F381], ''Gift''), ([0x1F4A1], ''Light Bulb''),
     ([0x1F4D5], ''Book''), ([0x270F, 0xFE0F], ''Pencil''),
     ([0x1F4CE], ''Paperclip''), ([0x2702, 0xFE0F], ''Scissors''),
     ([0x1F512], ''Lock''), ([0x1F511], ''Key''),
     ([0x1F528], ''Hammer''), ([0x260E, 0xFE0F], ''Telephone''),
     ([0x1F3C1], ''Flag''), ([0x1F682], ''Train''),
     ([0x1F6B2], ''Bicycle''), ([0x2708, 0xFE0F], ''Aeroplane''),
     ([0x1F680], ''Rocket''), ([0x1F3C6], ''Trophy''),
     ([0x26BD], ''Ball''), ([0x1F3B8], ''Guitar''),
     ([0x1F3BA], ''Trumpet''), ([0x1F514], ''Bell''),
     ([0x2693], ''Anchor''), ([0x1F3A7], ''Headphones''),
     ([0x1F4C1], ''Folder''), ([0x1F4CC], ''Pin'')]"

definition SAS_EMOJI :: "(string \<times> string) list" where
  "SAS_EMOJI = map (\<lambda>(g, n). (utf8 g, n)) EMOJI_CODES"

text \<open>The lookup of the display: an index is reduced to the length of the table first.\<close>

definition emoji_at :: "nat \<Rightarrow> string \<times> string" where
  "emoji_at i = SAS_EMOJI ! (i mod 64)"

lemma length_SAS_EMOJI [simp]: "length SAS_EMOJI = 64"
  by (simp add: SAS_EMOJI_def EMOJI_CODES_def)

text \<open>No two of the entries are shown alike, by glyph or by name.\<close>

lemma distinct_glyphs: "distinct (map fst SAS_EMOJI)"
proof -
  have ok: "list_all (\<lambda>e. list_all scalar (fst e)) EMOJI_CODES" and "distinct (map fst EMOJI_CODES)"
    by (simp_all add: EMOJI_CODES_def scalar_def)
  moreover from ok have "inj_on utf8 (set (map fst EMOJI_CODES))"
    by (intro inj_onI utf8_inj) (auto simp: list_all_iff)
  ultimately have "distinct (map utf8 (map fst EMOJI_CODES))"
    by (simp only: distinct_map [of utf8] simp_thms)
  moreover have "map fst SAS_EMOJI = map utf8 (map fst EMOJI_CODES)"
    by (simp add: SAS_EMOJI_def case_prod_unfold)
  ultimately show ?thesis by simp
qed

lemma distinct_names: "distinct (map snd SAS_EMOJI)"
proof -
  have "map snd SAS_EMOJI = map snd EMOJI_CODES" by (simp add: SAS_EMOJI_def case_prod_unfold)
  moreover have "distinct (map snd EMOJI_CODES)" by (simp add: EMOJI_CODES_def)
  ultimately show ?thesis by simp
qed

lemma emoji_at_inj:
  assumes "i < 64" "j < 64" "fst (emoji_at i) = fst (emoji_at j) \<or> snd (emoji_at i) = snd (emoji_at j)"
  shows "i = j"
  using assms distinct_glyphs distinct_names nth_eq_iff_index_eq [of "map fst SAS_EMOJI" i j]
    nth_eq_iff_index_eq [of "map snd SAS_EMOJI" i j]
  by (auto simp: emoji_at_def)

end
