(* ===== verification/Shared.thy ===== *)
theory Shared
  imports Api Crypto_Share Verification Naming Emoji
begin

text \<open>
  The state the threads of the daemon share (\<open>Shared\<close> of \<open>main.rs\<close>, \<open>Bus\<close> of \<open>ipc.rs\<close>) and the
  ways its parts are used: a call over the network, a write to the store, an operation on the crypto
  state, an event for the subscribers. Each lock is held for one such step, so an operation of the
  daemon is a sequence of them.
\<close>

section \<open>What the daemon is built on\<close>

text \<open>
  The network, the cryptographic library with the cipher of the store and serde, the sockets of the
  clients (whether the last of the lines written to a connection goes through), and the random bytes
  of the token.
\<close>

record 'k daemon_lib =
  net :: net_lib
  vz :: "'k crypto_lib"
  sock_ok :: "nat \<Rightarrow> string list \<Rightarrow> bool"
  token_bytes :: "nat \<Rightarrow> string"

abbreviation cipher :: "'k daemon_lib \<Rightarrow> cipher_lib" where
  "cipher E \<equiv> db_cipher (vz E)"

abbreviation js :: "'k daemon_lib \<Rightarrow> json_lib" where
  "js E \<equiv> serde (vz E)"

section \<open>The event bus\<close>

text \<open>The subscribers with their handles, the next handle, and what was written to each connection.\<close>

record bus =
  bus_clients :: "(64 word \<times> nat) list"
  bus_next :: "64 word"
  bus_out :: "nat \<Rightarrow> string list"

definition bus_new :: bus where
  "bus_new = \<lparr>bus_clients = [], bus_next = 1, bus_out = (\<lambda>c. [])\<rparr>"

definition newline :: string where
  "newline = [CHR 0x0A]"

definition line_of :: "'k daemon_lib \<Rightarrow> json \<Rightarrow> string" where
  "line_of E v = json_print (js E) v @ newline"

definition write_line :: "'k daemon_lib \<Rightarrow> nat \<Rightarrow> string \<Rightarrow> bus \<Rightarrow> bool \<times> bus" where
  "write_line E c line b =
     (let written = bus_out b c @ [line]
      in if sock_ok E c written then (True, b\<lparr>bus_out := (bus_out b)(c := written)\<rparr>) else (False, b))"

definition bus_add :: "nat \<Rightarrow> bus \<Rightarrow> 64 word \<times> bus" where
  "bus_add c b = (bus_next b, b\<lparr>bus_clients := bus_clients b @ [(bus_next b, c)], bus_next := bus_next b + 1\<rparr>)"

definition bus_remove :: "64 word \<Rightarrow> bus \<Rightarrow> nat \<times> bus" where
  "bus_remove i b =
     (let left = filter (\<lambda>(held, c). held \<noteq> i) (bus_clients b)
      in (length left, b\<lparr>bus_clients := left\<rparr>))"

text \<open>\<open>retain_mut\<close>: one write after the other, in the order of the list.\<close>

fun write_all :: "'k daemon_lib \<Rightarrow> string \<Rightarrow> (64 word \<times> nat) list \<Rightarrow> bus \<Rightarrow> (64 word \<times> nat) list \<times> bus" where
  "write_all E line [] b = ([], b)"
| "write_all E line ((i, c) # cs) b =
     (let (ok, b1) = write_line E c line b; (kept, b2) = write_all E line cs b1
      in (if ok then (i, c) # kept else kept, b2))"

definition bus_publish :: "'k daemon_lib \<Rightarrow> json \<Rightarrow> bus \<Rightarrow> bus" where
  "bus_publish E ev b =
     (let (kept, b') = write_all E (line_of E ev) (bus_clients b) b in b'\<lparr>bus_clients := kept\<rparr>)"

section \<open>The shared state\<close>

text \<open>\<open>d_draws\<close> counts the draws from the random generator while there is no crypto state.\<close>

record 'k daemon =
  d_store :: store
  d_crypto :: "'k crypto option"
  d_api :: "api option"
  d_state :: state
  d_error :: "string option"
  d_session :: "session option"
  d_bus :: bus
  d_wake :: bool
  d_running :: bool
  d_token :: "string option"
  d_port :: "16 word option"
  d_world :: world
  d_draws :: nat

definition on_bus :: "(bus \<Rightarrow> bus) \<Rightarrow> 'k daemon \<Rightarrow> 'k daemon" where
  "on_bus f d = d\<lparr>d_bus := f (d_bus d)\<rparr>"

definition on_store :: "(store \<Rightarrow> store) \<Rightarrow> 'k daemon \<Rightarrow> 'k daemon" where
  "on_store f d = d\<lparr>d_store := f (d_store d)\<rparr>"

definition on_net :: "(world \<Rightarrow> 'a \<times> world) \<Rightarrow> 'k daemon \<Rightarrow> 'a \<times> 'k daemon" where
  "on_net f d = (let (r, w) = f (d_world d) in (r, d\<lparr>d_world := w\<rparr>))"

text \<open>A read of the store that may fail with an error that leaves the function.\<close>

definition read_store :: "(store \<Rightarrow> 'a result) \<Rightarrow> ('k daemon, 'a) action" where
  "read_store f d = (f (d_store d), d)"

text \<open>An operation on the crypto state together with the store, and one on the crypto state alone.\<close>

definition on_crypto :: "('k cs \<Rightarrow> 'a \<times> 'k cs) \<Rightarrow> 'k crypto \<Rightarrow> 'k daemon \<Rightarrow> 'a \<times> 'k daemon" where
  "on_crypto f c d = (let (r, c', s') = f (c, d_store d) in (r, d\<lparr>d_crypto := Some c', d_store := s'\<rparr>))"

definition with_crypto :: "('k cs \<Rightarrow> 'a result \<times> 'k cs) \<Rightarrow> ('k daemon, 'a) action" where
  "with_crypto f d = (case d_crypto d of None \<Rightarrow> (Inl (Msg ''no crypto state''), d) | Some c \<Rightarrow> on_crypto f c d)"

definition in_memory :: "('k crypto \<Rightarrow> 'a \<times> 'k crypto) \<Rightarrow> 'k cs \<Rightarrow> 'a \<times> 'k cs" where
  "in_memory f cs = (let (r, c) = f (fst cs) in (r, (c, snd cs)))"

definition total :: "('s \<Rightarrow> 'a \<times> 's) \<Rightarrow> ('s, 'a) action" where
  "total f s = (let (r, s') = f s in (Inr r, s'))"

definition not_logged_in :: error where
  "not_logged_in = Msg ''not logged in''"

definition publish :: "'k daemon_lib \<Rightarrow> json \<Rightarrow> 'k daemon \<Rightarrow> 'k daemon" where
  "publish E ev = on_bus (bus_publish E ev)"

definition set_state :: "'k daemon_lib \<Rightarrow> state \<Rightarrow> string option \<Rightarrow> 'k daemon \<Rightarrow> 'k daemon" where
  "set_state E s err d =
     publish E (obj ([(''event'', JStr ''state''), (''state'', JStr (state_as_str s))]
                     @ (case err of Some e \<Rightarrow> [(''error'', JStr e)] | None \<Rightarrow> [])))
       (d\<lparr>d_state := s, d_error := err\<rparr>)"

definition kick :: "'k daemon \<Rightarrow> 'k daemon" where
  "kick d = d\<lparr>d_wake := True\<rparr>"

definition shutdown :: "'k daemon \<Rightarrow> 'k daemon" where
  "shutdown d = kick (d\<lparr>d_running := False\<rparr>)"

text \<open>The wait ends at once after a kick, and else with the next kick or the time; either consumes it.\<close>

definition wait_for_kick :: "'k daemon \<Rightarrow> 'k daemon" where
  "wait_for_kick d = d\<lparr>d_wake := False\<rparr>"

definition publish_rooms :: "'k daemon_lib \<Rightarrow> room list \<Rightarrow> 'k daemon \<Rightarrow> 'k daemon" where
  "publish_rooms E rooms =
     publish E (obj [(''event'', JStr ''rooms''), (''rooms'', JArr (map room_to_json rooms))])"

definition publish_messages :: "'k daemon_lib \<Rightarrow> string \<Rightarrow> message list \<Rightarrow> 'k daemon \<Rightarrow> 'k daemon" where
  "publish_messages E room msgs =
     publish E (obj [(''event'', JStr ''messages''), (''messages'', JArr (map message_to_json msgs)),
                     (''room'', JStr room)])"

text \<open>A transaction id from the clock.\<close>

definition new_txn :: "'k daemon_lib \<Rightarrow> string \<Rightarrow> 'k daemon \<Rightarrow> string \<times> 'k daemon" where
  "new_txn E pre = on_net (\<lambda>w. let (t, w') = now_ms (net E) w in (pre @ show_nat (unat t), w'))"

section \<open>What the steps leave alone\<close>

lemma on_bus_simps [simp]:
  "d_store (on_bus f d) = d_store d" "d_crypto (on_bus f d) = d_crypto d" "d_api (on_bus f d) = d_api d"
  "d_session (on_bus f d) = d_session d" "d_state (on_bus f d) = d_state d" "d_error (on_bus f d) = d_error d"
  "d_running (on_bus f d) = d_running d" "d_world (on_bus f d) = d_world d" "d_wake (on_bus f d) = d_wake d"
  "d_token (on_bus f d) = d_token d" "d_port (on_bus f d) = d_port d" "d_draws (on_bus f d) = d_draws d"
  "d_bus (on_bus f d) = f (d_bus d)"
  by (simp_all add: on_bus_def)

lemma publish_simps [simp]:
  "d_store (publish E ev d) = d_store d" "d_crypto (publish E ev d) = d_crypto d" "d_api (publish E ev d) = d_api d"
  "d_session (publish E ev d) = d_session d" "d_state (publish E ev d) = d_state d" "d_error (publish E ev d) = d_error d"
  "d_running (publish E ev d) = d_running d" "d_world (publish E ev d) = d_world d"
  "d_token (publish E ev d) = d_token d" "d_port (publish E ev d) = d_port d" "d_draws (publish E ev d) = d_draws d"
  by (simp_all add: publish_def)

lemma set_state_simps [simp]:
  "d_store (set_state E s e d) = d_store d" "d_crypto (set_state E s e d) = d_crypto d" "d_api (set_state E s e d) = d_api d"
  "d_session (set_state E s e d) = d_session d" "d_state (set_state E s e d) = s" "d_error (set_state E s e d) = e"
  "d_running (set_state E s e d) = d_running d" "d_world (set_state E s e d) = d_world d"
  "d_token (set_state E s e d) = d_token d" "d_port (set_state E s e d) = d_port d" "d_draws (set_state E s e d) = d_draws d"
  by (simp_all add: set_state_def)

lemma on_store_simps [simp]:
  "d_store (on_store f d) = f (d_store d)" "d_crypto (on_store f d) = d_crypto d" "d_api (on_store f d) = d_api d"
  "d_session (on_store f d) = d_session d" "d_state (on_store f d) = d_state d" "d_error (on_store f d) = d_error d"
  "d_running (on_store f d) = d_running d" "d_world (on_store f d) = d_world d" "d_bus (on_store f d) = d_bus d"
  "d_token (on_store f d) = d_token d" "d_port (on_store f d) = d_port d"
  by (simp_all add: on_store_def)

end
