(* ===== verification/Timeline.thy ===== *)
theory Timeline
  imports Shared
begin

text \<open>
  What \<open>main.rs\<close> does with the events of a room: turning them into messages, recovering the ones
  that could not be decrypted from the key backup or from the server, putting names to senders, and
  paging older history in.
\<close>

definition BACKUP_RESTORE_WINDOW :: "32 word" where
  "BACKUP_RESTORE_WINDOW = 100"

definition REPAIR_EVENTS :: "32 word" where
  "REPAIR_EVENTS = 25"

definition SENDER_LOOKUPS :: nat where
  "SENDER_LOOKUPS = 8"

section \<open>Events to messages\<close>

text \<open>The event an edit names, and the text it puts in place: the new content's or the fallback's.\<close>

definition edit_target :: "event_content \<Rightarrow> string option" where
  "edit_target content =
     (case c_relates_to content of
        None \<Rightarrow> None
      | Some rel \<Rightarrow> if rel_type rel \<noteq> Some ''m.replace'' then None else rel_event_id rel)"

definition edited_text :: "event_content \<Rightarrow> string" where
  "edited_text content =
     (case Option.bind (c_new_content content) c_body of
        Some b \<Rightarrow> b
      | None \<Rightarrow>
         (case c_body content of
            Some b \<Rightarrow> (case strip_prefix ''* '' b of Some rest \<Rightarrow> rest | None \<Rightarrow> b)
          | None \<Rightarrow> []))"

definition record_if_edit :: "'k daemon_lib \<Rightarrow> 64 word \<Rightarrow> event_content \<Rightarrow> 'k daemon \<Rightarrow> bool \<times> 'k daemon" where
  "record_if_edit E ts content d =
     (case edit_target content of
        None \<Rightarrow> (False, d)
      | Some target \<Rightarrow>
         (let body = edited_text content
          in (True, if body = [] then d
                    else on_store (\<lambda>s. snd (record_edit (cipher E) target ts body s)) d)))"

text \<open>\<open>"[encrypted - no key for this message]"\<close> with a long dash.\<close>

definition placeholder_text :: string where
  "placeholder_text = ''[encrypted '' @ utf8 [0x2014] @ '' no key for this message]''"

definition message_from :: "string \<Rightarrow> room_event \<Rightarrow> session \<Rightarrow> string \<Rightarrow> bool \<Rightarrow> (string \<times> string) option \<Rightarrow> message" where
  "message_from room ev sess body encrypted locked =
     \<lparr>m_event_id = e_event_id ev, m_room = room, m_sender = e_sender ev, m_ts = e_ts ev,
      m_sender_name = None, m_body = body, m_encrypted = encrypted, m_decrypted = (locked = None),
      m_mine = (e_sender ev = user_id sess), m_session_id = map_option fst locked,
      m_ciphertext = map_option snd locked\<rparr>"

definition convert_plain :: "'k daemon_lib \<Rightarrow> string \<Rightarrow> room_event \<Rightarrow> session \<Rightarrow> 'k daemon \<Rightarrow> message option \<times> 'k daemon" where
  "convert_plain E room ev sess d =
     (let (edit, d') = record_if_edit E (e_ts ev) (e_content ev) d;
          body = (case c_body (e_content ev) of Some b \<Rightarrow> b | None \<Rightarrow> [])
      in (if edit \<or> body = [] then None else Some (message_from room ev sess body False None), d'))"

text \<open>The plaintext, when the session is there and the ciphertext authentic.\<close>

definition decrypt_event :: "'k daemon_lib \<Rightarrow> string \<Rightarrow> string \<Rightarrow> ('k daemon, string) action" where
  "decrypt_event E sid ct = with_crypto (in_memory (decrypt (vz E) sid ct))"

definition convert_encrypted ::
  "'k daemon_lib \<Rightarrow> string \<Rightarrow> room_event \<Rightarrow> session \<Rightarrow> string \<Rightarrow> string \<Rightarrow> 'k daemon \<Rightarrow> message option \<times> 'k daemon" where
  "convert_encrypted E room ev sess ct sid d =
     (case decrypt_event E sid ct d of
        (Inl e, d1) \<Rightarrow> (Some (message_from room ev sess placeholder_text True (Some (sid, ct))), d1)
      | (Inr text, d1) \<Rightarrow>
         (case from_str (js E) dec_decrypted_event text of
            Inl e \<Rightarrow> (Some (message_from room ev sess (''[malformed plaintext: '' @ e @ '']'') True (Some (sid, ct))), d1)
          | Inr content \<Rightarrow>
             (let (edit, d2) = record_if_edit E (e_ts ev) content d1;
                  body = (case c_body content of Some b \<Rightarrow> b | None \<Rightarrow> [])
              in (if edit \<or> body = [] then None else Some (message_from room ev sess body True None), d2))))"

definition convert_event :: "'k daemon_lib \<Rightarrow> string \<Rightarrow> room_event \<Rightarrow> session \<Rightarrow> 'k daemon \<Rightarrow> message option \<times> 'k daemon" where
  "convert_event E room ev sess d =
     (if e_kind ev = ''m.room.message'' then convert_plain E room ev sess d
      else if e_kind ev = ''m.room.encrypted'' then
        (case (c_ciphertext (e_content ev), c_session_id (e_content ev)) of
           (Some ct, Some sid) \<Rightarrow> convert_encrypted E room ev sess ct sid d
         | _ \<Rightarrow> (None, d))
      else (None, d))"

text \<open>A page of events converted one after the other, each result stored before the next is read.\<close>

fun store_page :: "'k daemon_lib \<Rightarrow> string \<Rightarrow> session \<Rightarrow> room_event list \<Rightarrow> 'k daemon \<Rightarrow> nat \<times> 'k daemon" where
  "store_page E room sess [] d = (0, d)"
| "store_page E room sess (ev # evs) d =
     (case convert_event E room ev sess d of
        (None, d') \<Rightarrow> store_page E room sess evs d'
      | (Some m, d') \<Rightarrow>
         (let (n, d'') = store_page E room sess evs (on_store (insert_message (cipher E) m) d') in (n + 1, d'')))"

section \<open>Recovering messages from the key backup\<close>

text \<open>The sessions of the pending messages, each once, in the order they first occur.\<close>

definition wanted_sessions :: "(string \<times> string \<times> string) list \<Rightarrow> string list" where
  "wanted_sessions pending =
     fold (\<lambda>(_, sid, _) wanted. if sid \<in> set wanted then wanted else wanted @ [sid]) pending []"

fun import_sessions ::
  "'k daemon_lib \<Rightarrow> api \<Rightarrow> string \<Rightarrow> string \<Rightarrow> string list \<Rightarrow> ('k daemon, nat) action" where
  "import_sessions E a version room [] d = (Inr 0, d)"
| "import_sessions E a version room (sid # sids) d =
     (case on_net (backup_session (net E) a version room sid) d of
        (Inr (Some entry), d1) \<Rightarrow>
          (case d_crypto d1 of
             None \<Rightarrow> (Inl (Msg ''no crypto state''), d1)
           | Some c \<Rightarrow>
              (case on_crypto (import_backup_session (vz E) room sid entry) c d1 of
                 (Inr True, d2) \<Rightarrow>
                   and_then (import_sessions E a version room sids) (\<lambda>n. succeed (n + 1)) d2
               | (_, d2) \<Rightarrow> import_sessions E a version room sids d2))
      | (_, d1) \<Rightarrow> import_sessions E a version room sids d1)"

definition plaintext_body :: "json \<Rightarrow> string" where
  "plaintext_body v =
     (case Option.bind (get ''content'' v) (get_str ''body'') of Some b \<Rightarrow> b | None \<Rightarrow> [])"

fun retry_messages :: "'k daemon_lib \<Rightarrow> (string \<times> string \<times> string) list \<Rightarrow> ('k daemon, nat) action" where
  "retry_messages E [] d = (Inr 0, d)"
| "retry_messages E ((event_id, sid, ct) # pending) d =
     (case d_crypto d of
        None \<Rightarrow> (Inl (Msg ''no crypto state''), d)
      | Some c \<Rightarrow>
         (case decrypt_event E sid ct d of
            (Inl e, d1) \<Rightarrow> retry_messages E pending d1
          | (Inr text, d1) \<Rightarrow>
             (case json_parse (js E) text of
                Inl e \<Rightarrow> retry_messages E pending d1
              | Inr v \<Rightarrow>
                 if plaintext_body v = [] then retry_messages E pending d1
                 else and_then (retry_messages E pending) (\<lambda>n. succeed (n + 1))
                        (on_store (upgrade_message (cipher E) event_id (plaintext_body v)) d1))))"

definition restore_room :: "'k daemon_lib \<Rightarrow> api \<Rightarrow> string \<Rightarrow> string \<Rightarrow> ('k daemon, nat) action" where
  "restore_room E a version room =
     and_then (read_store (undecrypted_in_room (cipher E) room BACKUP_RESTORE_WINDOW)) (\<lambda>pending.
       if pending = [] then succeed 0
       else and_then (import_sessions E a version room (wanted_sessions pending)) (\<lambda>imported.
         if imported = 0 then succeed 0 else retry_messages E pending))"

definition try_restore_room :: "'k daemon_lib \<Rightarrow> string \<Rightarrow> 'k daemon \<Rightarrow> 'k daemon" where
  "try_restore_room E room d =
     (case (d_crypto d, d_api d, get_meta (cipher E) ''backup_version'' (d_store d)) of
        (Some c, Some a, Inr (Some version)) \<Rightarrow>
          if has_backup_key c then snd (restore_room E a version room d) else d
      | _ \<Rightarrow> d)"

section \<open>Names of senders\<close>

definition unnamed_senders :: "message list \<Rightarrow> string list" where
  "unnamed_senders msgs =
     take SENDER_LOOKUPS
       (fold (\<lambda>m seen. if m_sender_name m = None \<and> m_sender m \<notin> set seen then seen @ [m_sender m] else seen) msgs [])"

fun lookup_profiles ::
  "'k daemon_lib \<Rightarrow> api \<Rightarrow> string list \<Rightarrow> (string, string option) btree \<Rightarrow> 'k daemon
     \<Rightarrow> (string, string option) btree \<times> 'k daemon" where
  "lookup_profiles E a [] found d = (found, d)"
| "lookup_profiles E a (user # users) found d =
     (case on_net (profile_name (net E) a user) d of
        (Inr (Some name), d') \<Rightarrow> lookup_profiles E a users (bt_insert user (Some name) found) d'
      | (_, d') \<Rightarrow> lookup_profiles E a users found d')"

definition name_visible_senders :: "'k daemon_lib \<Rightarrow> string \<Rightarrow> 'k daemon \<Rightarrow> 'k daemon" where
  "name_visible_senders E room d =
     (case (d_api d, recent_messages (cipher E) room BACKUP_RESTORE_WINDOW (d_store d)) of
        (Some a, Inr msgs) \<Rightarrow>
          (let (found, d') = lookup_profiles E a (unnamed_senders msgs) [] d
           in if found = [] then d' else on_store (remember_members (cipher E) room found) d')
      | _ \<Rightarrow> d)"

section \<open>Asking the server again\<close>

fun refetch_events :: "'k daemon_lib \<Rightarrow> api \<Rightarrow> session \<Rightarrow> string \<Rightarrow> string list \<Rightarrow> 'k daemon \<Rightarrow> nat \<times> 'k daemon" where
  "refetch_events E a sess room [] d = (0, d)"
| "refetch_events E a sess room (i # is) d =
     (case on_net (api_event (net E) a room i) d of
        (Inl e, d1) \<Rightarrow> refetch_events E a sess room is d1
      | (Inr ev, d1) \<Rightarrow>
         (let (n, d2) = store_page E room sess [ev] d1; (k, d3) = refetch_events E a sess room is d2
          in (n + k, d3)))"

definition refetch_placeholders :: "'k daemon_lib \<Rightarrow> string \<Rightarrow> ('k daemon, nat) action" where
  "refetch_placeholders E room d =
     (let wanted = placeholder_event_ids room REPAIR_EVENTS (d_store d)
      in if wanted = [] then (Inr 0, d)
         else (case (d_api d, d_session d) of
                 (Some a, Some sess) \<Rightarrow> total (refetch_events E a sess room wanted) d
               | _ \<Rightarrow> (Inl not_logged_in, d)))"

definition repair_room :: "'k daemon_lib \<Rightarrow> string \<Rightarrow> 'k daemon \<Rightarrow> 'k daemon" where
  "repair_room E room d =
     (case refetch_placeholders E room (name_visible_senders E room (try_restore_room E room d)) of
        (Inr n, d') \<Rightarrow> if n = 0 then d' else try_restore_room E room d'
      | (Inl e, d') \<Rightarrow> d')"

section \<open>Older history\<close>

definition do_load_older :: "'k daemon_lib \<Rightarrow> string \<Rightarrow> 32 word \<Rightarrow> ('k daemon, nat \<times> bool) action" where
  "do_load_older E room limit d =
     (case (d_api d, d_session d) of
        (Some a, Some sess) \<Rightarrow>
         (let (token, reached) = back_token room (d_store d) in
          if reached then (Inr (0, True), d)
          else (case on_net (api_messages (net E) a room token limit) d of
                  (Inl e, d1) \<Rightarrow> (Inl e, d1)
                | (Inr (chunk, next), d1) \<Rightarrow>
                   (let exhausted = (next = None \<or> chunk = []);
                        (stored, d2) = store_page E room sess chunk d1;
                        d3 = on_store (set_back_token room next exhausted) d2;
                        d4 = try_restore_room E room d3
                    in if stored = 0 then (Inr (stored, exhausted), d4)
                       else (case recent_messages (cipher E) room (max limit 50) (d_store d4) of
                               Inl e \<Rightarrow> (Inl e, d4)
                             | Inr msgs \<Rightarrow> (Inr (stored, exhausted), publish_messages E room msgs d4)))))
      | _ \<Rightarrow> (Inl not_logged_in, d))"

end
