(* ===== verification/Devices.thy ===== *)
theory Devices
  imports Shared
begin

text \<open>
  The daemon's side of a device verification and of secret sharing in \<open>main.rs\<close>: sending what the
  verification asks for, showing the emoji, asking the other devices for the backup key once they
  trust this one, and adopting the key that comes back.
\<close>

section \<open>Our other devices\<close>

text \<open>The query for the user's own devices.\<close>

definition own_devices :: "'k daemon_lib \<Rightarrow> api \<Rightarrow> session \<Rightarrow> ('k daemon, json) action" where
  "own_devices E a sess = on_net (keys_query (net E) a [user_id sess])"

text \<open>The same content for each of the listed devices but this one.\<close>

definition other_devices :: "session \<Rightarrow> json \<Rightarrow> json \<Rightarrow> (string, json) btree" where
  "other_devices sess devices content =
     (case Option.bind (Option.bind (get ''device_keys'' devices) (get (user_id sess))) as_object of
        None \<Rightarrow> []
      | Some l \<Rightarrow> bt_collect (map (\<lambda>i. (i, content)) (filter (\<lambda>i. i \<noteq> device_id sess) (map fst l))))"

text \<open>Sent with a transaction id of its own; a failure is only logged.\<close>

definition send_quietly :: "'k daemon_lib \<Rightarrow> api \<Rightarrow> string \<Rightarrow> string \<Rightarrow> json \<Rightarrow> 'k daemon \<Rightarrow> 'k daemon" where
  "send_quietly E a kind pre messages d =
     (let (txn, d') = new_txn E pre d
      in snd (on_net (send_to_device (net E) a kind txn messages) d'))"

definition send_to_others :: "'k daemon_lib \<Rightarrow> api \<Rightarrow> session \<Rightarrow> string \<Rightarrow> json \<Rightarrow> json \<Rightarrow> 'k daemon \<Rightarrow> 'k daemon" where
  "send_to_others E a sess pre devices content d =
     (let targets = other_devices sess devices content
      in if targets = [] then d
         else send_quietly E a ''m.secret.request'' pre (obj [(user_id sess, JObj targets)]) d)"

section \<open>Secret sharing\<close>

definition request_backup_secret :: "'k daemon_lib \<Rightarrow> api \<Rightarrow> session \<Rightarrow> 'k daemon \<Rightarrow> 'k daemon" where
  "request_backup_secret E a sess d =
     (if (case d_crypto d of Some c \<Rightarrow> has_backup_key c | None \<Rightarrow> False) then d
      else (case own_devices E a sess d of
              (Inl e, d1) \<Rightarrow> d1
            | (Inr devices, d1) \<Rightarrow>
               (case d_crypto d1 of
                  None \<Rightarrow> d1
                | Some c \<Rightarrow>
                   (let ((request_id, content), d2) =
                          on_crypto (in_memory (secret_request (vz E) (device_id sess) MEGOLM_BACKUP_SECRET)) c d1
                    in send_to_others E a sess ''kmxs'' devices content d2))))"

text \<open>The shared key is adopted, checked against the public key of the backup when that is known.\<close>

definition adopt_secret :: "'k daemon_lib \<Rightarrow> string \<Rightarrow> backup_info option \<Rightarrow> 'k crypto \<Rightarrow> ('k daemon, unit) action" where
  "adopt_secret E secret expected c d =
     (case on_crypto (set_backup_key_base64 (vz E) secret (map_option bi_public_key expected)) c d of
        (Inl e, d1) \<Rightarrow> (Inl e, d1)
      | (Inr _, d1) \<Rightarrow>
         (Inr (), case expected of
                    Some b \<Rightarrow> on_store (set_meta (cipher E) ''backup_version'' (bi_version b)) d1
                  | None \<Rightarrow> d1))"

definition handle_secret :: "'k daemon_lib \<Rightarrow> api \<Rightarrow> session \<Rightarrow> to_device_outcome \<Rightarrow> 'k daemon \<Rightarrow> 'k daemon" where
  "handle_secret E a sess outcome d =
     (if secret_name outcome \<noteq> MEGOLM_BACKUP_SECRET then d
      else
       (let (answered, d1) = on_net (backup_version (net E) a) d;
            expected = (case answered of Inr b \<Rightarrow> b | Inl e \<Rightarrow> None)
        in case d_crypto d1 of
             None \<Rightarrow> d1
           | Some c \<Rightarrow>
              (case adopt_secret E (secret_text outcome) expected c d1 of
                 (Inl e, d2) \<Rightarrow> d2
               | (Inr _, d2) \<Rightarrow>
                  (let d3 = publish E (obj [(''event'', JStr ''verification''), (''phase'', JStr ''secret''),
                                            (''name'', JStr (secret_name outcome))]) d2;
                       cancel = secret_cancellation (device_id sess) (secret_id outcome)
                   in case own_devices E a sess d3 of
                        (Inl e, d4) \<Rightarrow> d4
                      | (Inr devices, d4) \<Rightarrow> send_to_others E a sess ''kmxc'' devices cancel d4))))"

section \<open>Verification\<close>

fun send_steps :: "'k daemon_lib \<Rightarrow> api \<Rightarrow> session \<Rightarrow> (string \<times> string \<times> json) list \<Rightarrow> 'k daemon \<Rightarrow> 'k daemon" where
  "send_steps E a sess [] d = d"
| "send_steps E a sess ((kind, device, content) # rest) d =
     send_steps E a sess rest
       (send_quietly E a kind ''kmxv'' (obj [(user_id sess, obj [(device, content)])]) d)"

definition show_emoji :: "'k daemon_lib \<Rightarrow> string \<times> string \<times> nat list \<Rightarrow> 'k daemon \<Rightarrow> 'k daemon" where
  "show_emoji E shown =
     (case shown of (transaction, device, indices) \<Rightarrow>
        publish E (obj [(''event'', JStr ''verification''), (''phase'', JStr ''emoji''),
                        (''transaction'', JStr transaction), (''device'', JStr device),
                        (''emoji'', JArr (map (\<lambda>i. JArr [JStr (fst (emoji_at i)), JStr (snd (emoji_at i))]) indices))]))"

definition apply_verify_step :: "'k daemon_lib \<Rightarrow> api \<Rightarrow> session \<Rightarrow> verify_step \<Rightarrow> 'k daemon \<Rightarrow> 'k daemon" where
  "apply_verify_step E a sess step d =
     (let d1 = send_steps E a sess (vs_send step) d;
          d2 = (case vs_emoji step of Some shown \<Rightarrow> show_emoji E shown d1 | None \<Rightarrow> d1);
          d3 = (case vs_done step of
                  Some device \<Rightarrow>
                    request_backup_secret E a sess
                      (publish E (obj [(''event'', JStr ''verification''), (''phase'', JStr ''done''),
                                       (''device'', JStr device)]) d2)
                | None \<Rightarrow> d2)
      in case vs_cancelled step of
           Some reason \<Rightarrow>
             publish E (obj [(''event'', JStr ''verification''), (''phase'', JStr ''cancelled''),
                             (''reason'', JStr reason)]) d3
         | None \<Rightarrow> d3)"

text \<open>The first events of a verification fill the registry of device keys its MACs are checked with.\<close>

definition learn_own_devices :: "'k daemon_lib \<Rightarrow> api \<Rightarrow> session \<Rightarrow> 'k daemon \<Rightarrow> 'k daemon" where
  "learn_own_devices E a sess d =
     (case own_devices E a sess d of
        (Inl e, d1) \<Rightarrow> d1
      | (Inr devices, d1) \<Rightarrow>
         (case d_crypto d1 of
            None \<Rightarrow> d1
          | Some c \<Rightarrow> d1\<lparr>d_crypto := Some (remember_devices (parse_device_keys devices) c)\<rparr>))"

definition handle_verification_event ::
  "'k daemon_lib \<Rightarrow> api \<Rightarrow> session \<Rightarrow> to_device_event \<Rightarrow> ('k daemon, unit) action" where
  "handle_verification_event E a sess ev d =
     (let d1 = (if td_kind ev = ''m.key.verification.request'' \<or> td_kind ev = ''m.key.verification.start''
                then learn_own_devices E a sess d else d)
      in and_then (with_crypto (in_memory (total (handle_verification (vz E) (user_id sess) (device_id sess)
                     (td_sender ev) (td_kind ev) (td_content ev)))))
           (\<lambda>step d2. (Inr (), apply_verify_step E a sess step d2)) d1)"

definition do_verify_confirm :: "'k daemon_lib \<Rightarrow> string \<Rightarrow> bool \<Rightarrow> ('k daemon, unit) action" where
  "do_verify_confirm E transaction confirm d =
     (case (d_api d, d_session d) of
        (Some a, Some sess) \<Rightarrow>
          and_then (with_crypto (in_memory (total (confirm_verification (vz E) (user_id sess) (device_id sess)
                     transaction confirm))))
            (\<lambda>step d2. (Inr (), apply_verify_step E a sess step d2)) d
      | _ \<Rightarrow> (Inl not_logged_in, d))"

end
