(* ===== verification/Sync.thy ===== *)
theory Sync
  imports Timeline Devices
begin

text \<open>
  The sync loop of \<open>main.rs\<close>: one long-poll, the processing of its answer, the upload of one-time
  keys, the sweep that names rooms, and the loop around them with its backoff.
\<close>

definition SYNC_TIMEOUT_MS :: nat where
  "SYNC_TIMEOUT_MS = 30000"

definition OTK_TARGET :: "32 word" where
  "OTK_TARGET = 50"

definition NAME_BATCH :: nat where
  "NAME_BATCH = 25"

definition NAME_SCHEMA :: string where
  "NAME_SCHEMA = ''6''"

definition SMALL_ROOM :: nat where
  "SMALL_ROOM = 8"

section \<open>To-device events\<close>

definition receive_olm :: "'k daemon_lib \<Rightarrow> to_device_event list \<Rightarrow> 'k daemon \<Rightarrow> to_device_outcome list \<times> 'k daemon" where
  "receive_olm E events d =
     (case d_crypto d of None \<Rightarrow> ([], d) | Some c \<Rightarrow> on_crypto (handle_to_device (vz E) events) c d)"

definition receive_to_device :: "'k daemon_lib \<Rightarrow> api \<Rightarrow> session \<Rightarrow> to_device_event list \<Rightarrow> 'k daemon \<Rightarrow> 'k daemon" where
  "receive_to_device E a sess events d =
     (if events = [] then d
      else
       (let (verification, encrypted) = partition (\<lambda>e. starts_with (td_kind e) ''m.key.verification.'') events;
            (secrets, d1) = receive_olm E encrypted d;
            d2 = fold (handle_secret E a sess) secrets d1
        in fold (\<lambda>ev d. snd (handle_verification_event E a sess ev d)) verification d2))"

section \<open>One room of the answer\<close>

definition default_room :: "string \<Rightarrow> room" where
  "default_room i =
     \<lparr>r_id = i, r_name = i, r_encrypted = False, r_unread = 0, r_last_ts = 0, r_last_preview = []\<rparr>"

definition apply_state_event :: "room_event \<Rightarrow> room \<Rightarrow> room" where
  "apply_state_event ev r =
     (if e_kind ev = ''m.room.name'' then
        (case c_name (e_content ev) of
           Some n \<Rightarrow> if n \<noteq> [] then r\<lparr>r_name := n\<rparr> else r
         | None \<Rightarrow> r)
      else if e_kind ev = ''m.room.canonical_alias'' then
        (if r_name r = r_id r then
           (case c_alias (e_content ev) of Some al \<Rightarrow> r\<lparr>r_name := al\<rparr> | None \<Rightarrow> r)
         else r)
      else if e_kind ev = ''m.room.encryption'' then r\<lparr>r_encrypted := True\<rparr>
      else r)"

definition member_entries :: "joined_room \<Rightarrow> (string, string option) btree" where
  "member_entries jr =
     bt_collect (List.map_filter
       (\<lambda>ev. if e_kind ev = ''m.room.member''
             then map_option (\<lambda>user. (user, c_displayname (e_content ev))) (e_state_key ev) else None)
       (j_state jr @ tl_events (j_timeline jr)))"

text \<open>The messages of a timeline, with the room marked encrypted on the way.\<close>

fun convert_timeline ::
  "'k daemon_lib \<Rightarrow> string \<Rightarrow> session \<Rightarrow> room_event list \<Rightarrow> room \<Rightarrow> 'k daemon \<Rightarrow> (message list \<times> room) \<times> 'k daemon" where
  "convert_timeline E i sess [] r d = (([], r), d)"
| "convert_timeline E i sess (ev # evs) r d =
     (let (m, d1) = convert_event E i ev sess d;
          r1 = (if e_kind ev = ''m.room.encryption'' then r\<lparr>r_encrypted := True\<rparr> else r);
          ((ms, r2), d2) = convert_timeline E i sess evs r1 d1
      in (((case m of Some x \<Rightarrow> x # ms | None \<Rightarrow> ms), r2), d2))"

definition name_room :: "joined_room \<Rightarrow> room \<Rightarrow> room" where
  "name_room jr r =
     (if r_name r = r_id r
      then (case name_from_heroes jr of Some n \<Rightarrow> r\<lparr>r_name := n\<rparr> | None \<Rightarrow> r) else r)"

definition note_last :: "message list \<Rightarrow> room \<Rightarrow> room" where
  "note_last msgs r =
     (if msgs = [] then r
      else r\<lparr>r_last_ts := m_ts (last msgs), r_last_preview := preview (m_body (last msgs)) 64\<rparr>)"

definition store_room :: "'k daemon_lib \<Rightarrow> message list \<Rightarrow> room \<Rightarrow> string \<Rightarrow> string option \<Rightarrow> store \<Rightarrow> store" where
  "store_room E msgs r i prev s =
     (let s1 = fold (insert_message (cipher E)) msgs s;
          s2 = upsert_room (cipher E) r s1
      in case prev of Some token \<Rightarrow> snd (seed_back_token i token s2) | None \<Rightarrow> s2)"

definition sync_room ::
  "'k daemon_lib \<Rightarrow> session \<Rightarrow> string \<Rightarrow> joined_room \<Rightarrow> ('k daemon, room \<times> message list) action" where
  "sync_room E sess i jr =
     and_then (read_store (get_room (cipher E) i)) (\<lambda>known d.
       (let r = (case known of Some r \<Rightarrow> r | None \<Rightarrow> default_room i);
            r1 = fold apply_state_event (j_state jr) r;
            names = member_entries jr;
            d1 = (if names = [] then d else on_store (remember_members (cipher E) i names) d);
            r2 = (name_room jr r1)\<lparr>r_unread := j_notification_count jr\<rparr>;
            ((msgs, r3), d2) = convert_timeline E i sess (tl_events (j_timeline jr)) r2 d1;
            r4 = note_last msgs r3
        in (Inr (r4, msgs), on_store (store_room E msgs r4 i (tl_prev_batch (j_timeline jr))) d2)))"

fun sync_rooms ::
  "'k daemon_lib \<Rightarrow> session \<Rightarrow> (string \<times> joined_room) list \<Rightarrow> ('k daemon, (string \<times> room \<times> message list) list) action" where
  "sync_rooms E sess [] d = (Inr [], d)"
| "sync_rooms E sess ((i, jr) # rest) d =
     and_then (sync_room E sess i jr) (\<lambda>changed.
     and_then (sync_rooms E sess rest) (\<lambda>out. succeed ((i, changed) # out))) d"

section \<open>One-time keys\<close>

definition upload_body :: "'k daemon_lib \<Rightarrow> session \<Rightarrow> 32 word \<Rightarrow> bool \<Rightarrow> 'k crypto \<Rightarrow> 'k daemon \<Rightarrow> json option \<times> 'k daemon" where
  "upload_body E sess have_now published =
     on_crypto (in_memory (keys_upload_body (vz E) (user_id sess) (device_id sess) have_now (\<not> published)))"

definition mark_uploaded :: "'k daemon_lib \<Rightarrow> 'k daemon \<Rightarrow> 'k daemon" where
  "mark_uploaded E d =
     (let d1 = (case d_crypto d of
                  Some c \<Rightarrow> snd (on_crypto (\<lambda>cs. ((), mark_published (vz E) cs)) c d)
                | None \<Rightarrow> d)
      in on_store (set_meta (cipher E) ''device_keys_published'' ''1'') d1)"

definition maintain_otks :: "'k daemon_lib \<Rightarrow> api \<Rightarrow> session \<Rightarrow> 32 word \<Rightarrow> ('k daemon, unit) action" where
  "maintain_otks E a sess have_now =
     and_then (read_store (get_meta (cipher E) ''device_keys_published'')) (\<lambda>flag d.
       if OTK_TARGET \<le> have_now \<and> flag \<noteq> None then (Inr (), d)
       else (case d_crypto d of
               None \<Rightarrow> (Inr (), d)
             | Some c \<Rightarrow>
                (case upload_body E sess have_now (flag \<noteq> None) c d of
                   (None, d1) \<Rightarrow> (Inr (), d1)
                 | (Some body, d1) \<Rightarrow>
                    and_then (on_net (keys_upload (net E) a body)) (\<lambda>_ d2. (Inr (), mark_uploaded E d2)) d1)))"

section \<open>One batch\<close>

definition publish_batch :: "'k daemon_lib \<Rightarrow> (string \<times> room \<times> message list) list \<Rightarrow> ('k daemon, unit) action" where
  "publish_batch E changed d =
     (let d1 = fold (\<lambda>(i, r, msgs) d. if msgs = [] then d else publish_messages E i msgs d) changed d
      in if changed = [] then (Inr (), d1)
         else and_then (read_store (list_rooms (cipher E))) (\<lambda>rooms d. (Inr (), publish_rooms E rooms d)) d1)"

definition process_sync :: "'k daemon_lib \<Rightarrow> api \<Rightarrow> session \<Rightarrow> sync_response \<Rightarrow> ('k daemon, unit) action" where
  "process_sync E a sess resp d =
     and_then (sync_rooms E sess (sr_join resp)) (\<lambda>changed d1.
       (let d2 = on_store (set_meta (cipher E) ''sync_token'' (next_batch resp)) d1;
            d3 = snd (maintain_otks E a sess (sr_otk_count resp) d2)
        in publish_batch E changed d3))
       (receive_to_device E a sess (sr_to_device resp) d)"

text \<open>The long-poll; the clock skew it measures belongs to the client it was sent with.\<close>

definition poll :: "'k daemon_lib \<Rightarrow> api \<Rightarrow> string option \<Rightarrow> ('k daemon, sync_response) action" where
  "poll E a since d =
     (let ((r, a'), w) = api_sync (net E) since SYNC_TIMEOUT_MS a (d_world d)
      in (r, d\<lparr>d_world := w, d_api := (if d_api d = Some a then Some a' else d_api d)\<rparr>))"

text \<open>The answer to a poll, which may come long after the token was read; and both together.\<close>

definition sync_answer :: "'k daemon_lib \<Rightarrow> api \<Rightarrow> session \<Rightarrow> string option \<Rightarrow> ('k daemon, unit) action" where
  "sync_answer E a sess since =
     and_then (poll E a since) (\<lambda>resp d. process_sync E a sess resp (set_state E Syncing None d))"

definition sync_once :: "'k daemon_lib \<Rightarrow> api \<Rightarrow> session \<Rightarrow> ('k daemon, unit) action" where
  "sync_once E a sess =
     and_then (read_store (get_meta (cipher E) ''sync_token'')) (sync_answer E a sess)"

end
