(* ===== verification/Actions.thy ===== *)
theory Actions
  imports Sync
begin

text \<open>
  What a client can make the daemon do, in \<open>main.rs\<close>: log in and out, send a message, and enter the
  recovery key of the backup.
\<close>

definition BACKUP_ALGORITHM :: string where
  "BACKUP_ALGORITHM = ''m.megolm_backup.v1.curve25519-aes-sha2''"

definition BACKUP_EAGER_ROOMS :: nat where
  "BACKUP_EAGER_ROOMS = 3"

section \<open>Login and logout\<close>

text \<open>The draws of the random generator go on from where the last crypto state left them.\<close>

definition draws_so_far :: "'k daemon \<Rightarrow> nat" where
  "draws_so_far d = (case d_crypto d of Some c \<Rightarrow> k_draws c | None \<Rightarrow> d_draws d)"

definition start_crypto :: "'k daemon_lib \<Rightarrow> ('k daemon, unit) action" where
  "start_crypto E d =
     (let n = draws_so_far d in
      case load_or_create (vz E) n (d_store d) of
        (Inl e, s) \<Rightarrow> (Inl e, d\<lparr>d_store := s, d_draws := n + 2\<rparr>)
      | (Inr c, s) \<Rightarrow> (Inr (), d\<lparr>d_store := s, d_crypto := Some c\<rparr>))"

definition do_login :: "'k daemon_lib \<Rightarrow> string \<Rightarrow> string \<Rightarrow> string \<Rightarrow> ('k daemon, session) action" where
  "do_login E hs user password d =
     and_then (on_net (api_new (net E) hs)) (\<lambda>a.
     and_then (on_net (api_login (net E) user password a)) (\<lambda>(sess, a') d.
       (let d1 = on_store (save_session (cipher E) (js E) sess \<circ> clear) d;
            d2 = d1\<lparr>d_api := Some a'\<rparr>
        in and_then (start_crypto E) (\<lambda>_ d3.
             (Inr sess, kick (set_state E Syncing None (d3\<lparr>d_session := Some sess\<rparr>)))) d2)))
       (set_state E Connecting None d)"

definition do_logout :: "'k daemon_lib \<Rightarrow> 'k daemon \<Rightarrow> 'k daemon" where
  "do_logout E d =
     (let d1 = (case d_api d of Some a \<Rightarrow> snd (on_net (api_logout (net E) a) d) | None \<Rightarrow> d);
          d2 = d1\<lparr>d_api := None, d_crypto := None, d_draws := draws_so_far d1\<rparr>;
          d3 = on_store clear d2
      in set_state E LoggedOut None (d3\<lparr>d_session := None\<rparr>))"

section \<open>Sending\<close>

definition text_content :: "string \<Rightarrow> json" where
  "text_content body = obj [(''msgtype'', JStr ''m.text''), (''body'', JStr body)]"

definition room_encrypted :: "'k daemon_lib \<Rightarrow> string \<Rightarrow> store \<Rightarrow> bool result" where
  "room_encrypted E room s =
     bind_ok (list_rooms (cipher E) s) (\<lambda>rooms.
       Inr (case List.find (\<lambda>r. r_id r = room) rooms of Some r \<Rightarrow> r_encrypted r | None \<Rightarrow> False))"

text \<open>The devices of the members, remembered, and those among them without an Olm session.\<close>

definition learn_devices :: "'k daemon_lib \<Rightarrow> json \<Rightarrow> ('k daemon, device_info list \<times> device_info list) action" where
  "learn_devices E queried =
     with_crypto (in_memory (\<lambda>c.
       (let devices = parse_device_keys queried
        in (Inr (devices, devices_needing_session (vz E) devices c), remember_devices devices c))))"

definition open_olm :: "'k daemon_lib \<Rightarrow> api \<Rightarrow> device_info list \<Rightarrow> ('k daemon, unit) action" where
  "open_olm E a need =
     (if need = [] then succeed ()
      else and_then (on_net (keys_claim (net E) a (claim_body need))) (\<lambda>claim.
             with_crypto (\<lambda>cs. (Inr (), create_outbound_olm (vz E) claim need cs))))"

definition share_room_key :: "'k daemon_lib \<Rightarrow> api \<Rightarrow> session \<Rightarrow> string \<Rightarrow> ('k daemon, unit) action" where
  "share_room_key E a sess room =
     and_then (on_net (joined_members (net E) a room)) (\<lambda>members.
     and_then (on_net (keys_query (net E) a members)) (\<lambda>queried.
     and_then (learn_devices E queried) (\<lambda>(devices, need).
     and_then (open_olm E a need) (\<lambda>_.
     and_then (with_crypto (total (encrypt_room_key_to_devices (vz E) room devices (user_id sess) (device_id sess)))) (\<lambda>messages.
     and_then (total (new_txn E ''kmatrixkey'')) (\<lambda>txn.
       on_net (send_to_device (net E) a ''m.room.encrypted'' txn messages)))))))"

definition message_envelope :: "string \<Rightarrow> json \<Rightarrow> json" where
  "message_envelope room content =
     obj [(''type'', JStr ''m.room.message''), (''room_id'', JStr room), (''content'', content)]"

definition send_encrypted :: "'k daemon_lib \<Rightarrow> api \<Rightarrow> session \<Rightarrow> string \<Rightarrow> string \<Rightarrow> json \<Rightarrow> ('k daemon, string) action" where
  "send_encrypted E a sess room txn content d =
     (case d_crypto d of
        None \<Rightarrow> (Inl (Msg ''no crypto state''), d)
      | Some c \<Rightarrow>
          and_then (if has_outbound room c then succeed () else share_room_key E a sess room) (\<lambda>_.
          and_then (with_crypto (total (encrypt (vz E) room (message_envelope room content) (device_id sess)))) (\<lambda>enc.
            on_net (send_event (net E) a room ''m.room.encrypted'' txn enc))) d)"

definition do_send :: "'k daemon_lib \<Rightarrow> string \<Rightarrow> string \<Rightarrow> ('k daemon, string) action" where
  "do_send E room body d =
     (case (d_api d, d_session d) of
        (Some a, Some sess) \<Rightarrow>
          and_then (read_store (room_encrypted E room)) (\<lambda>encrypted.
          and_then (total (new_txn E ''kmatrix'')) (\<lambda>txn.
            if \<not> encrypted then on_net (send_event (net E) a room ''m.room.message'' txn (text_content body))
            else send_encrypted E a sess room txn (text_content body))) d
      | _ \<Rightarrow> (Inl not_logged_in, d))"

section \<open>The recovery key\<close>

definition usable_backup :: "backup_info option \<Rightarrow> backup_info result" where
  "usable_backup b =
     bind_ok (ok_or ''this account has no server-side key backup'' b) (\<lambda>info.
       if bi_algorithm info \<noteq> BACKUP_ALGORITHM
       then Inl (Msg (''unsupported key backup algorithm '' @ bi_algorithm info @ '' (expected '' @ BACKUP_ALGORITHM @ '')''))
       else Inr info)"

fun restore_rooms :: "'k daemon_lib \<Rightarrow> api \<Rightarrow> string \<Rightarrow> room list \<Rightarrow> ('k daemon, nat) action" where
  "restore_rooms E a version [] d = (Inr 0, d)"
| "restore_rooms E a version (r # rs) d =
     and_then (restore_room E a version (r_id r)) (\<lambda>n.
     and_then (restore_rooms E a version rs) (\<lambda>k. succeed (n + k))) d"

definition do_backup_key :: "'k daemon_lib \<Rightarrow> string \<Rightarrow> ('k daemon, nat) action" where
  "do_backup_key E key d =
     (case d_api d of
        None \<Rightarrow> (Inl not_logged_in, d)
      | Some a \<Rightarrow>
          and_then (on_net (backup_version (net E) a)) (\<lambda>found.
          and_then (from_result (usable_backup found)) (\<lambda>info.
          and_then (with_crypto (set_backup_key (vz E) key (bi_public_key info))) (\<lambda>_ d.
          and_then (read_store (list_rooms (cipher E))) (\<lambda>rooms.
            restore_rooms E a (bi_version info) (take BACKUP_EAGER_ROOMS rooms))
            (on_store (set_meta (cipher E) ''backup_version'' (bi_version info)) d)))) d)"

end
