(* ===== verification/Sweep.thy ===== *)
theory Sweep
  imports Sync
begin

text \<open>
  The naming sweep of \<open>main.rs\<close>, which walks the rooms in the order of their ids a batch at a time and
  keeps its place in the store, and the sync loop that runs it between two long-polls.
\<close>

section \<open>Which rooms are whose\<close>

text \<open>\<open>entry(room).or_insert(user)\<close>: the first user of \<open>m.direct\<close> that lists a room keeps it.\<close>

definition counterparts :: "(string, string list) btree \<Rightarrow> (string, string) btree" where
  "counterparts direct =
     fold (\<lambda>(user, rooms) cp. fold (\<lambda>room cp. if bt_get cp room = None then bt_insert room user cp else cp) rooms cp)
       direct []"

section \<open>The batch of a pass\<close>

text \<open>The place reached, when it was recorded under the current rules.\<close>

definition cursor_of :: "string option \<Rightarrow> string" where
  "cursor_of stored =
     (case Option.bind (Option.bind stored (strip_prefix NAME_SCHEMA)) (strip_prefix '':'') of
        Some i \<Rightarrow> i | None \<Rightarrow> [])"

definition rooms_after :: "string \<Rightarrow> room list \<Rightarrow> room list" where
  "rooms_after cursor rooms = sort_key r_id (filter (\<lambda>r. cursor < r_id r) rooms)"

definition next_batch_of_rooms :: "'k daemon_lib \<Rightarrow> store \<Rightarrow> (room list \<times> bool) result" where
  "next_batch_of_rooms E s =
     bind_ok (get_meta (cipher E) ''room_names_cursor'' s) (\<lambda>stored.
     bind_ok (list_rooms (cipher E) s) (\<lambda>rooms.
       (let rest = rooms_after (cursor_of stored) rooms
        in Inr (take NAME_BATCH rest, length rest \<le> NAME_BATCH))))"

section \<open>One room\<close>

definition worth_naming :: "(string, string) btree \<Rightarrow> room \<Rightarrow> store \<Rightarrow> bool" where
  "worth_naming counterpart r s \<longleftrightarrow>
     r_name r = r_id r \<or> bt_get counterpart (r_id r) \<noteq> None
     \<or> member_ids (r_id r) s = [] \<and> distinct_senders (r_id r) s \<le> SMALL_ROOM"

text \<open>The name the server has for the room, asked for only when the room already shows some name.\<close>

definition given_name :: "'k daemon_lib \<Rightarrow> api \<Rightarrow> room \<Rightarrow> ('k daemon, string option) action" where
  "given_name E a r d = (if r_name r = r_id r then (Inr None, d) else on_net (room_name (net E) a (r_id r)) d)"

definition wanted_name ::
  "string \<Rightarrow> string list \<Rightarrow> string option \<Rightarrow> string option \<Rightarrow> (string, string option) btree \<Rightarrow> string option" where
  "wanted_name me bridge given partner members =
     (case (given, partner) of
        (Some g, _) \<Rightarrow> Some g
      | (None, Some user) \<Rightarrow> Some (person_name user members)
      | (None, None) \<Rightarrow> name_from_members me members bridge)"

definition rename_room :: "'k daemon_lib \<Rightarrow> room \<Rightarrow> string option \<Rightarrow> ('k daemon, nat) action" where
  "rename_room E r wanted d =
     (case wanted of
        None \<Rightarrow> (Inr 0, d)
      | Some name \<Rightarrow>
          if r_name r = name then (Inr 0, d)
          else (case get_room (cipher E) (r_id r) (d_store d) of
                  Inl e \<Rightarrow> (Inl e, d)
                | Inr None \<Rightarrow> (Inr 0, d)
                | Inr (Some stored) \<Rightarrow> (Inr 1, on_store (upsert_room (cipher E) (stored\<lparr>r_name := name\<rparr>)) d)))"

text \<open>
  The rooms of a batch in order: how many were renamed, the last one dealt with, and whether the
  pass was cut short by a request that failed.
\<close>

fun name_pass ::
  "'k daemon_lib \<Rightarrow> api \<Rightarrow> string \<Rightarrow> (string, string) btree \<Rightarrow> string list \<Rightarrow> room list
     \<Rightarrow> nat \<Rightarrow> string option \<Rightarrow> ('k daemon, nat \<times> string option \<times> bool) action" where
  "name_pass E a me cp bridge [] n reached d = (Inr (n, reached, False), d)"
| "name_pass E a me cp bridge (r # rs) n reached d =
     (if \<not> worth_naming cp r (d_store d) then name_pass E a me cp bridge rs n (Some (r_id r)) d
      else (case given_name E a r d of
              (Inl e, d1) \<Rightarrow> (Inr (n, reached, True), d1)
            | (Inr given, d1) \<Rightarrow>
               (case on_net (member_names (net E) a (r_id r)) d1 of
                  (Inl e, d2) \<Rightarrow> (Inr (n, reached, True), d2)
                | (Inr members, d2) \<Rightarrow>
                   and_then (rename_room E r (wanted_name me bridge given (bt_get cp (r_id r)) members))
                     (\<lambda>k. name_pass E a me cp bridge rs (n + k) (Some (r_id r)))
                     (on_store (remember_members (cipher E) (r_id r) members) d2))))"

section \<open>One pass of the sweep\<close>

definition record_progress :: "'k daemon_lib \<Rightarrow> string option \<Rightarrow> bool \<Rightarrow> store \<Rightarrow> store" where
  "record_progress E reached finished s =
     (let s1 = (case reached of
                  Some i \<Rightarrow> set_meta (cipher E) ''room_names_cursor'' (NAME_SCHEMA @ '':'' @ i) s
                | None \<Rightarrow> s)
      in if finished then set_meta (cipher E) ''room_names_schema'' NAME_SCHEMA s1 else s1)"

definition backfill_room_names :: "'k daemon_lib \<Rightarrow> api \<Rightarrow> string \<Rightarrow> ('k daemon, nat \<times> bool) action" where
  "backfill_room_names E a me d =
     (case on_net (direct_rooms (net E) a me) d of
        (Inl e, d1) \<Rightarrow> (Inr (0, False), d1)
      | (Inr direct, d1) \<Rightarrow>
         (let counterpart = counterparts direct;
              bridge = bridge_users (d_store d1) me counterpart
          in and_then (read_store (next_batch_of_rooms E)) (\<lambda>(batch, all).
             and_then (name_pass E a me counterpart bridge batch 0 None) (\<lambda>(renamed, reached, offline) d2.
               (let finished = (all \<and> \<not> offline);
                    d3 = on_store (record_progress E reached finished) d2
                in if renamed = 0 then (Inr (renamed, finished), d3)
                   else and_then (read_store (list_rooms (cipher E)))
                          (\<lambda>rooms d4. (Inr (renamed, finished), publish_rooms E rooms d4)) d3))) d1))"

section \<open>The sync loop\<close>

text \<open>The local variables of the loop, and what a turn of it ended with.\<close>

record loop_state =
  lp_backoff :: "64 word"
  lp_names_done :: bool

datatype turn = Stopped | Idle "64 word" | Waited "64 word" | Polled

definition loop_start :: "'k daemon_lib \<Rightarrow> 'k daemon \<Rightarrow> loop_state" where
  "loop_start E d =
     \<lparr>lp_backoff = 1,
      lp_names_done = (get_meta (cipher E) ''room_names_schema'' (d_store d) = Inr (Some NAME_SCHEMA))\<rparr>"

definition sweep_turn :: "'k daemon_lib \<Rightarrow> api \<Rightarrow> session \<Rightarrow> loop_state \<Rightarrow> 'k daemon \<Rightarrow> loop_state \<times> 'k daemon" where
  "sweep_turn E a sess lp d =
     (if lp_names_done lp then (lp, d)
      else (case backfill_room_names E a (user_id sess) d of
              (Inr (n, finished), d') \<Rightarrow> (lp\<lparr>lp_names_done := finished\<rparr>, d')
            | (Inl e, d') \<Rightarrow> (lp\<lparr>lp_names_done := True\<rparr>, d')))"

text \<open>A turn up to the poll: nothing to poll with, or the client and the session it polls with.\<close>

definition begin_turn ::
  "'k daemon_lib \<Rightarrow> loop_state \<Rightarrow> 'k daemon \<Rightarrow> (turn + api \<times> session) \<times> loop_state \<times> 'k daemon" where
  "begin_turn E lp d =
     (if \<not> d_running d then (Inl Stopped, lp, d)
      else (case (d_api d, d_session d) of
         (Some a, Some sess) \<Rightarrow> (let (lp1, d1) = sweep_turn E a sess lp d in (Inr (a, sess), lp1, d1))
       | _ \<Rightarrow> (Inl (Idle 1000), lp, wait_for_kick d)))"

text \<open>What the loop does with the outcome of a sync.\<close>

definition settle_turn :: "'k daemon_lib \<Rightarrow> loop_state \<Rightarrow> unit result \<times> 'k daemon \<Rightarrow> turn \<times> loop_state \<times> 'k daemon" where
  "settle_turn E lp rd =
     (case rd of
        (Inr _, d) \<Rightarrow> (Polled, lp\<lparr>lp_backoff := 1\<rparr>, d)
      | (Inl e, d) \<Rightarrow>
          if \<not> d_running d then (Stopped, lp, d)
          else (Waited (lp_backoff lp * 1000), lp\<lparr>lp_backoff := min (lp_backoff lp * 2) 60\<rparr>,
                wait_for_kick (set_state E Offline (Some (show_error e)) d)))"

definition sync_turn :: "'k daemon_lib \<Rightarrow> loop_state \<Rightarrow> 'k daemon \<Rightarrow> turn \<times> loop_state \<times> 'k daemon" where
  "sync_turn E lp d =
     (case begin_turn E lp d of
        (Inl t, r) \<Rightarrow> (t, r)
      | (Inr (a, sess), lp1, d1) \<Rightarrow> settle_turn E lp1 (sync_once E a sess d1))"

text \<open>Turn after turn, with no other thread running in between.\<close>

fun sync_turns :: "'k daemon_lib \<Rightarrow> nat \<Rightarrow> loop_state \<Rightarrow> 'k daemon \<Rightarrow> turn list \<times> loop_state \<times> 'k daemon" where
  "sync_turns E 0 lp d = ([], lp, d)"
| "sync_turns E (Suc n) lp d =
     (let (t, lp1, d1) = sync_turn E lp d; (ts, r) = sync_turns E n lp1 d1 in (t # ts, r))"

end
