(* ===== verification/Ipc.thy ===== *)
theory Ipc
  imports Actions Sweep
begin

text \<open>
  The local interface of \<open>ipc.rs\<close>: one thread per connection reading a request per line and answering
  each, the token a connection has to show first, and the daemon stopping with its last subscriber.
  The threads together with the sync loop are a transition system over the shared state, in which a
  line, a hang-up and a turn of the sync loop are steps.
\<close>

section \<open>Answers\<close>

definition ok_reply :: "64 word \<Rightarrow> (string \<times> json) list \<Rightarrow> json" where
  "ok_reply i fields_of = obj ([(''id'', JU64 i), (''ok'', JBool True)] @ fields_of)"

definition err_text :: "64 word \<Rightarrow> string \<Rightarrow> json" where
  "err_text i e = obj [(''id'', JU64 i), (''ok'', JBool False), (''error'', JStr e)]"

definition err_reply :: "64 word \<Rightarrow> error \<Rightarrow> json" where
  "err_reply i e = err_text i (show_error e)"

text \<open>An answer made from a result.\<close>

definition answer_with :: "64 word \<Rightarrow> ('a \<Rightarrow> (string \<times> json) list) \<Rightarrow> 'a result \<times> 'k daemon \<Rightarrow> json \<times> 'k daemon" where
  "answer_with i f rd = (case rd of (Inr x, d) \<Rightarrow> (ok_reply i (f x), d) | (Inl e, d) \<Rightarrow> (err_reply i e, d))"

definition status_reply :: "64 word \<Rightarrow> 'k daemon \<Rightarrow> json" where
  "status_reply i d =
     ok_reply i
       ([(''state'', JStr (state_as_str (d_state d))),
         (''backup'', JBool (case d_crypto d of Some c \<Rightarrow> has_backup_key c | None \<Rightarrow> False)),
         (''clock_skew_ms'', JInt (case d_api d of Some a \<Rightarrow> api_skew a | None \<Rightarrow> 0))]
        @ (case d_session d of
             Some s \<Rightarrow> [(''user_id'', JStr (user_id s)), (''device_id'', JStr (device_id s)),
                        (''homeserver'', JStr (homeserver s))]
           | None \<Rightarrow> [])
        @ (case d_error d of Some e \<Rightarrow> [(''error'', JStr e)] | None \<Rightarrow> []))"

definition login_reply :: "'k daemon_lib \<Rightarrow> 64 word \<Rightarrow> string \<Rightarrow> string \<Rightarrow> string \<Rightarrow> 'k daemon \<Rightarrow> json \<times> 'k daemon" where
  "login_reply E i hs user password d =
     (case do_login E hs user password d of
        (Inr s, d1) \<Rightarrow> (ok_reply i [(''user_id'', JStr (user_id s)), (''device_id'', JStr (device_id s))], d1)
      | (Inl e, d1) \<Rightarrow> (err_reply i e, set_state E LoggedOut (Some (show_error e)) d1))"

definition mark_read :: "'k daemon_lib \<Rightarrow> string \<Rightarrow> string \<Rightarrow> ('k daemon, unit) action" where
  "mark_read E room event d =
     (case d_api d of
        Some a \<Rightarrow> on_net (read_receipt (net E) a room event) d
      | None \<Rightarrow> (Inl not_logged_in, d))"

definition dispatch :: "'k daemon_lib \<Rightarrow> 64 word \<Rightarrow> request \<Rightarrow> 'k daemon \<Rightarrow> json \<times> 'k daemon" where
  "dispatch E i cmd d =
     (case cmd of
        Hello token \<Rightarrow> (ok_reply i [(''version'', JStr CLIENT_VERSION)], d)
      | Status \<Rightarrow> (status_reply i d, d)
      | Login hs user password \<Rightarrow> login_reply E i hs user password d
      | Logout \<Rightarrow> (ok_reply i [], do_logout E d)
      | Rooms \<Rightarrow>
          answer_with i (\<lambda>rooms. [(''rooms'', JArr (map room_to_json rooms))])
            (read_store (list_rooms (cipher E)) d)
      | Messages room limit \<Rightarrow>
          answer_with i (\<lambda>msgs. [(''room'', JStr room), (''messages'', JArr (map message_to_json msgs))])
            (read_store (recent_messages (cipher E) room limit) (repair_room E room d))
      | Send room body \<Rightarrow> answer_with i (\<lambda>event. [(''event_id'', JStr event)]) (do_send E room body d)
      | MarkRead room event \<Rightarrow> answer_with i (\<lambda>_. []) (mark_read E room event d)
      | SyncNow \<Rightarrow> (ok_reply i [], kick d)
      | LoadOlder room limit \<Rightarrow>
          answer_with i (\<lambda>(added, exhausted). [(''added'', JInt (int added)), (''exhausted'', JBool exhausted)])
            (do_load_older E room limit d)
      | VerifyConfirm transaction confirm \<Rightarrow> answer_with i (\<lambda>_. []) (do_verify_confirm E transaction confirm d)
      | BackupKey key \<Rightarrow> answer_with i (\<lambda>n. [(''restored'', JInt (int n))]) (do_backup_key E key d)
      | Shutdown \<Rightarrow> (ok_reply i [(''__shutdown'', JBool True)], d))"

section \<open>One connection\<close>

text \<open>What a connection's thread knows; and whether it goes on after a line.\<close>

record conn =
  cn_authed :: bool
  cn_sub :: "64 word option"

definition new_conn :: conn where
  "new_conn = \<lparr>cn_authed = False, cn_sub = None\<rparr>"

datatype verdict = Continue | Close | CloseAndStop

definition reply :: "'k daemon_lib \<Rightarrow> nat \<Rightarrow> json \<Rightarrow> 'k daemon \<Rightarrow> bool \<times> 'k daemon" where
  "reply E c v d = (let (ok, b) = write_line E c (line_of E v) (d_bus d) in (ok, d\<lparr>d_bus := b\<rparr>))"

text \<open>An answer after which the thread goes on, unless it could not be written.\<close>

definition reply_and :: "'k daemon_lib \<Rightarrow> nat \<Rightarrow> json \<Rightarrow> verdict \<Rightarrow> conn \<Rightarrow> 'k daemon \<Rightarrow> verdict \<times> conn \<times> 'k daemon" where
  "reply_and E c v next cn d = (let (ok, d') = reply E c v d in (if ok then next else Close, cn, d'))"

text \<open>The id of a line that is not a request, so that its sender can match the answer.\<close>

definition recovered_id :: "'k daemon_lib \<Rightarrow> string \<Rightarrow> 64 word" where
  "recovered_id E line =
     (case json_parse (js E) line of
        Inr v \<Rightarrow> (case Option.bind (get ''id'' v) as_u64 of Some i \<Rightarrow> i | None \<Rightarrow> 0)
      | Inl e \<Rightarrow> 0)"

text \<open>The first request: the token lets the connection in and subscribes it.\<close>

definition greet :: "'k daemon_lib \<Rightarrow> nat \<Rightarrow> envelope \<Rightarrow> conn \<Rightarrow> 'k daemon \<Rightarrow> verdict \<times> conn \<times> 'k daemon" where
  "greet E c env cn d =
     (case env_cmd env of
        Hello token \<Rightarrow>
          if d_token d = Some token then
            (let (ok, d1) = reply E c (ok_reply (env_id env) [(''version'', JStr CLIENT_VERSION)]) d
             in if \<not> ok then (Close, cn\<lparr>cn_authed := True\<rparr>, d1)
                else (let (sub, b) = bus_add c (d_bus d1)
                      in (Continue, cn\<lparr>cn_authed := True, cn_sub := Some sub\<rparr>, d1\<lparr>d_bus := b\<rparr>)))
          else reply_and E c (err_text (env_id env) ''bad token'') Close cn d
      | _ \<Rightarrow> reply_and E c (err_text (env_id env) ''expected hello'') Close cn d)"

definition serve_request :: "'k daemon_lib \<Rightarrow> nat \<Rightarrow> envelope \<Rightarrow> conn \<Rightarrow> 'k daemon \<Rightarrow> verdict \<times> conn \<times> 'k daemon" where
  "serve_request E c env cn d =
     (let (resp, d1) = dispatch E (env_id env) (env_cmd env) d
      in reply_and E c resp (if get ''__shutdown'' resp \<noteq> None then CloseAndStop else Continue) cn d1)"

definition handle_line :: "'k daemon_lib \<Rightarrow> nat \<Rightarrow> string \<Rightarrow> conn \<Rightarrow> 'k daemon \<Rightarrow> verdict \<times> conn \<times> 'k daemon" where
  "handle_line E c line cn d =
     (if trim line = [] then (Continue, cn, d)
      else (case from_str (js E) dec_envelope line of
              Inl e \<Rightarrow> reply_and E c (err_text (recovered_id E line) (''bad request: '' @ e)) Continue cn d
            | Inr env \<Rightarrow> if cn_authed cn then serve_request E c env cn d else greet E c env cn d))"

section \<open>All of them\<close>

text \<open>
  The process: the shared state, the locals of the sync loop with the poll it is waiting for, the
  threads of the connections, and whether \<open>serve\<close> is still in its accept loop.
\<close>

record 'k process =
  p_daemon :: "'k daemon"
  p_loop :: loop_state
  p_poll :: "(api \<times> session \<times> string option) option"
  p_conns :: "nat \<Rightarrow> conn option"
  p_accepting :: bool

definition on_daemon :: "('k daemon \<Rightarrow> 'k daemon) \<Rightarrow> 'k process \<Rightarrow> 'k process" where
  "on_daemon f p = p\<lparr>p_daemon := f (p_daemon p)\<rparr>"

text \<open>One connection at the accept loop: a thread for it, or the end of the loop.\<close>

definition accept :: "nat \<Rightarrow> 'k process \<Rightarrow> 'k process" where
  "accept c p =
     (if \<not> p_accepting p then p
      else if \<not> d_running (p_daemon p) then p\<lparr>p_accepting := False\<rparr>
      else if p_conns p c = None then p\<lparr>p_conns := (p_conns p)(c \<mapsto> new_conn)\<rparr> else p)"

text \<open>The daemon's connection to itself ends the accept loop, which is blocked waiting for one.\<close>

definition stop_serving :: "'k process \<Rightarrow> 'k process" where
  "stop_serving p =
     (let p1 = on_daemon shutdown p
      in if d_port (p_daemon p1) \<noteq> None then p1\<lparr>p_accepting := False\<rparr> else p1)"

text \<open>The end of a connection's thread.\<close>

definition finish_client :: "nat \<Rightarrow> 'k process \<Rightarrow> 'k process" where
  "finish_client c p =
     (case p_conns p c of
        None \<Rightarrow> p
      | Some cn \<Rightarrow>
         (let p1 = p\<lparr>p_conns := (p_conns p)(c := None)\<rparr> in
          case cn_sub cn of
            None \<Rightarrow> p1
          | Some i \<Rightarrow>
             (let (left, b) = bus_remove i (d_bus (p_daemon p1)); p2 = on_daemon (\<lambda>d. d\<lparr>d_bus := b\<rparr>) p1
              in if left = 0 \<and> d_running (p_daemon p2) then stop_serving p2 else p2)))"

definition client_line :: "'k daemon_lib \<Rightarrow> nat \<Rightarrow> string \<Rightarrow> 'k process \<Rightarrow> 'k process" where
  "client_line E c line p =
     (case p_conns p c of
        None \<Rightarrow> p
      | Some cn \<Rightarrow>
         (let (v, cn', d) = handle_line E c line cn (p_daemon p);
              p1 = p\<lparr>p_daemon := d, p_conns := (p_conns p)(c \<mapsto> cn')\<rparr>
          in case v of
               Continue \<Rightarrow> p1
             | Close \<Rightarrow> finish_client c p1
             | CloseAndStop \<Rightarrow> finish_client c (stop_serving p1)))"

text \<open>
  A turn of the sync loop is two steps, since no lock is held while the server keeps a poll open:
  clients are served in between.
\<close>

definition end_turn :: "'k process \<Rightarrow> turn \<times> loop_state \<times> 'k daemon \<Rightarrow> 'k process" where
  "end_turn p r = (case r of (t, lp, d) \<Rightarrow> p\<lparr>p_daemon := d, p_loop := lp, p_poll := None\<rparr>)"

definition loop_turn :: "'k daemon_lib \<Rightarrow> 'k process \<Rightarrow> 'k process" where
  "loop_turn E p =
     (if p_poll p \<noteq> None then p
      else (case begin_turn E (p_loop p) (p_daemon p) of
              (Inl t, r) \<Rightarrow> end_turn p (t, r)
            | (Inr (a, sess), lp, d) \<Rightarrow>
               (case get_meta (cipher E) ''sync_token'' (d_store d) of
                  Inl e \<Rightarrow> end_turn p (settle_turn E lp (Inl e, d))
                | Inr since \<Rightarrow> p\<lparr>p_daemon := d, p_loop := lp, p_poll := Some (a, sess, since)\<rparr>)))"

definition poll_answered :: "'k daemon_lib \<Rightarrow> 'k process \<Rightarrow> 'k process" where
  "poll_answered E p =
     (case p_poll p of
        None \<Rightarrow> p
      | Some (a, sess, since) \<Rightarrow>
          end_turn p (settle_turn E (p_loop p) (sync_answer E a sess since (p_daemon p))))"

datatype event = Connected nat | Line nat string | HungUp nat | LoopTurn | PollAnswered

primrec step :: "'k daemon_lib \<Rightarrow> event \<Rightarrow> 'k process \<Rightarrow> 'k process" where
  "step E (Connected c) p = accept c p"
| "step E (Line c line) p = client_line E c line p"
| "step E (HungUp c) p = finish_client c p"
| "step E LoopTurn p = loop_turn E p"
| "step E PollAnswered p = poll_answered E p"

text \<open>Without anything in between, the two steps are one turn.\<close>

lemma uninterrupted_turn:
  assumes "p_poll p = None"
  shows "\<exists>t. sync_turn E (p_loop p) (p_daemon p) = (t, p_loop (poll_answered E (loop_turn E p)), p_daemon (poll_answered E (loop_turn E p)))"
  using assms
  by (auto simp: sync_turn_def loop_turn_def poll_answered_def end_turn_def sync_once_def read_store_def
        and_then_def split: prod.split sum.split)

inductive reaches :: "'k daemon_lib \<Rightarrow> 'k process \<Rightarrow> 'k process \<Rightarrow> bool" for E where
  here: "reaches E p p"
| onward: "reaches E p q \<Longrightarrow> reaches E p (step E ev q)"

lemma reaches_invariant:
  assumes "reaches E p q" "I p" "\<And>ev q. I q \<Longrightarrow> I (step E ev q)"
  shows "I q"
  using assms(1,2) by induction (auto intro: assms(3))

text \<open>The process as it starts to serve.\<close>

definition serving :: "'k daemon_lib \<Rightarrow> 'k daemon \<Rightarrow> 'k process" where
  "serving E d = \<lparr>p_daemon = d, p_loop = loop_start E d, p_poll = None, p_conns = (\<lambda>c. None), p_accepting = True\<rparr>"

end
