(* ===== verification/Startup.thy ===== *)
theory Startup
  imports Ipc Migration
begin

text \<open>
  How \<open>main.rs\<close> and \<open>ipc.rs\<close> start and end the daemon: the command line, the lock on the data
  directory, the key file of the store, opening the store, restoring a login, and the port file that
  tells the plugin where to connect.
\<close>

definition DEFAULT_KEY_DIR :: string where
  "DEFAULT_KEY_DIR = ''/var/local/kmatrix''"

section \<open>Files\<close>

text \<open>
  The files outside the database, with their permission bits, and the locked paths; \<open>fs_ops\<close> counts
  the operations. Whether the operating system refuses the n-th operation is a parameter.
\<close>

record files =
  fs_data :: "string \<Rightarrow> string option"
  fs_mode :: "string \<Rightarrow> nat"
  fs_locked :: "string set"
  fs_ops :: nat

record 'k os_lib =
  refuses :: "nat \<Rightarrow> string option"
  flock_error :: "nat \<Rightarrow> string option"
  key_bytes :: "nat \<Rightarrow> string"
  bind_port :: "nat \<Rightarrow> string + 16 word"
  umask_mode :: nat
  daemon_env :: "'k daemon_lib"

text \<open>One operation that the system may refuse; the context is the caller's.\<close>

definition fs_op :: "'k os_lib \<Rightarrow> string \<Rightarrow> (files \<Rightarrow> files) \<Rightarrow> (files, unit) action" where
  "fs_op S what f s =
     (let s1 = s\<lparr>fs_ops := fs_ops s + 1\<rparr>
      in case refuses S (fs_ops s) of Some e \<Rightarrow> (Inl (Context what (Msg e)), s1) | None \<Rightarrow> (Inr (), f s1))"

definition write_data :: "'k os_lib \<Rightarrow> string \<Rightarrow> string \<Rightarrow> files \<Rightarrow> files" where
  "write_data S path body s =
     s\<lparr>fs_data := (fs_data s)(path \<mapsto> body),
       fs_mode := (if fs_data s path = None then (fs_mode s)(path := umask_mode S) else fs_mode s)\<rparr>"

definition chmod :: "string \<Rightarrow> nat \<Rightarrow> files \<Rightarrow> files" where
  "chmod path mode s = s\<lparr>fs_mode := (fs_mode s)(path := mode)\<rparr>"

definition rename :: "string \<Rightarrow> string \<Rightarrow> files \<Rightarrow> files" where
  "rename old new s =
     s\<lparr>fs_data := (fs_data s)(new := fs_data s old, old := None), fs_mode := (fs_mode s)(new := fs_mode s old)\<rparr>"

definition delete :: "string \<Rightarrow> files \<Rightarrow> files" where
  "delete path s = s\<lparr>fs_data := (fs_data s)(path := None)\<rparr>"

text \<open>A private file put in place in one piece: written aside, made 0600, renamed.\<close>

definition install_private :: "'k os_lib \<Rightarrow> string \<Rightarrow> string \<Rightarrow> string \<Rightarrow> string \<times> string \<times> string \<Rightarrow> (files, unit) action" where
  "install_private S tmp path body what =
     (case what of (writing, modes, installing) \<Rightarrow>
       and_then (fs_op S writing (write_data S tmp body)) (\<lambda>_.
       and_then (fs_op S modes (chmod tmp 0x180)) (\<lambda>_.
         fs_op S installing (rename tmp path))))"

definition join_path :: "string \<Rightarrow> string \<Rightarrow> string" where
  "join_path dir name = (if dir = [] \<or> ends_with dir ''/'' then dir @ name else dir @ ''/'' @ name)"

section \<open>The command line\<close>

record options =
  o_data_dir :: "string option"
  o_key_dir :: "string option"
  o_reset_store :: bool

datatype parsed = ShowVersion | ShowHelp | RunWith options

definition no_options :: options where
  "no_options = \<lparr>o_data_dir = None, o_key_dir = None, o_reset_store = False\<rparr>"

text \<open>An option at the end of the line without its value takes the value away again.\<close>

fun parse_args :: "string list \<Rightarrow> options \<Rightarrow> parsed result" where
  "parse_args [] opts = Inr (RunWith opts)"
| "parse_args [a] opts =
     (if a = ''--data-dir'' then Inr (RunWith (opts\<lparr>o_data_dir := None\<rparr>))
      else if a = ''--key-dir'' then Inr (RunWith (opts\<lparr>o_key_dir := None\<rparr>))
      else if a = ''--no-encryption'' then Inr (RunWith (opts\<lparr>o_key_dir := Some []\<rparr>))
      else if a = ''--reset-store'' then Inr (RunWith (opts\<lparr>o_reset_store := True\<rparr>))
      else if a = ''--version'' then Inr ShowVersion
      else if a = ''--help'' \<or> a = ''-h'' then Inr ShowHelp
      else Inl (Msg (''unknown argument: '' @ a)))"
| "parse_args (a # v # rest) opts =
     (if a = ''--data-dir'' then parse_args rest (opts\<lparr>o_data_dir := Some v\<rparr>)
      else if a = ''--key-dir'' then parse_args rest (opts\<lparr>o_key_dir := Some v\<rparr>)
      else if a = ''--no-encryption'' then parse_args (v # rest) (opts\<lparr>o_key_dir := Some []\<rparr>)
      else if a = ''--reset-store'' then parse_args (v # rest) (opts\<lparr>o_reset_store := True\<rparr>)
      else if a = ''--version'' then Inr ShowVersion
      else if a = ''--help'' \<or> a = ''-h'' then Inr ShowHelp
      else Inl (Msg (''unknown argument: '' @ a)))"

section \<open>The instance lock and the store key\<close>

definition take_lock :: "'k os_lib \<Rightarrow> string \<Rightarrow> (files, unit) action" where
  "take_lock S dir =
     (let path = join_path dir ''kmatrix.lock'' in
      and_then (fs_op S (''opening '' @ path)
                  (\<lambda>s. if fs_data s path = None then write_data S path [] s else s)) (\<lambda>_ s.
        if path \<in> fs_locked s then (Inl (Msg (''another kmatrixd is already running on '' @ dir)), s)
        else (case flock_error S (fs_ops s) of
                Some e \<Rightarrow> (Inl (Context (''locking '' @ path) (Msg e)), s)
              | None \<Rightarrow> (Inr (), s\<lparr>fs_locked := insert path (fs_locked s)\<rparr>))))"

definition wrong_key_length :: "string \<Rightarrow> nat \<Rightarrow> error" where
  "wrong_key_length path n =
     Msg (''store key '' @ path @ '' is '' @ show_nat n @ '' bytes, expected 32 '' @ utf8 [0x2014]
          @ '' refusing to continue rather than risk making the database unreadable'')"

definition create_key :: "'k os_lib \<Rightarrow> string \<Rightarrow> (files, string option) action" where
  "create_key S dir =
     (let path = join_path dir ''store.key''; tmp = join_path dir ''store.key.tmp'' in
      and_then (fs_op S (''creating key dir '' @ dir) (\<lambda>s. s)) (\<lambda>_ s.
        (let key = key_bytes S (fs_ops s)
         in and_then (install_private S tmp path key
                        (''writing '' @ tmp, ''chmod '' @ tmp, ''installing '' @ path))
              (\<lambda>_. succeed (Some key)) s)))"

definition load_or_create_store_key :: "'k os_lib \<Rightarrow> string option \<Rightarrow> (files, string option) action" where
  "load_or_create_store_key S key_dir =
     (if key_dir = Some [] then succeed None
      else
       (let dir = (case key_dir of Some p \<Rightarrow> p | None \<Rightarrow> DEFAULT_KEY_DIR);
            path = join_path dir ''store.key''
        in and_then (fs_op S (''reading store key '' @ path) (\<lambda>s. s)) (\<lambda>_ s.
             case fs_data s path of
               Some key \<Rightarrow>
                 if length key = 32 then (Inr (Some key), s) else (Inl (wrong_key_length path (length key)), s)
             | None \<Rightarrow> create_key S dir s)))"

section \<open>The port file\<close>

definition hex_text :: "string \<Rightarrow> string" where
  "hex_text bytes = concat (map (\<lambda>b. hex2 (byte_val b)) bytes)"

definition random_token :: "'k daemon_lib \<Rightarrow> nat \<Rightarrow> string" where
  "random_token E n = hex_text (token_bytes E n)"

definition port_file_body :: "16 word \<Rightarrow> string \<Rightarrow> string" where
  "port_file_body port token = show_nat (unat port) @ newline @ token @ newline"

definition listen :: "'k os_lib \<Rightarrow> string \<Rightarrow> 'k daemon \<Rightarrow> (files, 'k daemon) action" where
  "listen S dir d s =
     (case bind_port S (fs_ops s) of
        Inl e \<Rightarrow> (Inl (Context ''binding 127.0.0.1'' (Msg e)), s)
      | Inr port \<Rightarrow>
         (let token = random_token (daemon_env S) (fs_ops s)
          in and_then (install_private S (join_path dir ''kmatrix.port.tmp'') (join_path dir ''kmatrix.port'')
                         (port_file_body port token)
                         (''writing port file'', ''chmod port file'', ''installing port file''))
               (\<lambda>_. succeed (d\<lparr>d_error := None,
                     d_token := (if d_token d = None then Some token else d_token d),
                     d_port := (if d_port d = None then Some port else d_port d)\<rparr>)) s))"

text \<open>\<open>lines().next()\<close> and the number on it.\<close>

definition file_port :: "string \<Rightarrow> int option" where
  "file_port body =
     (if body = [] then None
      else parse_int 0 65535 (trim (hd (split_on (\<lambda>c. [c] = newline) body))))"

definition remove_own_port_file :: "'k os_lib \<Rightarrow> 'k daemon \<Rightarrow> string \<Rightarrow> files \<Rightarrow> files" where
  "remove_own_port_file S d dir s =
     (let path = join_path dir ''kmatrix.port'' in
      case d_port d of
        None \<Rightarrow> s
      | Some port \<Rightarrow>
         (case fs_op S [] (\<lambda>s. s) s of
            (Inl e, s1) \<Rightarrow> s1
          | (Inr _, s1) \<Rightarrow>
             (case fs_data s1 path of
                None \<Rightarrow> s1
              | Some body \<Rightarrow>
                  if valid_utf8 body \<and> file_port body = Some (uint port)
                  then snd (fs_op S [] (delete path) s1) else s1)))"

section \<open>The run\<close>

text \<open>
  What the run works on: the files, and the database files by the path of the main one. Opening a
  path that holds no database creates an empty one.
\<close>

record machine =
  mc_files :: files
  mc_dbs :: "string \<Rightarrow> disk option"
  mc_salts :: nat

definition empty_disk :: disk where
  "empty_disk =
     \<lparr>d_db = empty_db,
      d_columns = (\<lambda>table. if table = ''message'' then [''session_id'', ''ciphertext'']
                      else if table = ''room'' then [''back_token'', ''back_done''] else [])\<rparr>"

definition on_files :: "(files \<Rightarrow> 'a \<times> files) \<Rightarrow> machine \<Rightarrow> 'a \<times> machine" where
  "on_files f mc = (let (r, s) = f (mc_files mc) in (r, mc\<lparr>mc_files := s\<rparr>))"

text \<open>\<open>--reset-store\<close> removes the database and its side files; one that is not there is no error.\<close>

fun reset_files :: "'k os_lib \<Rightarrow> string \<Rightarrow> string list \<Rightarrow> (machine, unit) action" where
  "reset_files S path [] mc = (Inr (), mc)"
| "reset_files S path (suf # sufs) mc =
     and_then (on_files (fs_op S (''removing '' @ path @ suf) (delete (path @ suf)))) (\<lambda>_ mc.
       reset_files S path sufs (if suf = [] then mc\<lparr>mc_dbs := (mc_dbs mc)(path := None)\<rparr> else mc)) mc"

definition open_database :: "'k os_lib \<Rightarrow> string \<Rightarrow> string option \<Rightarrow> (machine, store) action" where
  "open_database S path key mc =
     (let d = (case mc_dbs mc path of Some d \<Rightarrow> d | None \<Rightarrow> empty_disk);
          (r, d') = open_store (cipher (daemon_env S)) path key (mc_salts mc) d
      in (r, mc\<lparr>mc_dbs := (mc_dbs mc)(path \<mapsto> d')\<rparr>))"

definition key_hint :: "string \<Rightarrow> error \<Rightarrow> error" where
  "key_hint dir e =
     Msg (show_error e @ newline @ newline @
          ''If the store key was lost (a factory reset or a wiped /var/local will do it) the database '' @
          ''cannot be recovered. Start over with:'' @ newline @
          ''  kmatrixd --data-dir '' @ dir @ '' --reset-store'' @ newline @ ''You will need to log in again.'')"

definition open_session :: "'k os_lib \<Rightarrow> string \<Rightarrow> string option \<Rightarrow> (machine, store \<times> session option) action" where
  "open_session S dir key mc =
     (case and_then (open_database S (join_path dir ''kmatrix.sqlite3'') key) (\<lambda>s mc.
             (bind_ok (load_session (cipher (daemon_env S)) (js (daemon_env S)) s) (\<lambda>sess. Inr (s, sess)), mc)) mc of
        (Inl e, mc') \<Rightarrow> (Inl (key_hint dir e), mc')
      | (Inr r, mc') \<Rightarrow> (Inr r, mc'))"

definition fresh_daemon :: "store \<Rightarrow> session option \<Rightarrow> world \<Rightarrow> nat \<Rightarrow> 'k daemon" where
  "fresh_daemon s sess w draws =
     \<lparr>d_store = s, d_crypto = None, d_api = None, d_state = (if sess \<noteq> None then Connecting else LoggedOut),
      d_error = None, d_session = sess, d_bus = bus_new, d_wake = False, d_running = True, d_token = None,
      d_port = None, d_world = w, d_draws = draws\<rparr>"

text \<open>An existing login, as far as it can be restored: a failure is logged and leaves the rest.\<close>

definition restore_login :: "'k daemon_lib \<Rightarrow> 'k daemon \<Rightarrow> 'k daemon" where
  "restore_login E d =
     (case d_session d of
        None \<Rightarrow> d
      | Some sess \<Rightarrow>
         (case on_net (api_new (net E) (homeserver sess)) d of
            (Inl e, d1) \<Rightarrow> d1
          | (Inr a, d1) \<Rightarrow> snd (start_crypto E (d1\<lparr>d_api := Some (set_auth (access_token sess) a)\<rparr>))))"

text \<open>The run up to the accept loop.\<close>

definition start_daemon :: "'k os_lib \<Rightarrow> options \<Rightarrow> world \<Rightarrow> nat \<Rightarrow> (machine, 'k process) action" where
  "start_daemon S opts w draws =
     and_then (from_result (ok_or ''--data-dir is required'' (o_data_dir opts))) (\<lambda>dir.
     and_then (on_files (fs_op S (''creating data dir '' @ dir) (\<lambda>s. s))) (\<lambda>_.
     and_then (on_files (take_lock S dir)) (\<lambda>_.
     and_then (if o_reset_store opts
               then reset_files S (join_path dir ''kmatrix.sqlite3'') [[], ''-wal'', ''-shm''] else succeed ()) (\<lambda>_.
     and_then (on_files (load_or_create_store_key S (o_key_dir opts))) (\<lambda>key.
     and_then (open_session S dir key) (\<lambda>(s, sess) mc.
       (case on_files (listen S dir (restore_login (daemon_env S) (fresh_daemon s sess w draws))) mc of
          (Inl e, mc') \<Rightarrow> (Inl (Context ''starting IPC listener'' e), mc')
        | (Inr d, mc') \<Rightarrow> (Inr (serving (daemon_env S) d), mc'))))))))"

text \<open>What follows the accept loop.\<close>

definition end_daemon :: "'k os_lib \<Rightarrow> string \<Rightarrow> 'k process \<Rightarrow> files \<Rightarrow> files" where
  "end_daemon S dir p s =
     remove_own_port_file S (p_daemon (on_daemon shutdown p)) dir s"

end
