(* ===== verification/Store_Frame.thy ===== *)
theory Store_Frame
  imports Store_Laws
begin

text \<open>
  What one write leaves alone in the tables themselves, whatever the state of the store: the other
  entries of \<open>meta\<close>, the rows that exist, and the pagination edge of a room.
\<close>

definition room_ids :: "store \<Rightarrow> string set" where
  "room_ids s = rr_id ` set (t_room (s_db s))"

definition message_ids :: "store \<Rightarrow> string set" where
  "message_ids s = mr_event_id ` set (t_message (s_db s))"

abbreviation meta_of :: "store \<Rightarrow> string \<Rightarrow> string option" where
  "meta_of s k \<equiv> meta_row k (s_db s)"

lemma keys_upsert:
  assumes "\<And>r. key (f r) = key r"
  shows "key ` set (upsert key new f t) = insert (key new) (key ` set t)"
proof -
  have "set (map key (update_rows P f t)) = set (map key t)" for P
    by (simp only: map_key_update [where key = key and f = f, OF assms])
  then show ?thesis by (auto simp: upsert_def row_at_None)
qed

lemma keys_update:
  assumes "\<And>r. key (f r) = key r"
  shows "key ` set (update_rows P f t) = key ` set t"
proof -
  have "set (map key (update_rows P f t)) = set (map key t)"
    by (simp only: map_key_update [where key = key and f = f, OF assms])
  then show ?thesis by simp
qed

text \<open>Remembering members touches the member table alone.\<close>

lemma remember_frame [simp]:
  "meta_row k (s_db (remember_members L i names s)) = meta_row k (s_db s)"
  "t_room (s_db (remember_members L i names s)) = t_room (s_db s)"
  "t_message (s_db (remember_members L i names s)) = t_message (s_db s)"
proof -
  have one: "meta_row k (s_db (remember_member L i e s)) = meta_row k (s_db s)
      \<and> t_room (s_db (remember_member L i e s)) = t_room (s_db s)
      \<and> t_message (s_db (remember_member L i e s)) = t_message (s_db s)" for e s
    by (simp add: remember_member_def on_db_def case_prod_unfold Let_def split: option.split)
  have "meta_row k (s_db (fold (remember_member L i) names s)) = meta_row k (s_db s)
      \<and> t_room (s_db (fold (remember_member L i) names s)) = t_room (s_db s)
      \<and> t_message (s_db (fold (remember_member L i) names s)) = t_message (s_db s)"
    by (induction names arbitrary: s) (simp_all add: one)
  then show "meta_row k (s_db (remember_members L i names s)) = meta_row k (s_db s)"
    "t_room (s_db (remember_members L i names s)) = t_room (s_db s)"
    "t_message (s_db (remember_members L i names s)) = t_message (s_db s)"
    by (simp_all add: remember_members_def)
qed

lemmas write_ops =
  upsert_room_def seed_back_token_def set_back_token_def insert_message_def upgrade_message_def
  record_edit_def put_pickle_def on_db_def case_prod_unfold Let_def

lemma meta_of_run:
  assumes "w \<noteq> Clear" "\<And>v. w \<noteq> SetMeta k v"
  shows "meta_of (run_write L w s) k = meta_of s k"
proof (cases w)
  case (SetMeta k' v)
  then have "k' \<noteq> k" using assms(2) by auto
  then show ?thesis
    by (simp add: SetMeta set_meta_def on_db_def case_prod_unfold Let_def meta_row_put split: option.split)
qed (use assms in \<open>simp_all add: write_ops split: option.split\<close>)

lemma meta_of_set: "secret_meta_label k = None \<Longrightarrow> meta_of (set_meta L k v s) k = Some v"
  by (simp add: set_meta_def on_db_def meta_row_put)

lemma get_meta_public: "secret_meta_label k = None \<Longrightarrow> get_meta L k s = Inr (meta_of s k)"
  by (simp add: get_meta_def)

lemma room_ids_run:
  assumes "w \<noteq> Clear"
  shows "room_ids (run_write L w s) = (case w of UpsertRoom r \<Rightarrow> insert (r_id r) (room_ids s) | _ \<Rightarrow> room_ids s)"
proof (cases w)
  case (SetMeta k v)
  then show ?thesis by (simp add: room_ids_def set_meta_def on_db_def case_prod_unfold Let_def split: option.split)
qed (use assms in \<open>simp_all add: room_ids_def write_ops keys_upsert keys_update\<close>)

lemma message_ids_run:
  assumes "w \<noteq> Clear"
  shows "message_ids (run_write L w s) = (case w of InsertMessage m \<Rightarrow> insert (m_event_id m) (message_ids s) | _ \<Rightarrow> message_ids s)"
proof (cases w)
  case (SetMeta k v)
  then show ?thesis by (simp add: message_ids_def set_meta_def on_db_def case_prod_unfold Let_def split: option.split)
qed (use assms in \<open>simp_all add: message_ids_def write_ops keys_upsert keys_update\<close>)

text \<open>An absent room has the edge of a new one, so creating it changes nothing either.\<close>

lemma edge_run:
  assumes "w \<noteq> Clear" "\<And>t d. w \<noteq> SetBackToken i t d" "\<And>t. w \<noteq> SeedBackToken i t"
  shows "back_token i (run_write L w s) = back_token i s"
proof (cases w)
  case (SetMeta k v)
  then show ?thesis
    by (simp add: back_token_def set_meta_def on_db_def case_prod_unfold Let_def split: option.split)
next
  case (UpsertRoom r)
  then show ?thesis
    by (simp add: back_token_def write_ops row_at_upsert split: option.split)
next
  case (SeedBackToken j t)
  with assms(3) have "j \<noteq> i" by auto
  then show ?thesis
    by (simp add: SeedBackToken back_token_def write_ops row_at_update_key(2) split: option.split)
next
  case (SetBackToken j t d)
  with assms(2) have "j \<noteq> i" by auto
  then show ?thesis
    by (simp add: SetBackToken back_token_def write_ops row_at_update_key(1) split: option.split)
qed (use assms in \<open>simp_all add: back_token_def write_ops\<close>)

lemma edge_seeded:
  assumes "back_token i s = (Some t, d)"
  shows "back_token i (snd (seed_back_token i t' s)) = (Some t, d)"
  using assms
  by (auto simp: back_token_def write_ops row_at_update_key(2) split: option.split option.splits)

lemma edge_set:
  assumes "i \<in> room_ids s"
  shows "back_token i (set_back_token i t d s) = (t, d)"
proof -
  have "row_at rr_id i (t_room (s_db s)) \<noteq> None" using assms by (simp add: room_ids_def row_at_None)
  then show ?thesis
    by (auto simp: back_token_def write_ops row_at_update_key(1))
qed

end
