(* ===== verification/Footprint.thy ===== *)
theory Footprint
  imports Sweep Actions Store_Frame
begin

text \<open>
  Which writes to the store each operation of the daemon may make. \<open>wrote A s t\<close> says that \<open>t\<close> comes
  from \<open>s\<close> by writes that all satisfy \<open>A\<close>; it is shown once for every operation, with the smallest
  \<open>A\<close> that serves, and whatever those writes leave alone or keep true, the operation does.
\<close>

section \<open>Runs of writes\<close>

inductive wrote :: "cipher_lib \<Rightarrow> (store_write \<Rightarrow> bool) \<Rightarrow> store \<Rightarrow> store \<Rightarrow> bool" for L A where
  none: "wrote L A s s"
| more: "wrote L A s t \<Longrightarrow> A w \<Longrightarrow> wrote L A s (run_write L w t)"

named_theorems footprint \<open>an operation makes only these writes\<close>

lemma writes_mono: "wrote L A s t \<Longrightarrow> (\<And>w. A w \<Longrightarrow> B w) \<Longrightarrow> wrote L B s t"
  by (induction rule: wrote.induct) (auto intro: wrote.intros)

lemma writes_trans: "wrote L A s t \<Longrightarrow> wrote L A r s \<Longrightarrow> wrote L A r t"
  by (induction rule: wrote.induct) (auto intro: wrote.intros)

lemma writes_invariant:
  assumes "wrote L A s t" "I s" "\<And>w u. A w \<Longrightarrow> I u \<Longrightarrow> I (run_write L w u)"
  shows "I t"
  using assms(1,2) by induction (auto intro: assms(3))

lemma writes_run:
  assumes "wrote L A s t"
  shows "\<exists>ws. list_all A ws \<and> t = fold (run_write L) ws s"
  using assms
proof induction
  case (none s)
  then show ?case by (intro exI [of _ "[]"]) simp
next
  case (more s t w)
  then obtain ws where "list_all A ws" "t = fold (run_write L) ws s" by blast
  with more.hyps(2) show ?case by (intro exI [of _ "ws @ [w]"]) simp
qed

text \<open>One rule for each writing operation of the store.\<close>

lemma writes_ops [footprint]:
  "A (SetMeta k v) \<Longrightarrow> wrote L A s t \<Longrightarrow> wrote L A s (set_meta L k v t)"
  "A (UpsertRoom r) \<Longrightarrow> wrote L A s t \<Longrightarrow> wrote L A s (upsert_room L r t)"
  "A (SeedBackToken i tok) \<Longrightarrow> wrote L A s t \<Longrightarrow> wrote L A s (snd (seed_back_token i tok t))"
  "A (SetBackToken i next fin) \<Longrightarrow> wrote L A s t \<Longrightarrow> wrote L A s (set_back_token i next fin t)"
  "A (InsertMessage m) \<Longrightarrow> wrote L A s t \<Longrightarrow> wrote L A s (insert_message L m t)"
  "A (UpgradeMessage e b) \<Longrightarrow> wrote L A s t \<Longrightarrow> wrote L A s (upgrade_message L e b t)"
  "A (RecordEdit e ts b) \<Longrightarrow> wrote L A s t \<Longrightarrow> wrote L A s (snd (record_edit L e ts b t))"
  "A (RememberMembers i names) \<Longrightarrow> wrote L A s t \<Longrightarrow> wrote L A s (remember_members L i names t)"
  "A (PutPickle k i x p) \<Longrightarrow> wrote L A s t \<Longrightarrow> wrote L A s (put_pickle k i x p t)"
  using wrote.more [of L A s t "SetMeta k v"] wrote.more [of L A s t "UpsertRoom r"]
    wrote.more [of L A s t "SeedBackToken i tok"] wrote.more [of L A s t "SetBackToken i next fin"]
    wrote.more [of L A s t "InsertMessage m"] wrote.more [of L A s t "UpgradeMessage e b"]
    wrote.more [of L A s t "RecordEdit e ts b"] wrote.more [of L A s t "RememberMembers i names"]
    wrote.more [of L A s t "PutPickle k i x p"]
  by simp_all

section \<open>The crypto component\<close>

fun crypto_write :: "store_write \<Rightarrow> bool" where
  "crypto_write (PutPickle k i x p) \<longleftrightarrow> True"
| "crypto_write (SetMeta k v) \<longleftrightarrow> k = PICKLE_KEY_META \<or> k = BACKUP_KEY_META"
| "crypto_write _ \<longleftrightarrow> False"

text \<open>The state of the component after writes that started from \<open>s\<close>.\<close>

abbreviation cw :: "'k crypto_lib \<Rightarrow> store \<Rightarrow> 'k cs \<Rightarrow> bool" where
  "cw V s cs \<equiv> wrote (db_cipher V) crypto_write s (snd cs)"

lemma keeps_from_result [footprint]: "keeps P (from_result r)"
  by (rule keepsI) simp

lemma cw_put [footprint]: "cw V s cs \<Longrightarrow> cw V s (c, put_pickle k i x p (snd cs))"
  by (simp add: footprint)

lemma cw_save_session [footprint]: "cw V s cs \<Longrightarrow> cw V s (save_session_pickle V curve k cs)"
  by (simp add: save_session_pickle_def footprint)

lemma cw_persist [footprint]: "cw V s cs \<Longrightarrow> cw V s (persist_account V cs)"
  by (simp add: persist_account_def footprint)

lemma cw_add_inbound [footprint]: "cw V s cs \<Longrightarrow> cw V s (add_inbound V room k cs)"
  by (simp add: add_inbound_def footprint)

lemma cw_mark_published [footprint]: "cw V s cs \<Longrightarrow> cw V s (mark_published V cs)"
  by (simp add: mark_published_def footprint)

lemma cw_decrypt_existing [footprint]:
  "cw V s cs \<Longrightarrow> cw V s (snd (decrypt_with_existing V key m cs))"
  by (auto simp: decrypt_with_existing_def case_prod_unfold Let_def footprint split: option.split)

lemma cw_start_inbound [footprint]: "keeps (cw V s) (start_inbound V key m)"
  unfolding start_inbound_def
  by (rule keepsI)
     (auto simp: and_then_def from_result_def case_prod_unfold Let_def footprint
           split: olm_message.split sum.split)

lemma cw_olm_plaintext [footprint]: "keeps (cw V s) (olm_plaintext V key m)"
proof
  fix cs :: "'a cs" assume "cw V s cs"
  then have "cw V s (snd (decrypt_with_existing V key m cs))" by (rule footprint)
  then show "cw V s (snd (olm_plaintext V key m cs))"
    using keepsD [OF cw_start_inbound [of V s key m]]
    by (auto simp: olm_plaintext_def split: prod.splits option.splits)
qed

lemma cw_handle_plaintext [footprint]: "keeps (cw V s) (handle_olm_plaintext V key p)"
  by (rule keepsI)
     (auto simp: handle_olm_plaintext_def and_then_def from_result_def footprint split: prod.splits sum.splits if_splits)

lemma cw_handle_event [footprint]: "keeps (cw V s) (handle_olm_event V ev)"
proof
  fix cs :: "'a cs" assume cs: "cw V s cs"
  have inner: "keeps (cw V s) (and_then (from_result r) (\<lambda>key. and_then (from_result r') (\<lambda>m.
      and_then (olm_plaintext V key m) (handle_olm_plaintext V key))))" for r r'
    by (intro keeps_and_then footprint)
  show "cw V s (snd (handle_olm_event V ev cs))"
    using cs by (simp add: handle_olm_event_def Let_def keepsD [OF inner])
qed

lemma cw_handle_to_device [footprint]: "cw V s cs \<Longrightarrow> cw V s (snd (handle_to_device V events cs))"
proof (induction events arbitrary: cs)
  case (Cons event events)
  obtain r cs' where r: "handle_olm_event V event cs = (r, cs')" by (cases "handle_olm_event V event cs")
  have "cw V s cs'" using keepsD [OF cw_handle_event Cons.prems, of event] by (simp add: r)
  with Cons show ?case
    by (cases r) (simp_all add: r case_prod_unfold Let_def split: option.split)
qed simp

lemma cw_start_olm [footprint]: "keeps (cw V s) (start_olm_session V d otk)"
  unfolding start_olm_session_def
  by (rule keepsI)
     (auto simp: and_then_def from_result_def case_prod_unfold Let_def footprint split: sum.split)

lemma cw_create_outbound [footprint]: "cw V s cs \<Longrightarrow> cw V s (create_outbound_olm V claim ds cs)"
proof (induction ds arbitrary: cs)
  case (Cons d ds)
  have "cw V s (snd (start_olm_session V d key cs))" for key
    by (rule keepsD [OF cw_start_olm Cons.prems])
  with Cons show ?case by (simp split: option.split)
qed simp

lemma cw_olm_encrypt [footprint]: "keeps (cw V s) (olm_encrypt V curve p)"
  by (rule keepsI)
     (auto simp: olm_encrypt_def case_prod_unfold Let_def footprint split: option.splits list.splits sum.splits)

lemma cw_save_outbound [footprint]: "cw V s cs \<Longrightarrow> cw V s (save_outbound_pickle V room i k cs)"
  by (simp add: save_outbound_pickle_def footprint)

lemma cw_outbound [footprint]: "cw V s cs \<Longrightarrow> cw V s (snd (get_or_create_outbound V room cs))"
  using cw_add_inbound [OF cw_save_outbound]
  by (auto simp: get_or_create_outbound_def case_prod_unfold Let_def footprint split: option.splits)

lemma cw_share_key [footprint]: "cw V s cs \<Longrightarrow> cw V s (snd (share_key V content u dev ds msgs cs))"
proof (induction ds arbitrary: msgs cs)
  case (Cons d ds)
  have step: "olm_encrypt V curve p cs = (r, cs') \<Longrightarrow> cw V s cs'" for curve p r cs'
    using keepsD [OF cw_olm_encrypt Cons.prems, of curve p] by simp
  show ?case
    using Cons.prems by (auto simp: Let_def intro!: Cons.IH split: prod.split sum.split dest!: step)
qed simp

lemma cw_room_key [footprint]: "cw V s cs \<Longrightarrow> cw V s (snd (encrypt_room_key_to_devices V room ds u dev cs))"
  by (simp add: encrypt_room_key_to_devices_def case_prod_unfold Let_def footprint)

lemma cw_encrypt [footprint]: "cw V s cs \<Longrightarrow> cw V s (snd (encrypt V room p dev cs))"
  by (simp add: encrypt_def case_prod_unfold Let_def footprint)

lemma cw_store_backup [footprint]: "cw V s cs \<Longrightarrow> cw V s (store_backup_key V raw cs)"
  by (simp add: store_backup_key_def footprint)

lemma cw_set_backup [footprint]:
  "keeps (cw V s) (set_backup_key V key expected)" "keeps (cw V s) (set_backup_key_base64 V secret expd)"
  by (rule keepsI; auto simp: set_backup_key_def set_backup_key_base64_def Let_def footprint
        split: sum.splits option.splits)+

lemma cw_import [footprint]: "keeps (cw V s) (import_backup_session V room sid entry)"
  by (rule keepsI)
     (auto simp: import_backup_session_def and_then_def from_result_def Let_def footprint
        split: option.splits sum.splits prod.splits)

end
