(* ===== verification/Footprint_Daemon.thy ===== *)
theory Footprint_Daemon
  imports Footprint
begin

text \<open>
  The writes of the daemon's operations: recovering and paging messages, verification and secrets,
  sending, the rooms of a batch and the naming sweep. The sync token is written by the end of a batch
  alone, the pagination edge by paging alone, and nothing but login and logout clears a table.
\<close>

section \<open>Kinds of writes\<close>

fun message_write :: "store_write \<Rightarrow> bool" where
  "message_write (InsertMessage m) \<longleftrightarrow> True"
| "message_write (UpgradeMessage e b) \<longleftrightarrow> True"
| "message_write (RecordEdit e ts b) \<longleftrightarrow> True"
| "message_write (RememberMembers i names) \<longleftrightarrow> True"
| "message_write (SetMeta k v) \<longleftrightarrow> k = PICKLE_KEY_META \<or> k = BACKUP_KEY_META \<or> k = ''backup_version''"
| "message_write (PutPickle k i x p) \<longleftrightarrow> True"
| "message_write _ \<longleftrightarrow> False"

fun sync_write :: "store_write \<Rightarrow> bool" where
  "sync_write (UpsertRoom r) \<longleftrightarrow> True"
| "sync_write (SeedBackToken i t) \<longleftrightarrow> True"
| "sync_write (SetMeta k v) \<longleftrightarrow> message_write (SetMeta k v) \<or> k = ''device_keys_published''"
| "sync_write w \<longleftrightarrow> message_write w"

fun sweep_write :: "store_write \<Rightarrow> bool" where
  "sweep_write (UpsertRoom r) \<longleftrightarrow> True"
| "sweep_write (RememberMembers i names) \<longleftrightarrow> True"
| "sweep_write (SetMeta k v) \<longleftrightarrow> k = ''room_names_cursor'' \<or> k = ''room_names_schema''"
| "sweep_write _ \<longleftrightarrow> False"

lemma crypto_is_message [simp]: "crypto_write w \<Longrightarrow> message_write w"
  by (cases w rule: crypto_write.cases) auto

lemma message_is_sync [simp]: "message_write w \<Longrightarrow> sync_write w"
  by (cases w rule: message_write.cases) auto

lemma crypto_is_sync: "crypto_write w \<Longrightarrow> sync_write w"
  by simp

section \<open>The steps of an operation\<close>

abbreviation dw :: "'k daemon_lib \<Rightarrow> (store_write \<Rightarrow> bool) \<Rightarrow> store \<Rightarrow> 'k daemon \<Rightarrow> bool" where
  "dw E A s d \<equiv> wrote (cipher E) A s (d_store d)"

lemma store_on_net [simp]:
  "d_store (snd (on_net f d)) = d_store d" "d_store (snd (new_txn E t d)) = d_store d"
  "d_store (snd (read_store g d)) = d_store d"
  by (simp_all add: on_net_def new_txn_def read_store_def case_prod_unfold Let_def)

lemma dw_net [footprint]: "keeps (dw E A s) (on_net f)" "keeps (dw E A s) (read_store g)"
  by (rule keepsI; simp)+

lemma dw_on_crypto [footprint]:
  assumes f: "\<And>r cs. cw (vz E) r cs \<Longrightarrow> cw (vz E) r (snd (f cs))" and A: "\<And>w. crypto_write w \<Longrightarrow> A w"
    and d: "dw E A s d"
  shows "dw E A s (snd (on_crypto f c d))"
proof -
  have "cw (vz E) (d_store d) (snd (f (c, d_store d)))" by (rule f) (simp add: wrote.none)
  then have "wrote (cipher E) A (d_store d) (snd (snd (f (c, d_store d))))" by (rule writes_mono) (rule A)
  then show ?thesis
    using writes_trans [OF _ d] by (simp add: on_crypto_def case_prod_unfold Let_def)
qed

lemma dw_with_crypto:
  assumes "\<And>r. keeps (cw (vz E) r) f" and "\<And>w. crypto_write w \<Longrightarrow> A w"
  shows "keeps (dw E A s) (with_crypto f)"
proof
  fix d :: "'a daemon" assume d: "dw E A s d"
  have "dw E A s (snd (on_crypto f c d))" for c
    by (rule dw_on_crypto [OF keepsD [OF assms(1)] assms(2) d])
  with d show "dw E A s (snd (with_crypto f d))" by (simp add: with_crypto_def split: option.split)
qed

lemma cw_in_memory [footprint]: "cw V s cs \<Longrightarrow> cw V s (snd (in_memory f cs))"
  by (simp add: in_memory_def case_prod_unfold Let_def)

lemma keeps_in_memory [footprint]: "keeps (cw V s) (in_memory f)"
  by (rule keepsI) (rule cw_in_memory)

lemma keeps_total: "(\<And>s. P s \<Longrightarrow> P (snd (f s))) \<Longrightarrow> keeps P (total f)"
  by (rule keepsI) (simp add: total_def case_prod_unfold Let_def)

lemma dw_publish [footprint]:
  "dw E A s d \<Longrightarrow> dw E A s (publish F ev d)" "dw E A s d \<Longrightarrow> dw E A s (set_state F st e d)"
  "dw E A s d \<Longrightarrow> dw E A s (publish_rooms F rooms d)" "dw E A s d \<Longrightarrow> dw E A s (publish_messages F i msgs d)"
  by (simp_all add: publish_rooms_def publish_messages_def)

section \<open>Messages\<close>

lemma dw_record_if_edit [footprint]:
  "dw E message_write s d \<Longrightarrow> dw E message_write s (snd (record_if_edit E ts content d))"
  by (simp add: record_if_edit_def Let_def footprint split: option.split)

lemma dw_decrypt [footprint]: "keeps (dw E message_write s) (decrypt_event E sid ct)"
  unfolding decrypt_event_def by (intro dw_with_crypto footprint) simp

lemma dw_convert [footprint]:
  assumes "dw E message_write s d"
  shows "dw E message_write s (snd (convert_event E room ev sess d))"
proof -
  have "dw E message_write s (snd (decrypt_event E sid ct d))" for sid ct
    by (rule keepsD [OF dw_decrypt assms])
  then have "dw E message_write s (snd (convert_encrypted E room ev sess ct sid d))" for sid ct
    by (simp add: convert_encrypted_def case_prod_unfold Let_def footprint split: sum.split)
  with assms show ?thesis
    by (simp add: convert_event_def convert_plain_def case_prod_unfold Let_def footprint split: option.split)
qed

lemma dw_store_page [footprint]:
  "dw E message_write s d \<Longrightarrow> dw E message_write s (snd (store_page E room sess evs d))"
proof (induction evs arbitrary: d)
  case (Cons ev evs)
  obtain m d' where r: "convert_event E room ev sess d = (m, d')" by force
  have "dw E message_write s d'" using dw_convert [OF Cons.prems, of room ev sess] by (simp add: r)
  then show ?case
    by (cases m) (auto simp: r case_prod_unfold Let_def intro!: Cons.IH footprint)
qed simp

lemma dw_import [footprint]: "keeps (dw E message_write s) (import_sessions E a ver room sids)"
proof (induction sids)
  case (Cons sid sids)
  have imp: "dw E message_write s (snd (on_crypto (import_backup_session (vz E) room sid entry) c d))"
    if "dw E message_write s d" for entry c d
    by (rule dw_on_crypto) (use that keepsD [OF cw_import] in auto)
  have rest: "dw E message_write s d \<Longrightarrow> dw E message_write s (snd (import_sessions E a ver room sids d))" for d
    by (rule keepsD [OF Cons.IH])
  have again: "dw E message_write s d \<Longrightarrow>
      dw E message_write s (snd (and_then (import_sessions E a ver room sids) (\<lambda>n. succeed (Suc n)) d))" for d
    by (rule keepsD [OF keeps_and_then [OF Cons.IH]]) simp_all
  show ?case
  proof
    fix d :: "'a daemon" assume d: "dw E message_write s d"
    obtain r d1 where r: "on_net (backup_session (net E) a ver room sid) d = (r, d1)" by force
    have d1: "dw E message_write s d1" using d store_on_net(1) [of "backup_session (net E) a ver room sid" d] by (simp add: r)
    obtain q d2 where q: "on_crypto (import_backup_session (vz E) room sid (the (projr r))) (the (d_crypto d1)) d1 = (q, d2)"
      by force
    have d2: "dw E message_write s d2"
      using imp [OF d1, of "the (projr r)" "the (d_crypto d1)"] by (simp add: q)
    show "dw E message_write s (snd (import_sessions E a ver room (sid # sids) d))"
      using rest [OF d1] rest [OF d2] again [OF d2] d1 q
      by (cases q) (auto simp: r split: sum.split option.split bool.split)
  qed
qed (simp add: keeps_def)

lemma dw_retry [footprint]: "keeps (dw E message_write s) (retry_messages E pending)"
proof (induction pending)
  case (Cons p pending)
  obtain e sid ct where p: "p = (e, sid, ct)" by (cases p)
  have rest: "dw E message_write s d \<Longrightarrow> dw E message_write s (snd (retry_messages E pending d))" for d
    by (rule keepsD [OF Cons.IH])
  have again: "dw E message_write s d \<Longrightarrow>
      dw E message_write s (snd (and_then (retry_messages E pending) (\<lambda>n. succeed (Suc n)) d))" for d
    by (rule keepsD [OF keeps_and_then [OF Cons.IH]]) simp_all
  show ?case
  proof
    fix d :: "'a daemon" assume d: "dw E message_write s d"
    obtain r d1 where r: "decrypt_event E sid ct d = (r, d1)" by force
    have d1: "dw E message_write s d1" using keepsD [OF dw_decrypt d, of sid ct] by (simp add: r)
    with d show "dw E message_write s (snd (retry_messages E (p # pending) d))"
      by (auto simp: p r intro!: rest again footprint split: sum.split option.split)
  qed
qed (simp add: keeps_def)

lemma dw_restore [footprint]: "keeps (dw E message_write s) (restore_room E a ver room)"
proof -
  have inner: "keeps (dw E message_write s) (if imported = 0 then succeed 0 else retry_messages E pending)"
    for imported :: nat and pending by (simp add: footprint)
  have "keeps (dw E message_write s) (if pending = [] then succeed 0
      else and_then (import_sessions E a ver room (wanted_sessions pending)) (\<lambda>imported.
             if imported = 0 then succeed 0 else retry_messages E pending))" for pending
    using keeps_and_then [OF dw_import inner] by simp
  then show ?thesis unfolding restore_room_def by (intro keeps_and_then footprint)
qed

lemma dw_try_restore [footprint]: "dw E message_write s d \<Longrightarrow> dw E message_write s (try_restore_room E room d)"
  using keepsD [OF dw_restore] by (auto simp: try_restore_room_def split: option.split sum.split)

lemma dw_lookup [footprint]: "d_store (snd (lookup_profiles E a users found d)) = d_store d"
proof (induction users arbitrary: found d)
  case (Cons u users)
  obtain r d' where r: "on_net (profile_name (net E) a u) d = (r, d')" by force
  then have "d_store d' = d_store d" using store_on_net(1) [of "profile_name (net E) a u" d] by simp
  with Cons r show ?case by (simp split: sum.split option.split)
qed simp

lemma dw_name_senders [footprint]: "dw E message_write s d \<Longrightarrow> dw E message_write s (name_visible_senders E room d)"
  by (simp add: name_visible_senders_def case_prod_unfold Let_def footprint split: option.split sum.split)

lemma dw_refetch_events [footprint]:
  "dw E message_write s d \<Longrightarrow> dw E message_write s (snd (refetch_events E a sess room is d))"
proof (induction "is" arbitrary: d)
  case (Cons i "is")
  obtain r d1 where r: "on_net (api_event (net E) a room i) d = (r, d1)" by force
  then have "d_store d1 = d_store d" using store_on_net(1) [of "api_event (net E) a room i" d] by simp
  with Cons r show ?case by (simp del: store_page.simps add: case_prod_unfold Let_def footprint split: sum.split)
qed simp

lemma dw_refetch [footprint]: "keeps (dw E message_write s) (refetch_placeholders E room)"
  by (rule keepsI)
     (simp add: refetch_placeholders_def total_def case_prod_unfold Let_def footprint split: option.split)

lemma dw_repair [footprint]:
  assumes "dw E message_write s d"
  shows "dw E message_write s (repair_room E room d)"
  using keepsD [OF dw_refetch dw_name_senders [OF dw_try_restore [OF assms]], of room room room]
  by (auto simp: repair_room_def footprint split: prod.split sum.split)

section \<open>Verification and secrets\<close>

lemma store_own_devices [simp]: "d_store (snd (own_devices E a sess d)) = d_store d"
  by (simp add: own_devices_def)

lemma own_devicesD: "own_devices E a sess d = (r, d') \<Longrightarrow> d_store d' = d_store d"
  by (metis snd_conv store_own_devices)

lemma store_send_quietly [simp]:
  "d_store (send_quietly E a k pre msgs d) = d_store d" "d_store (send_to_others E a sess pre ds c d) = d_store d"
  by (simp_all add: send_to_others_def send_quietly_def case_prod_unfold Let_def)

lemma store_send_steps [simp]: "d_store (send_steps E a sess steps d) = d_store d"
  by (induction steps arbitrary: d) (auto simp: case_prod_unfold)

lemma dw_request_secret [footprint]:
  assumes "dw E message_write s d"
  shows "dw E message_write s (request_backup_secret E a sess d)"
proof -
  obtain r d1 where r: "own_devices E a sess d = (r, d1)" by force
  then have d1: "dw E message_write s d1" using assms store_own_devices [of E a sess d] by simp
  have "dw E message_write s (snd (on_crypto (in_memory (secret_request (vz E) dev name)) c d1))" for dev name c
    by (rule dw_on_crypto [OF cw_in_memory _ d1]) simp_all
  with assms d1 show ?thesis
    by (simp add: request_backup_secret_def r case_prod_unfold Let_def split: sum.split option.split)
qed

lemma dw_adopt [footprint]:
  assumes "dw E message_write s d"
  shows "dw E message_write s (snd (adopt_secret E secret expected c d))"
proof -
  have "dw E message_write s (snd (on_crypto (set_backup_key_base64 (vz E) secret x) c d))" for x
    by (rule dw_on_crypto [OF keepsD [OF cw_set_backup(2)] _ assms]) simp_all
  then show ?thesis
    by (simp add: adopt_secret_def case_prod_unfold Let_def footprint split: sum.split option.split)
qed

lemma dw_handle_secret [footprint]:
  assumes "dw E message_write s d"
  shows "dw E message_write s (handle_secret E a sess outcome d)"
proof -
  obtain r d1 where r: "on_net (backup_version (net E) a) d = (r, d1)" by force
  then have d1: "dw E message_write s d1" using assms store_on_net(1) [of "backup_version (net E) a" d] by simp
  show ?thesis
  proof (cases "d_crypto d1")
    case None
    with assms d1 show ?thesis by (simp add: handle_secret_def r)
  next
    case (Some c)
    obtain q d2 where q: "adopt_secret E (secret_text outcome) (case r of Inr b \<Rightarrow> b | Inl e \<Rightarrow> None) c d1 = (q, d2)"
      by force
    have d2: "dw E message_write s d2"
      using dw_adopt [OF d1, of "secret_text outcome" "case r of Inr b \<Rightarrow> b | Inl e \<Rightarrow> None" c] by (simp add: q)
    with assms d1 Some q show ?thesis
      by (auto simp: handle_secret_def r Let_def split: prod.split sum.split dest!: own_devicesD)
  qed
qed

lemma dw_apply_step [footprint]:
  "dw E message_write s d \<Longrightarrow> dw E message_write s (apply_verify_step E a sess step d)"
  by (simp add: apply_verify_step_def show_emoji_def case_prod_unfold Let_def footprint split: option.split)

lemma dw_verify [footprint]: "keeps (dw E message_write s) (with_crypto (in_memory f))"
  by (rule dw_with_crypto [OF keeps_in_memory]) simp

lemma store_learn [simp]: "d_store (learn_own_devices E a sess d) = d_store d"
  by (auto simp: learn_own_devices_def split: prod.split sum.split option.split dest: own_devicesD)

lemma dw_verification_event [footprint]: "keeps (dw E message_write s) (handle_verification_event E a sess ev)"
proof
  fix d :: "'a daemon" assume d: "dw E message_write s d"
  have "keeps (dw E message_write s) (and_then (with_crypto (in_memory f)) (\<lambda>step d2. (Inr (), apply_verify_step E a sess step d2)))"
    for f by (intro keeps_and_then keepsI) (simp_all add: footprint keepsD [OF dw_verify])
  from keepsD [OF this] d show "dw E message_write s (snd (handle_verification_event E a sess ev d))"
    by (simp add: handle_verification_event_def Let_def)
qed

lemma dw_confirm [footprint]: "keeps (dw E message_write s) (do_verify_confirm E t b)"
proof
  fix d :: "'a daemon" assume d: "dw E message_write s d"
  have "keeps (dw E message_write s) (and_then (with_crypto (in_memory f)) (\<lambda>step d2. (Inr (), apply_verify_step E a sess step d2)))"
    for f a sess by (intro keeps_and_then keepsI) (simp_all add: footprint keepsD [OF dw_verify])
  from keepsD [OF this] d show "dw E message_write s (snd (do_verify_confirm E t b d))"
    by (simp add: do_verify_confirm_def split: option.split)
qed

end
