(* ===== verification/Footprint_Sync.thy ===== *)
theory Footprint_Sync
  imports Footprint_Daemon
begin

text \<open>
  The writes of sending, of a sync batch, of the upload of one-time keys, of the naming sweep and of
  paging.
\<close>

section \<open>Sending\<close>

lemma store_keeps_txn [footprint]: "keeps (dw E A s) (total (new_txn F t))"
  by (rule keeps_total) simp

lemma keeps_if: "keeps P f \<Longrightarrow> keeps P g \<Longrightarrow> keeps P (if b then f else g)"
  by simp

lemma dw_open_olm [footprint]: "keeps (dw E crypto_write s) (open_olm E a need)"
proof -
  have "keeps (dw E crypto_write s) (with_crypto (\<lambda>cs. (Inr (), create_outbound_olm (vz E) claim need cs)))" for claim
    by (intro dw_with_crypto keepsI) (simp_all add: footprint)
  then show ?thesis unfolding open_olm_def by (intro keeps_if keeps_succeed keeps_and_then footprint)
qed

lemma dw_share [footprint]: "keeps (dw E crypto_write s) (share_room_key E a sess room)"
proof -
  have learn: "keeps (dw E crypto_write s) (learn_devices E x)" for x
    unfolding learn_devices_def by (rule dw_with_crypto [OF keeps_in_memory])
  have enc: "keeps (dw E crypto_write s) (with_crypto (total (encrypt_room_key_to_devices (vz E) room ds u dev)))" for ds u dev
    by (intro dw_with_crypto keeps_total) (simp_all add: footprint)
  have "keeps (dw E crypto_write s) (case x of (devices, need) \<Rightarrow>
      and_then (open_olm E a need) (\<lambda>_.
      and_then (with_crypto (total (encrypt_room_key_to_devices (vz E) room devices u dev))) (\<lambda>messages.
      and_then (total (new_txn E t)) (\<lambda>txn. on_net (send_to_device (net E) a k txn messages)))))" for x u dev t k
    unfolding case_prod_unfold by (intro keeps_and_then enc footprint)
  then show ?thesis
    unfolding share_room_key_def by (intro keeps_and_then learn footprint)
qed

lemma dw_send_encrypted [footprint]: "keeps (dw E crypto_write s) (send_encrypted E a sess room txn content)"
proof
  fix d :: "'a daemon" assume d: "dw E crypto_write s d"
  have enc: "keeps (dw E crypto_write s) (with_crypto (total (encrypt (vz E) room p dev)))" for p dev
    by (intro dw_with_crypto keeps_total) (simp_all add: footprint)
  have "keeps (dw E crypto_write s) (and_then (if b then succeed () else share_room_key E a sess room) (\<lambda>_.
      and_then (with_crypto (total (encrypt (vz E) room p dev))) (\<lambda>m. on_net (send_event (net E) a room k txn m))))" for b p dev k
    by (intro keeps_and_then keeps_if keeps_succeed enc footprint)
  from keepsD [OF this d] d show "dw E crypto_write s (snd (send_encrypted E a sess room txn content d))"
    by (simp add: send_encrypted_def split: option.split)
qed

lemma dw_do_send [footprint]: "keeps (dw E crypto_write s) (do_send E room body)"
proof
  fix d :: "'a daemon" assume d: "dw E crypto_write s d"
  have "keeps (dw E crypto_write s) (and_then (read_store g) (\<lambda>encrypted. and_then (total (new_txn E t)) (\<lambda>txn.
      if \<not> encrypted then on_net (send_event (net E) a room k txn c) else send_encrypted E a sess room txn c)))"
    for g t a k c sess by (intro keeps_and_then keeps_if footprint)
  from keepsD [OF this d] d show "dw E crypto_write s (snd (do_send E room body d))"
    by (simp add: do_send_def split: option.split)
qed

section \<open>A batch\<close>

lemma dw_widen: "dw E A s d' \<Longrightarrow> dw E B r (d::'k daemon) \<Longrightarrow> s = d_store d \<Longrightarrow> (\<And>w. A w \<Longrightarrow> B w) \<Longrightarrow> dw E B r d'"
  using writes_trans writes_mono by metis

lemma dw_start: "dw E A (d_store d) d"
  by (rule wrote.none)

lemma dw_convert_sync: "dw E sync_write s d \<Longrightarrow> dw E sync_write s (snd (convert_event E room ev sess d))"
  by (rule dw_widen [OF dw_convert [OF dw_start]]) simp_all

lemma dw_timeline [footprint]:
  "dw E sync_write s d \<Longrightarrow> dw E sync_write s (snd (convert_timeline E i sess evs r d))"
proof (induction evs arbitrary: r d)
  case (Cons ev evs)
  obtain m d1 where c: "convert_event E i ev sess d = (m, d1)" by force
  then have "dw E sync_write s d1" using dw_convert_sync [OF Cons.prems, of i ev sess] by simp
  with Cons.IH c show ?case by (simp add: case_prod_unfold Let_def)
qed simp

lemma writes_fold_insert [footprint]:
  "wrote L sync_write s t \<Longrightarrow> wrote L sync_write s (fold (insert_message L) msgs t)"
  by (induction msgs arbitrary: t) (simp_all add: footprint)

lemma dw_sync_room [footprint]: "keeps (dw E sync_write s) (sync_room E sess i jr)"
proof -
  have "keeps (dw E sync_write s) (\<lambda>d.
      let names = member_entries jr;
          d1 = (if names = [] then d else on_store (remember_members (cipher E) i names) d);
          ((msgs, r3), d2) = convert_timeline E i sess evs r2 d1;
          r4 = note_last msgs r3
      in (Inr (r4, msgs), on_store (store_room E msgs r4 i prev) d2))" for evs r2 prev
    by (rule keepsI) (auto simp: store_room_def case_prod_unfold Let_def footprint split: option.split)
  then show ?thesis
    unfolding sync_room_def by (intro keeps_and_then footprint) (simp add: Let_def)
qed

lemma dw_sync_rooms [footprint]: "keeps (dw E sync_write s) (sync_rooms E sess jrs)"
proof (induction jrs)
  case (Cons j jrs)
  have "keeps (dw E sync_write s) (and_then (sync_room E sess i jr) (\<lambda>changed.
      and_then (sync_rooms E sess jrs) (\<lambda>out. succeed ((i, changed) # out))))" for i jr
    by (intro keeps_and_then Cons.IH keeps_succeed footprint)
  then show ?case by (cases j) (simp add: keeps_def)
qed (simp add: keeps_def)

lemma dw_mark_uploaded [footprint]:
  assumes "dw E sync_write s d"
  shows "dw E sync_write s (mark_uploaded E d)"
proof -
  have "dw E sync_write s (snd (on_crypto (\<lambda>cs. ((), mark_published (vz E) cs)) c d))" for c
    by (rule dw_on_crypto [OF _ crypto_is_sync assms]) (simp add: footprint)
  with assms show ?thesis by (simp add: mark_uploaded_def Let_def footprint split: option.split)
qed

lemma dw_maintain [footprint]: "keeps (dw E sync_write s) (maintain_otks E a sess n)"
proof -
  have rest: "keeps (dw E sync_write s) (and_then (on_net (keys_upload (net E) a body)) (\<lambda>_ d2. (Inr (), mark_uploaded E d2)))"
    for body by (intro keeps_and_then footprint keepsI) (simp add: footprint)
  have "keeps (dw E sync_write s) (\<lambda>d. if b then (Inr (), d) else (case d_crypto d of None \<Rightarrow> (Inr (), d)
      | Some c \<Rightarrow> (case upload_body E sess n pub c d of (None, d1) \<Rightarrow> (Inr (), d1)
          | (Some body, d1) \<Rightarrow> and_then (on_net (keys_upload (net E) a body)) (\<lambda>_ d2. (Inr (), mark_uploaded E d2)) d1)))" for b pub
  proof
    fix d :: "'a daemon" assume d: "dw E sync_write s d"
    have up: "upload_body E sess n pub c d = (x, d1) \<Longrightarrow> dw E sync_write s d1" for c x d1
      using dw_on_crypto [of E, OF _ crypto_is_sync d,
          of "in_memory (keys_upload_body (vz E) (user_id sess) (device_id sess) n (\<not> pub))" c]
      by (simp add: upload_body_def cw_in_memory)
    show "dw E sync_write s (snd (if b then (Inr (), d) else (case d_crypto d of None \<Rightarrow> (Inr (), d)
      | Some c \<Rightarrow> (case upload_body E sess n pub c d of (None, d1) \<Rightarrow> (Inr (), d1)
          | (Some body, d1) \<Rightarrow> and_then (on_net (keys_upload (net E) a body)) (\<lambda>_ d2. (Inr (), mark_uploaded E d2)) d1))))"
      using d by (auto split: option.split prod.split dest!: up intro: keepsD [OF rest])
  qed
  then show ?thesis unfolding maintain_otks_def by (intro keeps_and_then footprint)
qed

lemma dw_receive [footprint]:
  assumes "dw E message_write s d"
  shows "dw E message_write s (receive_to_device E a sess events d)"
proof -
  have olm: "dw E message_write s (snd (receive_olm E evs d))" for evs
    using assms dw_on_crypto [OF cw_handle_to_device crypto_is_message assms]
    by (simp add: receive_olm_def split: option.split)
  have secrets: "dw E message_write s d \<Longrightarrow> dw E message_write s (fold (handle_secret E a sess) outs d)" for outs d
    by (induction outs arbitrary: d) (simp_all add: footprint)
  have verify: "dw E message_write s d \<Longrightarrow>
      dw E message_write s (fold (\<lambda>ev d. snd (handle_verification_event E a sess ev d)) evs d)" for evs d
    by (induction evs arbitrary: d) (simp_all add: keepsD [OF dw_verification_event])
  show ?thesis
    using assms by (simp add: receive_to_device_def case_prod_unfold Let_def verify secrets olm)
qed

lemma store_publish_batch [simp]: "d_store (snd (publish_batch E changed d)) = d_store d"
proof -
  have "d_store (fold (\<lambda>(i, r, msgs) d. if msgs = [] then d else publish_messages E i msgs d) xs d) = d_store d"
    for xs :: "(string \<times> room \<times> message list) list" and d
    by (induction xs arbitrary: d) (auto simp: publish_messages_def split: if_splits)
  then show ?thesis
    by (simp add: publish_batch_def and_then_def read_store_def publish_rooms_def Let_def split: sum.split)
qed

section \<open>Paging\<close>

lemma dw_repage:
  assumes "dw E message_write s d"
  shows "dw E message_write s (try_restore_room E room (snd (store_page E room sess evs d)))"
  by (intro footprint assms)

end
