(* ===== verification/Sync_Laws.thy ===== *)
theory Sync_Laws
  imports Footprint_Sync
begin

text \<open>
  What a sync leaves behind: the token is advanced only once the batch is in the store, keys count as
  published only once the server has taken them, and the waits of the loop are bounded.
\<close>

section \<open>A batch is stored before its token\<close>

definition sync_token_of :: "store \<Rightarrow> string option" where
  "sync_token_of s = meta_of s ''sync_token''"

definition plain_message_event :: "room_event \<Rightarrow> bool" where
  "plain_message_event ev \<longleftrightarrow>
     e_kind ev = ''m.room.message'' \<and> edit_target (e_content ev) = None
     \<and> c_body (e_content ev) \<noteq> None \<and> c_body (e_content ev) \<noteq> Some []"

definition batch_ids :: "sync_response \<Rightarrow> string set" where
  "batch_ids resp =
     (\<Union>(i, jr) \<in> set (sr_join resp). e_event_id ` {ev \<in> set (tl_events (j_timeline jr)). plain_message_event ev})"

lemma token_kept:
  assumes "wrote L sync_write s t"
  shows "sync_token_of t = sync_token_of s"
proof -
  have "sync_write w \<Longrightarrow> sync_token_of (run_write L w u) = sync_token_of u" for w u
    unfolding sync_token_of_def by (rule meta_of_run) (cases w; auto simp: PICKLE_KEY_META_def BACKUP_KEY_META_def)+
  then show ?thesis using writes_invariant [OF assms, of "\<lambda>u. sync_token_of u = sync_token_of s"] by simp
qed

lemma ids_kept:
  assumes "wrote L sync_write s t"
  shows "room_ids s \<subseteq> room_ids t" "message_ids s \<subseteq> message_ids t"
proof -
  have "sync_write w \<Longrightarrow> w \<noteq> Clear" for w by auto
  then have "sync_write w \<Longrightarrow> room_ids u \<subseteq> room_ids (run_write L w u)"
    "sync_write w \<Longrightarrow> message_ids u \<subseteq> message_ids (run_write L w u)" for w u
    by (subst room_ids_run message_ids_run, blast, auto split: store_write.split)+
  then show "room_ids s \<subseteq> room_ids t" "message_ids s \<subseteq> message_ids t"
    using writes_invariant [OF assms, of "\<lambda>u. room_ids s \<subseteq> room_ids u"]
      writes_invariant [OF assms, of "\<lambda>u. message_ids s \<subseteq> message_ids u"] by blast+
qed

lemma convert_plain_message:
  "plain_message_event ev \<Longrightarrow> \<exists>m. fst (convert_event E i ev sess d) = Some m \<and> m_event_id m = e_event_id ev"
  by (auto simp: plain_message_event_def convert_event_def convert_plain_def record_if_edit_def message_from_def)

lemma timeline_messages:
  "convert_timeline E i sess evs r d = ((msgs, r'), d') \<Longrightarrow>
     r_id r' = r_id r \<and> e_event_id ` {ev \<in> set evs. plain_message_event ev} \<subseteq> m_event_id ` set msgs"
proof (induction evs arbitrary: r d msgs r' d')
  case (Cons ev evs)
  obtain m d1 where c: "convert_event E i ev sess d = (m, d1)" by force
  let ?r1 = "if e_kind ev = ''m.room.encryption'' then r\<lparr>r_encrypted := True\<rparr> else r"
  obtain ms r2 d2 where t: "convert_timeline E i sess evs ?r1 d1 = ((ms, r2), d2)" by (metis surj_pair)
  have "r_id r2 = r_id r \<and> e_event_id ` {ev \<in> set evs. plain_message_event ev} \<subseteq> m_event_id ` set ms"
    using Cons.IH [OF t] by auto
  moreover have "\<exists>x. m = Some x \<and> m_event_id x = e_event_id ev" if "plain_message_event ev"
    using convert_plain_message [OF that, of E i sess d] by (simp add: c)
  moreover have "r' = r2" "msgs = (case m of Some x \<Rightarrow> x # ms | None \<Rightarrow> ms)"
    using Cons.prems by (simp_all add: c t Let_def)
  ultimately show ?case by (cases m) force+
qed simp

lemma insert_all_ids: "message_ids (fold (insert_message L) msgs s) = message_ids s \<union> m_event_id ` set msgs"
proof (induction msgs arbitrary: s)
  case (Cons m msgs)
  have "message_ids (insert_message L m s) = insert (m_event_id m) (message_ids s)"
    using message_ids_run [of "InsertMessage m" L s] by simp
  with Cons show ?case by auto
qed simp

lemma store_room_ids:
  "message_ids (store_room E msgs r i prev s) = message_ids s \<union> m_event_id ` set msgs"
  "r_id r \<in> room_ids (store_room E msgs r i prev s)"
proof -
  let ?s1 = "fold (insert_message (cipher E)) msgs s"
  have up: "message_ids (upsert_room (cipher E) r ?s1) = message_ids ?s1" "r_id r \<in> room_ids (upsert_room (cipher E) r ?s1)"
    using message_ids_run [of "UpsertRoom r" "cipher E" ?s1] room_ids_run [of "UpsertRoom r" "cipher E" ?s1] by simp_all
  have seed: "message_ids (snd (seed_back_token i t u)) = message_ids u" "room_ids (snd (seed_back_token i t u)) = room_ids u" for t u
    using message_ids_run [of "SeedBackToken i t" "cipher E" u] room_ids_run [of "SeedBackToken i t" "cipher E" u] by simp_all
  show "message_ids (store_room E msgs r i prev s) = message_ids s \<union> m_event_id ` set msgs"
    "r_id r \<in> room_ids (store_room E msgs r i prev s)"
    using up by (simp_all add: store_room_def Let_def seed insert_all_ids split: option.split)
qed

lemma r_id_steps [simp]:
  "r_id (fold apply_state_event evs r) = r_id r" "r_id (name_room jr r) = r_id r" "r_id (note_last msgs r) = r_id r"
proof -
  have "r_id (apply_state_event ev r) = r_id r" for ev r
    by (simp add: apply_state_event_def split: option.split)
  then show "r_id (fold apply_state_event evs r) = r_id r" by (induction evs arbitrary: r) simp_all
qed (simp_all add: name_room_def note_last_def split: option.split)

lemma get_room_id: "get_room L i s = Inr (Some r) \<Longrightarrow> r_id r = i"
  by (auto simp: get_room_def read_room_def dest: row_at_SomeD split: option.splits)

lemma sync_room_stored:
  assumes "sync_room E sess i jr d = (Inr x, d')"
  shows "i \<in> room_ids (d_store d')"
    "e_event_id ` {ev \<in> set (tl_events (j_timeline jr)). plain_message_event ev} \<subseteq> message_ids (d_store d')"
proof -
  obtain known where known: "get_room (cipher E) i (d_store d) = Inr known"
    using assms by (auto simp: sync_room_def and_then_def read_store_def split: sum.splits)
  let ?r = "case known of Some r \<Rightarrow> r | None \<Rightarrow> default_room i"
  let ?r2 = "(name_room jr (fold apply_state_event (j_state jr) ?r))\<lparr>r_unread := j_notification_count jr\<rparr>"
  let ?d1 = "if member_entries jr = [] then d else on_store (remember_members (cipher E) i (member_entries jr)) d"
  obtain msgs r3 d2 where t: "convert_timeline E i sess (tl_events (j_timeline jr)) ?r2 ?d1 = ((msgs, r3), d2)"
    by (metis surj_pair)
  have d': "d' = on_store (store_room E msgs (note_last msgs r3) i (tl_prev_batch (j_timeline jr))) d2"
    using assms by (simp add: sync_room_def and_then_def read_store_def known Let_def t)
  have "r_id ?r = i" using known by (auto simp: default_room_def dest: get_room_id split: option.split)
  with timeline_messages [OF t] have "r_id (note_last msgs r3) = i"
    "e_event_id ` {ev \<in> set (tl_events (j_timeline jr)). plain_message_event ev} \<subseteq> m_event_id ` set msgs"
    by simp_all
  then show "i \<in> room_ids (d_store d')"
    "e_event_id ` {ev \<in> set (tl_events (j_timeline jr)). plain_message_event ev} \<subseteq> message_ids (d_store d')"
    using store_room_ids [where E = E and msgs = msgs and r = "note_last msgs r3" and i = i
        and prev = "tl_prev_batch (j_timeline jr)" and s = "d_store d2"]
    by (auto simp: d')
qed

lemma sync_rooms_stored:
  assumes "sync_rooms E sess jrs d = (Inr out, d')"
  shows "fst ` set jrs \<subseteq> room_ids (d_store d') \<and>
    (\<Union>(i, jr) \<in> set jrs. e_event_id ` {ev \<in> set (tl_events (j_timeline jr)). plain_message_event ev})
      \<subseteq> message_ids (d_store d')"
  using assms
proof (induction jrs arbitrary: d out)
  case (Cons j jrs)
  obtain i jr where j: "j = (i, jr)" by (cases j)
  obtain x d1 out' where one: "sync_room E sess i jr d = (Inr x, d1)" and rest: "sync_rooms E sess jrs d1 = (Inr out', d')"
    using Cons.prems by (auto simp: j and_then_Inr succeed_def)
  have "wrote (cipher E) sync_write (d_store d1) (d_store d')"
    using keepsD [OF dw_sync_rooms dw_start, of E d1 sess jrs] by (simp add: rest)
  from ids_kept [OF this] sync_room_stored [OF one] Cons.IH [OF rest] show ?case
    by (auto simp: j)
qed simp

text \<open>
  C2: The sync token moves only at the end of a batch. A sync that fails before that leaves the
  stored token as it was, so the same batch is fetched again; when the token has moved, every room of
  the batch has a row and every unencrypted message of it, edits apart, is in the store. What can
  still fail after that is reading the room list back for the subscribers.
\<close>

theorem token_moves_after_batch:
  "case process_sync E a sess resp d of (r, d') \<Rightarrow>
     (\<exists>e. r = Inl e \<and> get_meta (cipher E) ''sync_token'' (d_store d') = get_meta (cipher E) ''sync_token'' (d_store d))
     \<or> get_meta (cipher E) ''sync_token'' (d_store d') = Inr (Some (next_batch resp))
        \<and> fst ` set (sr_join resp) \<subseteq> room_ids (d_store d') \<and> batch_ids resp \<subseteq> message_ids (d_store d')
        \<and> (r = Inr () \<or> (\<exists>e. r = Inl e \<and> list_rooms (cipher E) (d_store d') = Inl e))"
proof -
  have public: "secret_meta_label ''sync_token'' = None" by code_simp
  let ?d1 = "receive_to_device E a sess (sr_to_device resp) d"
  have "wrote (cipher E) sync_write (d_store d) (d_store ?d1)"
    by (rule writes_mono [OF dw_receive [OF dw_start]]) simp
  then have t1: "sync_token_of (d_store ?d1) = sync_token_of (d_store d)" by (rule token_kept)
  obtain q d2 where q: "sync_rooms E sess (sr_join resp) ?d1 = (q, d2)" by force
  have "wrote (cipher E) sync_write (d_store ?d1) (d_store d2)"
    using keepsD [OF dw_sync_rooms dw_start, of E ?d1 sess "sr_join resp"] by (simp add: q)
  then have t2: "sync_token_of (d_store d2) = sync_token_of (d_store d)" using t1 token_kept by simp
  show ?thesis
  proof (cases q)
    case (Inl e)
    then show ?thesis
      using t2 by (simp add: process_sync_def and_then_def q get_meta_public [OF public] sync_token_of_def)
  next
    case (Inr out)
    let ?d3 = "on_store (set_meta (cipher E) ''sync_token'' (next_batch resp)) d2"
    let ?d4 = "snd (maintain_otks E a sess (sr_otk_count resp) ?d3)"
    obtain r d5 where p: "publish_batch E out ?d4 = (r, d5)" by force
    have d5: "d_store d5 = d_store ?d4" using store_publish_batch [of E out ?d4] by (simp add: p)
    have up: "wrote (cipher E) sync_write (d_store ?d3) (d_store ?d4)"
      by (rule keepsD [OF dw_maintain dw_start])
    have same: "room_ids (d_store ?d3) = room_ids (d_store d2)" "message_ids (d_store ?d3) = message_ids (d_store d2)"
      using room_ids_run [of "SetMeta ''sync_token'' (next_batch resp)" "cipher E" "d_store d2"]
        message_ids_run [of "SetMeta ''sync_token'' (next_batch resp)" "cipher E" "d_store d2"] by simp_all
    have stored: "fst ` set (sr_join resp) \<subseteq> room_ids (d_store d2)" "batch_ids resp \<subseteq> message_ids (d_store d2)"
      using sync_rooms_stored [of E sess "sr_join resp" ?d1 out d2] by (simp_all add: q Inr batch_ids_def)
    have "sync_token_of (d_store d5) = Some (next_batch resp)"
      using token_kept [OF up] meta_of_set [OF public, of "cipher E" "next_batch resp" "d_store d2"]
      by (simp add: d5 sync_token_of_def)
    moreover have "fst ` set (sr_join resp) \<subseteq> room_ids (d_store d5)" "batch_ids resp \<subseteq> message_ids (d_store d5)"
      using ids_kept [OF up] stored unfolding d5 same by blast+
    moreover have "r = Inr () \<or> (\<exists>e. r = Inl e \<and> list_rooms (cipher E) (d_store d5) = Inl e)"
      using p by (auto simp: publish_batch_def Let_def and_then_def read_store_def publish_rooms_def split: if_splits sum.splits)
    moreover have "process_sync E a sess resp d = (r, d5)"
      using p by (simp add: process_sync_def and_then_def q Inr Let_def)
    ultimately show ?thesis by (simp add: get_meta_public [OF public] sync_token_of_def)
  qed
qed

section \<open>One-time keys\<close>

lemma fetch_ok:
  assumes "fetch N rq h w = (Inr x, w')"
  shows "\<exists>q res. rq = Inr q \<and> w_log w' = w_log w @ [q] \<and> answer N (w_log w') = Inr res \<and> h res = Inr x"
  using assms
  by (auto simp: fetch_def send_request_def call_def and_then_def Let_def split: sum.splits)

definition upload_request :: "'k daemon_lib \<Rightarrow> api \<Rightarrow> json \<Rightarrow> http_request \<Rightarrow> bool" where
  "upload_request E a body rq \<longleftrightarrow>
     rq_method rq = ''POST'' \<and> rq_url rq = api_url a ''/_matrix/client/v3/keys/upload''
     \<and> rq_body rq = Some (json_print (net_json (net E)) body)"

lemma keys_upload_ok:
  assumes "on_net (keys_upload (net E) a body) d = (Inr x, d')"
  shows "\<exists>rq res. sent (d_world d) (d_world d') = [rq] \<and> upload_request E a body rq
    \<and> answer (net E) (w_log (d_world d')) = Inr res \<and> 200 \<le> rs_status res \<and> rs_status res < 300
    \<and> d' = d\<lparr>d_world := d_world d'\<rparr>"
proof -
  obtain w' where w: "keys_upload (net E) a body (d_world d) = (Inr x, w')" and d': "d' = d\<lparr>d_world := w'\<rparr>"
    using assms by (auto simp: on_net_def Let_def split: prod.splits)
  from fetch_ok [OF w [unfolded keys_upload_def]] show ?thesis
    by (auto simp: d' sent_def upload_request_def discard_def check_status_def post_auth_def post_request_def
        split: if_splits)
qed

text \<open>
  C21: Topping up the one-time keys changes the store only after the server has accepted an upload of
  exactly the keys to be published: in every other case, a failure included, the stored account and
  the record that the device keys are published stay as they were, so a restart offers the same keys
  again. With enough keys on the server and the device keys published, nothing happens at all.
\<close>

theorem keys_published_after_upload:
  "case maintain_otks E a sess n d of (r, d') \<Rightarrow>
     (d_store d' = d_store d
      \<or> r = Inr () \<and> (\<exists>c body rq res. d_crypto d = Some c
          \<and> Some body = fst (keys_upload_body (vz E) (user_id sess) (device_id sess) n
                               (get_meta (cipher E) ''device_keys_published'' (d_store d) = Inr None) c)
          \<and> sent (d_world d) (d_world d') = [rq] \<and> upload_request E a body rq
          \<and> answer (net E) (w_log (d_world d')) = Inr res \<and> 200 \<le> rs_status res \<and> rs_status res < 300
          \<and> get_meta (cipher E) ''device_keys_published'' (d_store d') = Inr (Some ''1'')))
     \<and> (d' = d \<or> n < OTK_TARGET \<or> get_meta (cipher E) ''device_keys_published'' (d_store d) = Inr None)"
proof -
  have public: "secret_meta_label ''device_keys_published'' = None" by code_simp
  obtain flag where flag: "meta_of (d_store d) ''device_keys_published'' = flag" by blast
  note [simp] = get_meta_public [OF public] flag
  show ?thesis
  proof (cases "OTK_TARGET \<le> n \<and> flag \<noteq> None \<or> d_crypto d = None")
    case True
    then show ?thesis by (auto simp: maintain_otks_def and_then_def read_store_def)
  next
    case False
    then obtain c where c: "d_crypto d = Some c" by blast
    obtain body c' where b: "keys_upload_body (vz E) (user_id sess) (device_id sess) n (flag = None) c = (body, c')" by force
    let ?d1 = "d\<lparr>d_crypto := Some c'\<rparr>"
    have up: "upload_body E sess n (flag \<noteq> None) c d = (body, ?d1)"
      using b by (simp add: upload_body_def on_crypto_def in_memory_def)
    have idle: "n < OTK_TARGET \<or> flag = None" using False c by auto
    show ?thesis
    proof (cases body)
      case None
      with False c up idle show ?thesis by (simp add: maintain_otks_def and_then_def read_store_def)
    next
      case (Some bd)
      obtain q d2 where q: "on_net (keys_upload (net E) a bd) ?d1 = (q, d2)" by force
      have m: "maintain_otks E a sess n d = (case q of Inl e \<Rightarrow> (Inl e, d2) | Inr _ \<Rightarrow> (Inr (), mark_uploaded E d2))"
        using idle c up q Some
        by (auto simp: maintain_otks_def and_then_def read_store_def not_le [symmetric] simp del: not_None_eq split: sum.split)
      have d2: "d_store d2 = d_store d" using store_on_net(1) [of "keys_upload (net E) a bd" ?d1] by (simp add: q)
      show ?thesis
      proof (cases q)
        case (Inl e)
        with m d2 idle show ?thesis by simp
      next
        case (Inr u)
        have w: "d_world (mark_uploaded E d2) = d_world d2"
          by (simp add: mark_uploaded_def Let_def on_crypto_def case_prod_unfold split: option.split)
        have f: "get_meta (cipher E) ''device_keys_published'' (d_store (mark_uploaded E d2)) = Inr (Some ''1'')"
          using meta_of_set [OF public] by (simp add: mark_uploaded_def Let_def)
        from keys_upload_ok [of E a bd ?d1 u d2] q Inr m w f idle b c Some show ?thesis
          by (fastforce simp: fst_def)
      qed
    qed
  qed
qed

section \<open>The waits of the loop\<close>

text \<open>What the doubling asks for: after each failure in a row twice the last wait, a minute at most.\<close>

fun backoff_law :: "nat \<Rightarrow> turn list \<Rightarrow> bool" where
  "backoff_law b [] = True"
| "backoff_law b (Polled # ts) = backoff_law 1 ts"
| "backoff_law b (Idle w # ts) \<longleftrightarrow> w = 1000 \<and> backoff_law b ts"
| "backoff_law b (Waited w # ts) \<longleftrightarrow> unat w = 1000 * b \<and> backoff_law (min 60 (2 * b)) ts"
| "backoff_law b (Stopped # ts) = backoff_law b ts"

definition wait_bounded :: "turn \<Rightarrow> bool" where
  "wait_bounded t = (case t of Waited w \<Rightarrow> 1000 \<le> unat w \<and> unat w \<le> 60000 | _ \<Rightarrow> True)"

lemma backoff_law_bounded:
  "backoff_law b ts \<Longrightarrow> 1 \<le> b \<Longrightarrow> b \<le> 60 \<Longrightarrow> list_all wait_bounded ts"
  by (induction b ts rule: backoff_law.induct) (auto simp: wait_bounded_def)

lemma sweep_turn_backoff [simp]: "lp_backoff (fst (sweep_turn E a sess lp d)) = lp_backoff lp"
  by (simp add: sweep_turn_def case_prod_unfold split: sum.split)

lemma sweep_turn_backoffD: "sweep_turn E a sess lp d = (lp', d') \<Longrightarrow> lp_backoff lp' = lp_backoff lp"
  by (metis fst_conv sweep_turn_backoff)

lemma sync_turn_backoff:
  assumes "sync_turn E lp d = (t, lp', d')" "unat (lp_backoff lp) = b" "1 \<le> b" "b \<le> 60"
  shows "case t of
      Polled \<Rightarrow> unat (lp_backoff lp') = 1
    | Waited w \<Rightarrow> unat w = 1000 * b \<and> unat (lp_backoff lp') = min 60 (2 * b)
    | Idle w \<Rightarrow> w = 1000 \<and> unat (lp_backoff lp') = b
    | Stopped \<Rightarrow> unat (lp_backoff lp') = b"
proof -
  have small: "unat (lp_backoff lp * 1000) = b * 1000" "unat (lp_backoff lp * 2) = b * 2"
    using assms(2,4) by (simp_all add: unat_word_ariths)
  then have "unat (min (lp_backoff lp * 2) 60) = min 60 (2 * b)"
    by (auto simp: min_def word_le_nat_alt)
  then show ?thesis
    using assms(1,2) small
    by (auto dest!: sweep_turn_backoffD simp: sync_turn_def begin_turn_def settle_turn_def split: if_splits option.splits prod.splits sum.splits)
qed

text \<open>
  C40: The waits of the sync loop, over any number of turns from its start: a failed sync is followed
  by a wait of one second, and each further failure in a row by one twice as long, up to a minute; a
  sync that succeeds starts over, a turn without a login waits a second and counts as neither. No
  wait after a failure is shorter than a second or longer than a minute.
\<close>

theorem backoff_doubles_to_a_minute:
  "case sync_turns E n (loop_start E d) d of (ts, r) \<Rightarrow> backoff_law 1 ts \<and> list_all wait_bounded ts \<and> length ts = n"
proof -
  have run: "backoff_law b (fst (sync_turns E n lp d)) \<and> length (fst (sync_turns E n lp d)) = n"
    if "unat (lp_backoff lp) = b" "1 \<le> b" "b \<le> 60" for b lp d
    using that
  proof (induction n arbitrary: b lp d)
    case (Suc n)
    obtain t lp' d' where t: "sync_turn E lp d = (t, lp', d')" by (metis surj_pair)
    show ?case
      using Suc.IH [of lp' _ d'] Suc.prems sync_turn_backoff [OF t Suc.prems]
      by (cases t) (simp_all add: t case_prod_unfold Let_def)
  qed simp
  have "unat (lp_backoff (loop_start E d)) = 1" by (simp add: loop_start_def)
  from run [OF this] show ?thesis
    using backoff_law_bounded [of 1] by (simp add: case_prod_unfold)
qed

end
