(* ===== verification/Daemon_Demo.thy ===== *)
theory Daemon_Demo
  imports Startup Crypto_Demo Store_Laws
begin

text \<open>
  A concrete daemon on which the properties that assume something are tried: a server that answers
  every request with the same object, sockets that always take what is written, and a store without
  a key that holds one encrypted room.
\<close>

definition ok_json :: json_lib where
  "ok_json = \<lparr>json_print = (\<lambda>v. ''{}''), json_parse = (\<lambda>t. Inr (obj [(''event_id'', JStr ''$e'')])),
     json_type_error = (\<lambda>t. ''type'')\<rparr>"

definition ok_net :: net_lib where
  "ok_net = \<lparr>answer = (\<lambda>log. Inr \<lparr>rs_status = 200, rs_date = None, rs_body = ''{}''\<rparr>),
     read_limited = (\<lambda>n b. Inr b), read_lossy = (\<lambda>n b. Some b), clock_ms = (\<lambda>n. 0), net_json = ok_json\<rparr>"

definition demo_env :: "string daemon_lib" where
  "demo_env = \<lparr>net = ok_net, vz = demo_crypto, sock_ok = (\<lambda>c l. True), token_bytes = (\<lambda>n. ''abc'')\<rparr>"

definition demo_api :: api where
  "demo_api = \<lparr>api_base = ''https://a.io'', api_token = Some ''t'', api_skew = 0\<rparr>"

definition demo_store :: store where
  "demo_store = upsert_room demo_cipher demo_room (fresh_store None)"

definition demo_daemon :: "string daemon" where
  "demo_daemon = (fresh_daemon demo_store (Some demo_session) \<lparr>w_log = [], w_ticks = 0\<rparr> 0)
     \<lparr>d_crypto := Some (demo_state\<lparr>k_outbound := [''r'' \<mapsto> ''session'']\<rparr>), d_api := Some demo_api, d_token := Some ''616263''\<rparr>"

lemma demo_cipher_env [simp]: "cipher demo_env = demo_cipher" "js demo_env = unary_json" "net demo_env = ok_net"
  by (simp_all add: demo_env_def demo_crypto_def)

lemma demo_daemon_parts [simp]:
  "d_store demo_daemon = demo_store" "d_session demo_daemon = Some demo_session" "d_api demo_daemon = Some demo_api"
  "d_crypto demo_daemon = Some (demo_state\<lparr>k_outbound := [''r'' \<mapsto> ''session'']\<rparr>)"
  "d_running demo_daemon = True" "d_bus demo_daemon = bus_new" "d_token demo_daemon = Some ''616263''"
  "d_world demo_daemon = \<lparr>w_log = [], w_ticks = 0\<rparr>"
  by (simp_all add: demo_daemon_def fresh_daemon_def)

lemma demo_store_room: "t_room (s_db demo_store) =
    [\<lparr>rr_id = ''r'', rr_name = ''Mum'', rr_encrypted = True, rr_unread = 2, rr_last_ts = 7, rr_last_preview = ''hi'',
      rr_back_token = None, rr_back_done = False\<rparr>]" "s_key demo_store = None"
  by (simp_all add: demo_store_def upsert_room_def protect_def fresh_store_def on_db_def upsert_def demo_room_def
      ts_column_def empty_db_def clear_def)

lemma demo_rooms: "list_rooms demo_cipher demo_store = Inr [demo_room]"
  by (simp add: list_rooms_def demo_store_room order_by_def read_room_def reveal_def unseal_def strip_prefix_def
      ENC_PREFIX_def demo_room_def ts_value_def)

end
