(* ===== verification/Action_Laws.thy ===== *)
theory Action_Laws
  imports Sync_Laws Daemon_Demo
begin

text \<open>
  What a client's actions guarantee: a message to an encrypted room leaves only encrypted, after the
  key was shared; logging out leaves nothing behind; a login that the server refuses changes nothing.
\<close>

section \<open>Requests\<close>

text \<open>From \<open>d\<close> to \<open>d'\<close> only requests that satisfy \<open>P\<close> were sent.\<close>

definition sent_only :: "(http_request \<Rightarrow> bool) \<Rightarrow> 'k daemon \<Rightarrow> 'k daemon \<Rightarrow> bool" where
  "sent_only P d d' \<longleftrightarrow> (\<exists>rqs. w_log (d_world d') = w_log (d_world d) @ rqs \<and> list_all P rqs)"

named_theorems requests \<open>an operation sends only these requests\<close>

lemma sent_only_refl [simp]: "sent_only P d d"
  by (simp add: sent_only_def)

lemma sent_only_same: "w_log (d_world d') = w_log (d_world d) \<Longrightarrow> sent_only P d d'"
  by (simp add: sent_only_def)

lemma fetch_log: "\<exists>rqs. w_log (snd (fetch N rq h w)) = w_log w @ rqs \<and> (rqs = [] \<or> (\<exists>q. rq = Inr q \<and> rqs = [q]))"
  by (cases rq) (auto simp: fetch_def send_request_def call_def and_then_def Let_def split: sum.split)

lemma keeps_fetch [requests]:
  assumes "\<And>q. rq = Inr q \<Longrightarrow> P q"
  shows "keeps (sent_only P d0) (on_net (fetch N rq h))"
proof
  fix d assume "sent_only P d0 d"
  then show "sent_only P d0 (snd (on_net (fetch N rq h) d))"
    using fetch_log [of N rq h "d_world d"] assms
    by (auto simp: sent_only_def on_net_def case_prod_unfold Let_def)
qed

lemma keeps_silent:
  assumes "\<And>d. w_log (d_world (snd (f d))) = w_log (d_world d)"
  shows "keeps (sent_only P d0) f"
  by (rule keepsI) (simp add: sent_only_def assms)

lemma world_on_crypto [simp]: "d_world (snd (on_crypto f c d)) = d_world d"
  by (simp add: on_crypto_def case_prod_unfold Let_def)

lemma world_with_crypto [simp]: "d_world (snd (with_crypto f d)) = d_world d"
  by (simp add: with_crypto_def split: option.split)

lemma log_new_txn [simp]: "w_log (d_world (snd (new_txn E t d))) = w_log (d_world d)"
  by (simp add: new_txn_def on_net_def now_ms_def Let_def)

lemma keeps_steps [requests]:
  "keeps (sent_only P d0) (with_crypto f)" "keeps (sent_only P d0) (read_store g)"
  "keeps (sent_only P d0) (total (new_txn E t))"
  by (intro keeps_silent; simp add: read_store_def total_def case_prod_unfold Let_def)+

section \<open>Sending to an encrypted room\<close>

text \<open>The requests that share a room key: none of them carries a message.\<close>

definition to_device_url :: "api \<Rightarrow> string \<Rightarrow> string" where
  "to_device_url a txn =
     api_url a (''/_matrix/client/v3/sendToDevice/'' @ encode_segment ''m.room.encrypted'' @ ''/'' @ encode_segment txn)"

definition key_request :: "api \<Rightarrow> string \<Rightarrow> http_request \<Rightarrow> bool" where
  "key_request a room rq \<longleftrightarrow>
     rq_method rq = ''GET'' \<and> rq_url rq = joined_members_url a room \<and> rq_body rq = None
     \<or> rq_method rq = ''POST'' \<and> rq_url rq \<in> {api_url a ''/_matrix/client/v3/keys/query'', api_url a ''/_matrix/client/v3/keys/claim''}
     \<or> rq_method rq = ''PUT'' \<and> (\<exists>txn. rq_url rq = to_device_url a txn)"

definition room_send_url :: "api \<Rightarrow> string \<Rightarrow> string \<Rightarrow> string \<Rightarrow> string" where
  "room_send_url a room kind txn =
     api_url a (''/_matrix/client/v3/rooms/'' @ encode_segment room @ ''/send/'' @ encode_segment kind @ ''/'' @ encode_segment txn)"

lemmas auth_requests = get_auth_def post_auth_def put_auth_def get_request_def post_request_def

lemma key_calls [requests]:
  "keeps (sent_only (key_request a room) d0) (on_net (joined_members N a room))"
  "keeps (sent_only (key_request a room) d0) (on_net (keys_query N a users))"
  "keeps (sent_only (key_request a room) d0) (on_net (keys_claim N a body))"
  "keeps (sent_only (key_request a room) d0) (on_net (send_to_device N a ''m.room.encrypted'' txn msgs))"
  unfolding joined_members_def keys_query_def keys_claim_def send_to_device_def
  by (rule keeps_fetch; force simp: key_request_def to_device_url_def auth_requests)+

lemma share_requests: "keeps (sent_only (key_request a room) d0) (share_room_key E a sess room)"
proof -
  have olm: "keeps (sent_only (key_request a room) d0) (open_olm E a need)" for need
    unfolding open_olm_def by (intro keeps_if keeps_succeed keeps_and_then requests)
  have tail: "keeps (sent_only (key_request a room) d0) (case x of (devices, need) \<Rightarrow>
      and_then (open_olm E a need) (\<lambda>_.
      and_then (with_crypto (f devices)) (\<lambda>messages.
      and_then (total (new_txn E t)) (\<lambda>txn. on_net (send_to_device (net E) a ''m.room.encrypted'' txn messages)))))" for x f t
    unfolding case_prod_unfold by (intro keeps_and_then olm requests)
  show ?thesis
    unfolding share_room_key_def learn_devices_def by (intro keeps_and_then tail requests)
qed

text \<open>A key counts as shared only when the server took the to-device messages.\<close>

lemma share_done:
  assumes "share_room_key E a sess room d = (Inr x, d')"
  shows "\<exists>rqs txn rq res. w_log (d_world d') = w_log (d_world d) @ rqs @ [rq] \<and> list_all (key_request a room) rqs
    \<and> rq_url rq = to_device_url a txn \<and> rq_method rq = ''PUT''
    \<and> answer (net E) (w_log (d_world d')) = Inr res \<and> 200 \<le> rs_status res \<and> rs_status res < 300"
proof -
  obtain messages txn d1 where last: "on_net (send_to_device (net E) a ''m.room.encrypted'' txn messages) d1 = (Inr x, d')"
    and pre: "sent_only (key_request a room) d d1"
  proof -
    obtain m d2 q d3 dn d4 u d5 msgs d6 txn d7 where steps:
      "on_net (joined_members (net E) a room) d = (Inr m, d2)" "on_net (keys_query (net E) a m) d2 = (Inr q, d3)"
      "learn_devices E q d3 = (Inr dn, d4)" "open_olm E a (snd dn) d4 = (Inr u, d5)"
      "with_crypto (total (encrypt_room_key_to_devices (vz E) room (fst dn) (user_id sess) (device_id sess))) d5 = (Inr msgs, d6)"
      "total (new_txn E ''kmatrixkey'') d6 = (Inr txn, d7)"
      "on_net (send_to_device (net E) a ''m.room.encrypted'' txn msgs) d7 = (Inr x, d')"
      using assms by (fastforce simp: share_room_key_def and_then_Inr case_prod_unfold)
    let ?P = "sent_only (key_request a room) d"
    have olm: "keeps ?P (open_olm E a need)" for need
      unfolding open_olm_def by (intro keeps_if keeps_succeed keeps_and_then requests)
    have learn: "keeps ?P (learn_devices E q)" unfolding learn_devices_def by (rule requests)
    have "?P d2" using keepsD [OF key_calls(1), of a room d d "net E"] steps(1) by simp
    then have "?P d3" using keepsD [OF key_calls(2), of a room d d2 "net E" m] steps(2) by simp
    then have "?P d4" using keepsD [OF learn, of d3] steps(3) by simp
    then have "?P d5" using keepsD [OF olm, of d4 "snd dn"] steps(4) by simp
    then have "?P d6" using keepsD [OF keeps_steps(1), of "key_request a room" d d5] steps(5) by (metis snd_conv)
    then have "?P d7" using keepsD [OF keeps_steps(3), of "key_request a room" d d6 E "''kmatrixkey''"] steps(6) by simp
    with steps(7) show ?thesis by (rule that)
  qed
  obtain w' where w: "send_to_device (net E) a ''m.room.encrypted'' txn messages (d_world d1) = (Inr x, w')" "d_world d' = w'"
    using last by (auto simp: on_net_def Let_def split: prod.splits)
  from fetch_ok [OF w(1) [unfolded send_to_device_def]] pre show ?thesis
    unfolding w(2) sent_only_def
    by (fastforce simp: to_device_url_def auth_requests discard_def check_status_def split: if_splits)
qed

lemma send_event_log:
  assumes "on_net (send_event N a room k txn content) d = (r, d')"
  shows "w_log (d_world d') = w_log (d_world d) \<and> (\<exists>e. r = Inl e)
    \<or> (\<exists>rq. w_log (d_world d') = w_log (d_world d) @ [rq] \<and> rq_method rq = ''PUT''
         \<and> rq_url rq = room_send_url a room k txn \<and> rq_body rq = Some (json_print (net_json N) content))"
proof (cases "api_token a")
  case None
  then have "send_event N a room k txn content w = (Inl (Msg ''not authenticated: no access token''), w)" for w
    by (simp add: send_event_def put_auth_def api_bearer_def fetch_def send_request_def and_then_def)
  with assms show ?thesis by (auto simp: on_net_def)
next
  case (Some t)
  then obtain q where q: "put_auth a (room_send_url a room k txn) (json_print (net_json N) content) = Inr q"
    "rq_method q = ''PUT''" "rq_url q = room_send_url a room k txn" "rq_body q = Some (json_print (net_json N) content)"
    by (simp add: put_auth_def post_request_def api_bearer_def)
  have "w_log (snd (send_event N a room k txn content w)) = w_log w @ [q]" for w
    using q(1) by (simp add: send_event_def room_send_url_def fetch_def send_request_def call_def and_then_def Let_def
        split: sum.split)
  moreover have "d_world d' = snd (send_event N a room k txn content (d_world d))"
    using assms by (auto simp: on_net_def Let_def split: prod.splits)
  ultimately show ?thesis using q by auto
qed

text \<open>The last two steps: encrypting, and the one request that carries the event.\<close>

lemma encrypt_and_send:
  assumes "and_then (with_crypto (total (encrypt (vz E) room p dev)))
      (\<lambda>enc. on_net (send_event (net E) a room k txn enc)) d = (r, d')"
  shows "w_log (d_world d') = w_log (d_world d) \<and> (\<exists>e. r = Inl e)
    \<or> (\<exists>rq cs. w_log (d_world d') = w_log (d_world d) @ [rq] \<and> rq_method rq = ''PUT''
         \<and> rq_url rq = room_send_url a room k txn
         \<and> rq_body rq = Some (json_print (net_json (net E)) (fst (encrypt (vz E) room p dev cs))))"
proof (cases "d_crypto d")
  case None
  with assms show ?thesis by (auto simp: and_then_def with_crypto_def)
next
  case (Some c)
  let ?d1 = "snd (with_crypto (total (encrypt (vz E) room p dev)) d)"
  have "with_crypto (total (encrypt (vz E) room p dev)) d = (Inr (fst (encrypt (vz E) room p dev (c, d_store d))), ?d1)"
    by (simp add: with_crypto_def Some on_crypto_def total_def case_prod_unfold Let_def)
  with assms have "on_net (send_event (net E) a room k txn (fst (encrypt (vz E) room p dev (c, d_store d)))) ?d1 = (r, d')"
    by simp
  from send_event_log [OF this] show ?thesis by auto
qed

text \<open>An encrypted send from one log of requests to another.\<close>

definition goes_out_encrypted ::
  "'k daemon_lib \<Rightarrow> api \<Rightarrow> string \<Rightarrow> json \<Rightarrow> bool \<Rightarrow> http_request list \<Rightarrow> http_request list \<Rightarrow> bool" where
  "goes_out_encrypted E a room content shared log log' \<longleftrightarrow>
     (\<exists>rqs rq txn dev cs res.
          log' = log @ rqs @ [rq] \<and> list_all (key_request a room) rqs
          \<and> rq_method rq = ''PUT'' \<and> rq_url rq = room_send_url a room ''m.room.encrypted'' txn
          \<and> rq_body rq = Some (json_print (net_json (net E))
                (fst (encrypt (vz E) room (message_envelope room content) dev cs)))
          \<and> (shared
             \<or> rqs \<noteq> [] \<and> (\<exists>t. rq_url (last rqs) = to_device_url a t)
                \<and> answer (net E) (log @ rqs) = Inr res \<and> 200 \<le> rs_status res \<and> rs_status res < 300))"

lemma share_before_send:
  assumes "(if has_outbound room c then succeed () else share_room_key E a sess room) d = (q, d')"
  shows "sent_only (key_request a room) d d'"
    and "q = Inr () \<Longrightarrow> \<exists>rqs. w_log (d_world d') = w_log (d_world d) @ rqs \<and> list_all (key_request a room) rqs
      \<and> (has_outbound room c \<or> rqs \<noteq> [] \<and> (\<exists>t. rq_url (last rqs) = to_device_url a t)
          \<and> (\<exists>res. answer (net E) (w_log (d_world d) @ rqs) = Inr res \<and> 200 \<le> rs_status res \<and> rs_status res < 300))"
proof -
  have "keeps (sent_only (key_request a room) d) (if has_outbound room c then succeed () else share_room_key E a sess room)"
    by (intro keeps_if keeps_succeed share_requests)
  from keepsD [OF this, of d] show only: "sent_only (key_request a room) d d'" using assms by (simp add: sent_only_same)
  then obtain rqs where rqs: "w_log (d_world d') = w_log (d_world d) @ rqs" "list_all (key_request a room) rqs"
    by (auto simp: sent_only_def)
  assume "q = Inr ()"
  then have "\<not> has_outbound room c \<Longrightarrow> share_room_key E a sess room d = (Inr (), d')" using assms by simp
  from share_done [OF this] rqs show "\<exists>rqs. w_log (d_world d') = w_log (d_world d) @ rqs \<and> list_all (key_request a room) rqs
      \<and> (has_outbound room c \<or> rqs \<noteq> [] \<and> (\<exists>t. rq_url (last rqs) = to_device_url a t)
          \<and> (\<exists>res. answer (net E) (w_log (d_world d) @ rqs) = Inr res \<and> 200 \<le> rs_status res \<and> rs_status res < 300))"
    by fastforce
qed

lemma send_encrypted_log:
  assumes "d_crypto d = Some c" "send_encrypted E a sess room txn content d = (r, d')"
  shows "sent_only (key_request a room) d d' \<and> (\<exists>e. r = Inl e)
    \<or> goes_out_encrypted E a room content (has_outbound room c) (w_log (d_world d)) (w_log (d_world d'))"
proof -
  let ?share = "if has_outbound room c then succeed () else share_room_key E a sess room"
  let ?rest = "and_then (with_crypto (total (encrypt (vz E) room (message_envelope room content) (device_id sess))))
      (\<lambda>enc. on_net (send_event (net E) a room ''m.room.encrypted'' txn enc))"
  obtain q d2 where q: "?share d = (q, d2)" by force
  have run: "and_then ?share (\<lambda>_. ?rest) d = (r, d')" using assms by (simp add: send_encrypted_def)
  show ?thesis
  proof (cases q)
    case (Inl e)
    then show ?thesis using share_before_send(1) [OF q] run q by (auto simp: and_then_def)
  next
    case (Inr u)
    then have rest: "?rest d2 = (r, d')" using run q by (simp add: and_then_def)
    from Inr share_before_send(2) [OF q] obtain rqs where rqs: "w_log (d_world d2) = w_log (d_world d) @ rqs"
      "list_all (key_request a room) rqs" and shared: "has_outbound room c \<or> rqs \<noteq> [] \<and> (\<exists>t. rq_url (last rqs) = to_device_url a t)
          \<and> (\<exists>res. answer (net E) (w_log (d_world d) @ rqs) = Inr res \<and> 200 \<le> rs_status res \<and> rs_status res < 300)" by auto
    from encrypt_and_send [OF rest] show ?thesis
    proof
      assume "w_log (d_world d') = w_log (d_world d2) \<and> (\<exists>e. r = Inl e)"
      then show ?thesis using rqs by (auto simp: sent_only_def)
    next
      assume "\<exists>rq cs. w_log (d_world d') = w_log (d_world d2) @ [rq] \<and> rq_method rq = ''PUT''
         \<and> rq_url rq = room_send_url a room ''m.room.encrypted'' txn
         \<and> rq_body rq = Some (json_print (net_json (net E))
               (fst (encrypt (vz E) room (message_envelope room content) (device_id sess) cs)))"
      with rqs shared show ?thesis unfolding goes_out_encrypted_def by (intro disjI2) fastforce
    qed
  qed
qed

text \<open>
  C1: A message to an encrypted room never leaves in the clear. Whatever the server answers and
  wherever it stops, sending to such a room makes only the requests that share the room key, and
  after them at most one that carries an event: a PUT of type \<open>m.room.encrypted\<close> whose body is the
  printed output of \<open>encrypt\<close>. When no session existed before, that request follows a key share the
  server has accepted.
\<close>

theorem encrypted_room_never_in_clear:
  assumes "room_encrypted E room (d_store d) = Inr True" "d_api d = Some a"
  shows "case do_send E room body d of (r, d') \<Rightarrow>
     sent_only (key_request a room) d d' \<and> (\<exists>e. r = Inl e)
     \<or> (\<exists>rqs rq txn dev cs res.
          w_log (d_world d') = w_log (d_world d) @ rqs @ [rq] \<and> list_all (key_request a room) rqs
          \<and> rq_method rq = ''PUT'' \<and> rq_url rq = room_send_url a room ''m.room.encrypted'' txn
          \<and> rq_body rq = Some (json_print (net_json (net E))
                (fst (encrypt (vz E) room (message_envelope room (text_content body)) dev cs)))
          \<and> ((\<exists>c. d_crypto d = Some c \<and> has_outbound room c)
             \<or> rqs \<noteq> [] \<and> (\<exists>t. rq_url (last rqs) = to_device_url a t)
                \<and> answer (net E) (w_log (d_world d) @ rqs) = Inr res \<and> 200 \<le> rs_status res \<and> rs_status res < 300))"
proof (cases "d_session d")
  case None
  then show ?thesis by (simp add: do_send_def assms(2))
next
  case (Some sess)
  obtain txn d1 where d1: "new_txn E ''kmatrix'' d = (txn, d1)" by force
  have log1: "w_log (d_world d1) = w_log (d_world d)" using log_new_txn [of E "''kmatrix''" d] by (simp add: d1)
  have c1: "d_crypto d1 = d_crypto d" using d1 by (auto simp: new_txn_def on_net_def Let_def split: prod.splits)
  have run: "do_send E room body d = send_encrypted E a sess room txn (text_content body) d1"
    using assms Some d1 by (simp add: do_send_def and_then_def read_store_def total_def)
  obtain r d' where r: "send_encrypted E a sess room txn (text_content body) d1 = (r, d')" by force
  show ?thesis
  proof (cases "d_crypto d")
    case None
    then show ?thesis by (simp add: run send_encrypted_def c1 sent_only_same log1)
  next
    case (Some c)
    have only: "sent_only (key_request a room) d d' = sent_only (key_request a room) d1 d'" by (simp add: sent_only_def log1)
    from send_encrypted_log [OF _ r, of c] Some c1 show ?thesis
      unfolding run r prod.case only goes_out_encrypted_def log1 by auto
  qed
qed

theorem encrypted_room_never_in_clear_witness:
  "case do_send demo_env ''r'' ''hi'' demo_daemon of (r, d') \<Rightarrow>
     r = Inr ''$e'' \<and> (\<exists>rqs rq txn. w_log (d_world d') = rqs @ [rq] \<and> rq_url rq = room_send_url demo_api ''r'' ''m.room.encrypted'' txn)"
proof -
  have enc: "room_encrypted demo_env ''r'' (d_store demo_daemon) = Inr True"
    by (simp add: room_encrypted_def demo_rooms demo_room_def)
  then have enc': "room_encrypted demo_env ''r'' demo_store = Inr True" by simp
  have "fst (do_send demo_env ''r'' ''hi'' demo_daemon) = Inr ''$e''"
    by (simp add: do_send_def and_then_def read_store_def enc' total_def new_txn_def on_net_def now_ms_def Let_def
        send_encrypted_def has_outbound_def with_crypto_def on_crypto_def succeed_def case_prod_unfold send_event_def
        fetch_def put_auth_def api_bearer_def demo_api_def send_request_def call_def ok_net_def finish_def check_status_def
        read_json_def from_str_def ok_json_def obj_def bt_collect_def field_def dec_str_def)
  then show ?thesis
    using encrypted_room_never_in_clear [of demo_env "''r''" demo_daemon demo_api "''hi''", OF enc] by fastforce
qed

end
