(* ===== verification/Steps.thy ===== *)
theory Steps
  imports Ipc Footprint Crypto_Restart
begin

text \<open>
  The steps an operation of the daemon is made of. What it writes to the store outside the crypto
  component are \<open>daemon_write\<close>s, and what it does to the crypto state is one of the operations of
  \<open>run_crypto\<close> at a time (\<open>crypto_step\<close>): each way the code uses the two is shown to be of this kind.
\<close>

section \<open>Writes outside the crypto component\<close>

fun daemon_write :: "store_write \<Rightarrow> bool" where
  "daemon_write (SetMeta k v) \<longleftrightarrow> k \<noteq> PICKLE_KEY_META \<and> k \<noteq> BACKUP_KEY_META \<and> k \<noteq> SESSION_KEY \<and> k \<noteq> ENCRYPTED_FLAG"
| "daemon_write (PutPickle k i x p) \<longleftrightarrow> False"
| "daemon_write Clear \<longleftrightarrow> False"
| "daemon_write _ \<longleftrightarrow> True"

lemma plain_metas [simp]:
  "daemon_write (SetMeta ''sync_token'' v)" "daemon_write (SetMeta ''device_keys_published'' v)"
  "daemon_write (SetMeta ''backup_version'' v)" "daemon_write (SetMeta ''room_names_cursor'' v)"
  "daemon_write (SetMeta ''room_names_schema'' v)"
  by (simp_all add: PICKLE_KEY_META_def BACKUP_KEY_META_def SESSION_KEY_def ENCRYPTED_FLAG_def)

lemma wrote_inserts [footprint]:
  "wrote L daemon_write s t \<Longrightarrow> wrote L daemon_write s (fold (insert_message L) msgs t)"
  by (induction msgs arbitrary: t) (simp_all add: footprint)

lemma wrote_store_room [footprint]:
  "wrote (cipher E) daemon_write s t \<Longrightarrow> wrote (cipher E) daemon_write s (store_room E msgs r i prev t)"
  by (simp add: store_room_def Let_def footprint split: option.split)

lemma wrote_progress [footprint]:
  "wrote (cipher E) daemon_write s t \<Longrightarrow> wrote (cipher E) daemon_write s (record_progress E got b t)"
  by (simp add: record_progress_def Let_def footprint del: daemon_write.simps split: option.split)

section \<open>Steps of the crypto state\<close>

definition crypto_step :: "'k crypto_lib \<Rightarrow> ('k cs \<Rightarrow> 'a \<times> 'k cs) \<Rightarrow> bool" where
  "crypto_step V f \<longleftrightarrow> (\<forall>cs. \<exists>op. snd (f cs) = run_crypto V op cs)"

named_theorems kept \<open>an operation keeps every predicate of a frame\<close>

lemma crypto_stepI: "(\<And>cs. snd (f cs) = run_crypto V (op cs) cs) \<Longrightarrow> crypto_step V f"
  unfolding crypto_step_def by blast

lemma snd_in_memory [simp]: "snd (in_memory f cs) = (snd (f (fst cs)), snd cs)"
  by (simp add: in_memory_def case_prod_unfold Let_def)

lemma snd_total [simp]: "snd (total f s) = snd (f s)"
  by (simp add: total_def case_prod_unfold Let_def)

lemma steps_in_memory [kept]:
  "crypto_step V (in_memory (decrypt V i t))"
  "crypto_step V (in_memory (keys_upload_body V u dev n b))"
  "crypto_step V (in_memory (secret_request V dev name))"
  "crypto_step V (in_memory (total (handle_verification V u dev sender kind content)))"
  "crypto_step V (in_memory (total (confirm_verification V u dev transaction ok)))"
  "crypto_step V (in_memory (\<lambda>c. (g c, remember_devices ds c)))"
  by (rule crypto_stepI [where op = "\<lambda>_. Decrypt i t"], simp)
    (rule crypto_stepI [where op = "\<lambda>_. KeysUploadBody u dev n b"], simp,
     rule crypto_stepI [where op = "\<lambda>_. SecretRequest dev name"], simp,
     rule crypto_stepI [where op = "\<lambda>_. Verify u dev (Receive sender kind content)"], simp,
     rule crypto_stepI [where op = "\<lambda>_. Verify u dev (Confirm transaction ok)"], simp,
     rule crypto_stepI [where op = "\<lambda>_. RememberDevices ds"], simp)

lemma steps_with_store [kept]:
  "crypto_step V (handle_to_device V events)"
  "crypto_step V (\<lambda>cs. (x, mark_published V cs))"
  "crypto_step V (\<lambda>cs. (x, create_outbound_olm V claim ds cs))"
  "crypto_step V (total (encrypt_room_key_to_devices V room ds u dev))"
  "crypto_step V (total (encrypt V room event dev))"
  "crypto_step V (set_backup_key V key expected)"
  "crypto_step V (set_backup_key_base64 V secret shared)"
  "crypto_step V (import_backup_session V room i entry)"
  by (rule crypto_stepI [where op = "\<lambda>_. HandleToDevice events"], simp)
    (rule crypto_stepI [where op = "\<lambda>_. MarkPublished"], simp,
     rule crypto_stepI [where op = "\<lambda>_. CreateOutboundOlm claim ds"], simp,
     rule crypto_stepI [where op = "\<lambda>_. EncryptRoomKey room ds u dev"], simp,
     rule crypto_stepI [where op = "\<lambda>_. Encrypt room event dev"], simp,
     rule crypto_stepI [where op = "\<lambda>_. SetBackupKey key expected"], simp,
     rule crypto_stepI [where op = "\<lambda>_. SetBackupKeyBase64 secret shared"], simp,
     rule crypto_stepI [where op = "\<lambda>_. ImportBackupSession room i entry"], simp)

end
