(* ===== verification/Frames.thy ===== *)
theory Frames
  imports Steps
begin

text \<open>
  What the operations of the daemon keep true. \<open>daemon_frame\<close> is the contract of a predicate that
  every step of an operation keeps: an exchange over the network, a write to the store outside the
  crypto component, an operation of that component, an event. Every operation of the daemon takes
  these steps and no other, and so keeps it. \<open>account_frame\<close> adds the steps of logging in and out and
  of the sync loop. The account is an instance of the first; the subscribers, the flag that keeps the
  daemon running and its credentials are one of the second.
\<close>

locale daemon_frame =
  fixes E :: "'k daemon_lib" and I :: "'k daemon \<Rightarrow> bool"
  assumes world: "I d \<Longrightarrow> I (d\<lparr>d_world := w\<rparr>)"
    and written: "I d \<Longrightarrow> daemon_write u \<Longrightarrow> I (d\<lparr>d_store := run_write (cipher E) u (d_store d)\<rparr>)"
    and crypto: "I d \<Longrightarrow> d_crypto d = Some c \<Longrightarrow> run_crypto (vz E) op (c, d_store d) = (c', s')
      \<Longrightarrow> I (d\<lparr>d_crypto := Some c', d_store := s'\<rparr>)"
    and event: "I d \<Longrightarrow> I (publish E ev d)"

locale account_frame = daemon_frame +
  assumes client: "I d \<Longrightarrow> I (d\<lparr>d_api := a\<rparr>)"
    and status: "I d \<Longrightarrow> I (d\<lparr>d_state := st, d_error := e\<rparr>)"
    and draws: "I d \<Longrightarrow> I (d\<lparr>d_draws := n\<rparr>)"
    and wake: "I d \<Longrightarrow> I (d\<lparr>d_wake := b\<rparr>)"
    and forget: "I d \<Longrightarrow> I (d\<lparr>d_crypto := None, d_store := clear (d_store d), d_session := None\<rparr>)"
    and begins: "I d \<Longrightarrow> load_or_create (vz E) n (save_session (cipher E) (js E) new (clear (d_store d))) = (Inr c, s)
      \<Longrightarrow> I (d\<lparr>d_store := s, d_crypto := Some c, d_session := Some new\<rparr>)"
    and fails: "I d \<Longrightarrow> load_or_create (vz E) n (save_session (cipher E) (js E) new (clear (d_store d))) = (Inl err, s)
      \<Longrightarrow> I (d\<lparr>d_store := s\<rparr>)"

context daemon_frame begin

lemma on_net [kept]: "I d \<Longrightarrow> I (snd (on_net f d))"
  by (simp add: on_net_def case_prod_unfold Let_def world)

lemma writes:
  assumes "wrote (cipher E) daemon_write r s" "r = d_store d" "I d"
  shows "I (d\<lparr>d_store := s\<rparr>)"
  using assms
proof induction
  case (more r s w)
  then have "I (d\<lparr>d_store := s\<rparr>)" by simp
  from written [OF this more.hyps(2)] show ?case by simp
qed simp

lemma on_store: "I d \<Longrightarrow> (\<And>s. wrote (cipher E) daemon_write s (f s)) \<Longrightarrow> I (on_store f d)"
  unfolding on_store_def by (rule writes [OF _ refl])

lemma store_writes [kept]:
  "I d \<Longrightarrow> I (on_store (upsert_room (cipher E) r) d)"
  "I d \<Longrightarrow> I (on_store (set_back_token i tok fin) d)"
  "I d \<Longrightarrow> I (on_store (insert_message (cipher E) m) d)"
  "I d \<Longrightarrow> I (on_store (upgrade_message (cipher E) e body) d)"
  "I d \<Longrightarrow> I (on_store (\<lambda>s. snd (record_edit (cipher E) e ts body s)) d)"
  "I d \<Longrightarrow> I (on_store (remember_members (cipher E) i names) d)"
  "I d \<Longrightarrow> I (on_store (store_room E msgs r i prev) d)"
  "I d \<Longrightarrow> I (on_store (record_progress E got b) d)"
  "I d \<Longrightarrow> I (on_store (set_meta (cipher E) ''sync_token'' v) d)"
  "I d \<Longrightarrow> I (on_store (set_meta (cipher E) ''device_keys_published'' v) d)"
  "I d \<Longrightarrow> I (on_store (set_meta (cipher E) ''backup_version'' v) d)"
  by (rule on_store, assumption, intro footprint wrote.none; simp del: daemon_write.simps(1); simp)+

lemma on_crypto [kept]: "crypto_step (vz E) f \<Longrightarrow> I d \<Longrightarrow> d_crypto d = Some c \<Longrightarrow> I (snd (on_crypto f c d))"
proof -
  assume f: "crypto_step (vz E) f" and d: "I d" "d_crypto d = Some c"
  then obtain op where "snd (f (c, d_store d)) = run_crypto (vz E) op (c, d_store d)"
    unfolding crypto_step_def by blast
  then show ?thesis
    using crypto [OF d, of op "fst (snd (f (c, d_store d)))" "snd (snd (f (c, d_store d)))"]
    by (simp add: on_crypto_def case_prod_unfold Let_def)
qed

lemma learn [kept]: "I d \<Longrightarrow> d_crypto d = Some c \<Longrightarrow> I (d\<lparr>d_crypto := Some (remember_devices ds c)\<rparr>)"
  using crypto [of d c "RememberDevices ds" "remember_devices ds c" "d_store d"] by simp

lemma with_crypto [kept]: "crypto_step (vz E) f \<Longrightarrow> I d \<Longrightarrow> I (snd (with_crypto f d))"
  by (simp add: with_crypto_def on_crypto split: option.split)

lemma keep_crypto [kept]: "crypto_step (vz E) f \<Longrightarrow> keeps I (with_crypto f)"
  by (intro keepsI with_crypto)

lemma keep_steps [kept]:
  "keeps I (on_net g)" "keeps I (read_store h)" "keeps I (total (new_txn E t))"
proof -
  show "keeps I (on_net g)" by (intro keepsI on_net)
  show "keeps I (read_store h)" by (rule keepsI) (simp add: read_store_def)
  have "I (snd (new_txn E t d))" if "I d" for d using that unfolding new_txn_def by (rule on_net)
  then show "keeps I (total (new_txn E t))" by (intro keepsI) simp
qed

lemma events [kept]:
  "I d \<Longrightarrow> I (publish_rooms E rooms d)" "I d \<Longrightarrow> I (publish_messages E i msgs d)"
  by (simp_all add: publish_rooms_def publish_messages_def event)

lemma new_txn [kept]: "I d \<Longrightarrow> I (snd (new_txn E t d))"
  unfolding new_txn_def by (rule on_net)

text \<open>Messages.\<close>

lemma record_if_edit [kept]: "I d \<Longrightarrow> I (snd (record_if_edit E ts content d))"
  by (simp add: record_if_edit_def Let_def kept split: option.split)

lemma decrypt_event [kept]: "I d \<Longrightarrow> I (snd (decrypt_event E sid ct d))"
  unfolding decrypt_event_def by (intro with_crypto kept)

lemma convert_event [kept]: "I d \<Longrightarrow> I (snd (convert_event E room ev sess d))"
  by (simp add: convert_event_def convert_plain_def convert_encrypted_def case_prod_unfold Let_def kept
      split: option.split sum.split)

lemma store_page [kept]: "I d \<Longrightarrow> I (snd (store_page E room sess evs d))"
proof (induction evs arbitrary: d)
  case (Cons ev evs)
  obtain m d' where r: "convert_event E room ev sess d = (m, d')" by force
  have "I d'" using convert_event [OF Cons.prems, of room ev sess] by (simp add: r)
  then show ?case by (cases m) (simp_all add: r case_prod_unfold Let_def Cons.IH kept)
qed simp

lemma import_sessions [kept]: "keeps I (import_sessions E a ver room sids)"
proof (induction sids)
  case (Cons sid sids)
  have again: "I d \<Longrightarrow> I (snd (and_then (import_sessions E a ver room sids) (\<lambda>n. succeed (Suc n)) d))" for d
    by (rule keepsD [OF keeps_and_then [OF Cons.IH]]) simp_all
  show ?case
  proof
    fix d assume d: "I d"
    obtain r d1 where r: "on_net (backup_session (net E) a ver room sid) d = (r, d1)" by force
    have d1: "I d1" using on_net [OF d] r by (metis snd_conv)
    obtain q d2 where q: "on_crypto (import_backup_session (vz E) room sid (the (projr r))) (the (d_crypto d1)) d1 = (q, d2)"
      by force
    have d2: "I d2" if "d_crypto d1 = Some c" for c
      using on_crypto [OF steps_with_store(8) d1 that, of room sid "the (projr r)"] that q by simp
    show "I (snd (import_sessions E a ver room (sid # sids) d))"
      using keepsD [OF Cons.IH d1] keepsD [OF Cons.IH d2] again [OF d2] d1 q
      by (cases q) (auto simp: r split: sum.split option.split bool.split)
  qed
qed (simp add: keeps_def)

lemma retry_messages [kept]: "keeps I (retry_messages E pending)"
proof (induction pending)
  case (Cons p pending)
  obtain e sid ct where p: "p = (e, sid, ct)" by (cases p)
  have again: "I d \<Longrightarrow> I (snd (and_then (retry_messages E pending) (\<lambda>n. succeed (Suc n)) d))" for d
    by (rule keepsD [OF keeps_and_then [OF Cons.IH]]) simp_all
  show ?case
  proof
    fix d assume d: "I d"
    obtain r d1 where r: "decrypt_event E sid ct d = (r, d1)" by force
    have "I d1" using decrypt_event [OF d, of sid ct] by (simp add: r)
    with d show "I (snd (retry_messages E (p # pending) d))"
      by (auto simp: p r keepsD [OF Cons.IH] intro!: again store_writes split: sum.split option.split)
  qed
qed (simp add: keeps_def)

lemma restore_room [kept]: "keeps I (restore_room E a ver room)"
proof -
  have "keeps I (if pending = [] then succeed 0 else and_then (import_sessions E a ver room (wanted_sessions pending))
      (\<lambda>imported. if imported = 0 then succeed 0 else retry_messages E pending))" for pending
    by (cases "pending = []") (auto intro!: keeps_and_then kept)
  then show ?thesis unfolding restore_room_def by (intro keeps_and_then kept)
qed

lemma try_restore [kept]: "I d \<Longrightarrow> I (try_restore_room E room d)"
  using keepsD [OF restore_room] by (auto simp: try_restore_room_def split: option.split sum.split)

lemma lookup_profiles [kept]: "I d \<Longrightarrow> I (snd (lookup_profiles E a users found d))"
proof (induction users arbitrary: found d)
  case (Cons u users)
  obtain r d' where r: "on_net (profile_name (net E) a u) d = (r, d')" by force
  have "I d'" using on_net [OF Cons.prems] r by (metis snd_conv)
  with Cons.IH r show ?case by (simp split: sum.split option.split)
qed simp

lemma name_visible_senders [kept]: "I d \<Longrightarrow> I (name_visible_senders E room d)"
  by (simp add: name_visible_senders_def case_prod_unfold Let_def kept split: option.split sum.split)

lemma refetch_events [kept]: "I d \<Longrightarrow> I (snd (refetch_events E a sess room is d))"
proof (induction "is" arbitrary: d)
  case (Cons i "is")
  obtain r d1 where r: "on_net (api_event (net E) a room i) d = (r, d1)" by force
  have "I d1" using on_net [OF Cons.prems] r by (metis snd_conv)
  with Cons.IH r show ?case
    by (simp del: store_page.simps add: case_prod_unfold Let_def kept Cons.prems split: sum.split)
qed simp

lemma refetch_placeholders [kept]: "keeps I (refetch_placeholders E room)"
  by (rule keepsI) (simp add: refetch_placeholders_def total_def case_prod_unfold Let_def kept split: option.split)

lemma repair_room [kept]:
  assumes "I d"
  shows "I (repair_room E room d)"
  using keepsD [OF refetch_placeholders name_visible_senders [OF try_restore [OF assms]], of room room room]
  by (auto simp: repair_room_def kept split: prod.split sum.split)

lemma do_load_older [kept]: "keeps I (do_load_older E room limit)"
proof
  fix d assume d: "I d"
  have page: "on_net f d = (q, d1) \<Longrightarrow> I d1" for f :: "world \<Rightarrow> (error + room_event list \<times> string option) \<times> world" and q d1
    using on_net [OF d] by (metis snd_conv)
  show "I (snd (do_load_older E room limit d))"
    using d by (auto simp: do_load_older_def case_prod_unfold Let_def page intro!: kept
        split: option.split sum.split prod.split dest!: page)
qed

end

text \<open>Verification and secrets.\<close>

context daemon_frame begin

lemma own_devices: "own_devices E a sess d = (r, d') \<Longrightarrow> I d \<Longrightarrow> I d'"
  using on_net by (metis own_devices_def snd_conv)

lemma send_quietly [kept]: "I d \<Longrightarrow> I (send_quietly E a k pre msgs d)" "I d \<Longrightarrow> I (send_to_others E a sess pre ds c d)"
  by (simp_all add: send_to_others_def send_quietly_def case_prod_unfold Let_def kept)

lemma send_steps [kept]: "I d \<Longrightarrow> I (send_steps E a sess steps d)"
  by (induction steps arbitrary: d) (auto simp: kept)

lemma request_backup_secret [kept]:
  assumes "I d"
  shows "I (request_backup_secret E a sess d)"
proof -
  obtain r d1 where r: "own_devices E a sess d = (r, d1)" by force
  have "I d1" by (rule own_devices [OF r assms])
  with assms show ?thesis
    by (simp add: request_backup_secret_def r case_prod_unfold Let_def kept split: sum.split option.split)
qed

lemma handle_secret [kept]:
  assumes "I d"
  shows "I (handle_secret E a sess outcome d)"
proof -
  obtain r d1 where r: "on_net (backup_version (net E) a) d = (r, d1)" by force
  have d1: "I d1" using on_net [OF assms] r by (metis snd_conv)
  have adopt: "d_crypto d1 = Some c \<Longrightarrow> I (snd (adopt_secret E x y c d1))" for x y c
    by (simp add: adopt_secret_def case_prod_unfold Let_def kept d1 split: sum.split option.split)
  have ann: "I d2 \<Longrightarrow> own_devices E a sess (publish E ev d2) = (q, d3) \<Longrightarrow> I d3" for d2 ev q d3
    using own_devices event by blast
  show ?thesis
  proof (cases "d_crypto d1")
    case None
    with assms d1 show ?thesis by (simp add: handle_secret_def r)
  next
    case (Some c)
    obtain q d2 where q: "adopt_secret E (secret_text outcome) (case r of Inr b \<Rightarrow> b | Inl e \<Rightarrow> None) c d1 = (q, d2)"
      by force
    have "I d2" using adopt [OF Some, of "secret_text outcome" "case r of Inr b \<Rightarrow> b | Inl e \<Rightarrow> None"] by (simp add: q)
    with assms Some q show ?thesis
      by (auto simp: handle_secret_def r Let_def kept dest: ann split: prod.split sum.split)
  qed
qed

lemma apply_verify_step [kept]: "I d \<Longrightarrow> I (apply_verify_step E a sess vs d)"
  by (simp add: apply_verify_step_def show_emoji_def case_prod_unfold Let_def kept event split: option.split)

lemma verify [kept]:
  "crypto_step (vz E) f \<Longrightarrow> keeps I (and_then (with_crypto f) (\<lambda>vs d2. (Inr (), apply_verify_step E a sess vs d2)))"
  by (intro keeps_and_then kept keepsI) (simp_all add: kept)

lemma handle_verification_event [kept]: "I d \<Longrightarrow> I (snd (handle_verification_event E a sess ev d))"
proof -
  assume d: "I d"
  have learn: "I (learn_own_devices E a sess d)"
    using d by (auto simp: learn_own_devices_def intro!: learn dest: own_devices split: prod.split sum.split option.split)
  with d show ?thesis
    by (simp add: handle_verification_event_def Let_def keepsD [OF verify] kept)
qed

lemma do_verify_confirm [kept]: "keeps I (do_verify_confirm E t b)"
  by (rule keepsI) (simp add: do_verify_confirm_def keepsD [OF verify] kept split: option.split)

text \<open>Sending and the recovery key.\<close>

lemma share_room_key [kept]: "keeps I (share_room_key E a sess room)"
proof -
  have olm: "keeps I (open_olm E a need)" for need
    by (cases "need = []") (auto simp: open_olm_def intro!: keeps_and_then kept)
  have learn: "keeps I (learn_devices E queried)" for queried
    unfolding learn_devices_def Let_def by (intro kept)
  show ?thesis
    unfolding share_room_key_def case_prod_unfold by (intro keeps_and_then learn olm kept)
qed

lemma do_send [kept]: "keeps I (do_send E room body)"
proof
  fix d assume d: "I d"
  have enc: "keeps I (send_encrypted E a sess room txn content)" for a sess txn content
  proof
    fix d assume d: "I d"
    have "keeps I (and_then (if b then succeed () else share_room_key E a sess room) (\<lambda>_.
        and_then (with_crypto (total (encrypt (vz E) room x dev))) (\<lambda>m. on_net (send_event (net E) a room k txn m))))"
      for b k x dev by (cases b) (auto intro!: keeps_and_then kept)
    from keepsD [OF this d] d show "I (snd (send_encrypted E a sess room txn content d))"
      by (simp add: send_encrypted_def split: option.split)
  qed
  have "keeps I (and_then (read_store g) (\<lambda>encrypted. and_then (total (new_txn E t)) (\<lambda>txn.
      if \<not> encrypted then on_net (send_event (net E) a room k txn c) else send_encrypted E a sess room txn c)))"
    for g t a k c sess
  proof (intro keeps_and_then kept)
    show "keeps I (if \<not> encrypted then on_net (send_event (net E) a room k txn c) else send_encrypted E a sess room txn c)"
      for encrypted txn by (cases encrypted) (simp_all add: enc kept)
  qed
  from keepsD [OF this] d show "I (snd (do_send E room body d))" by (simp add: do_send_def split: option.split)
qed

lemma do_backup_key [kept]: "keeps I (do_backup_key E key)"
proof
  fix d assume d: "I d"
  have rooms: "keeps I (restore_rooms E a ver rs)" for a ver rs
  proof (induction rs)
    case (Cons r rs)
    have "keeps I (and_then (restore_room E a ver (r_id r)) (\<lambda>n. and_then (restore_rooms E a ver rs) (\<lambda>k. succeed (n + k))))"
      by (intro keeps_and_then Cons.IH keeps_succeed kept)
    then show ?case by (simp add: keeps_def)
  qed (simp add: keeps_def)
  have last: "keeps I (\<lambda>d. and_then (read_store g) (\<lambda>rs. restore_rooms E a ver (take k rs))
      (on_store (set_meta (cipher E) ''backup_version'' v) d))" for g a ver k v
    by (rule keepsI, rule keepsD [OF keeps_and_then [OF keep_steps(2) rooms]], rule store_writes)
  have "keeps I (from_result r)" for r :: "backup_info result" by (rule keepsI) simp
  note rest = this
  show "I (snd (do_backup_key E key d))"
  proof (cases "d_api d")
    case (Some a)
    show ?thesis unfolding do_backup_key_def Some option.case
      by (rule keepsD [OF keeps_and_then [OF keep_steps(1) keeps_and_then [OF rest keeps_and_then [OF keep_crypto [OF steps_with_store(6)] last]]] d])
  qed (simp add: do_backup_key_def d)
qed

end

text \<open>A batch of the sync and the naming sweep.\<close>

context daemon_frame begin

lemma receive_to_device [kept]: "I d \<Longrightarrow> I (receive_to_device E a sess events d)"
proof -
  assume d: "I d"
  have secrets: "I d \<Longrightarrow> I (fold (handle_secret E a sess) xs d)" for xs d
    by (induction xs arbitrary: d) (simp_all add: kept)
  have verification: "I d \<Longrightarrow> I (fold (\<lambda>ev d. snd (handle_verification_event E a sess ev d)) xs d)" for xs d
    by (induction xs arbitrary: d) (simp_all add: kept)
  have "I (snd (receive_olm E xs d))" for xs
    using d by (simp add: receive_olm_def kept split: option.split)
  with d show ?thesis
    by (simp add: receive_to_device_def case_prod_unfold Let_def secrets verification)
qed

lemma convert_timeline [kept]: "I d \<Longrightarrow> I (snd (convert_timeline E i sess evs r d))"
proof (induction evs arbitrary: r d)
  case (Cons ev evs)
  obtain m d1 where m: "convert_event E i ev sess d = (m, d1)" by force
  have "I d1" using convert_event [OF Cons.prems, of i ev sess] by (simp add: m)
  then show ?case by (simp add: m case_prod_unfold Let_def Cons.IH)
qed simp

lemma sync_room [kept]: "keeps I (sync_room E sess i jr)"
  unfolding sync_room_def
  by (rule keeps_and_then [OF keep_steps(2)]) (rule keepsI, simp add: case_prod_unfold Let_def kept)

lemma sync_rooms [kept]: "keeps I (sync_rooms E sess joined)"
proof (induction joined)
  case (Cons j rest)
  obtain i jr where "j = (i, jr)" by force
  moreover have "keeps I (and_then (sync_room E sess i jr) (\<lambda>changed.
      and_then (sync_rooms E sess rest) (\<lambda>out. succeed ((i, changed) # out))))"
    by (intro keeps_and_then sync_room Cons.IH keeps_succeed)
  ultimately show ?case by (simp add: keeps_def)
qed (simp add: keeps_def)

lemma mark_uploaded [kept]: "I d \<Longrightarrow> I (mark_uploaded E d)"
  by (simp add: mark_uploaded_def Let_def kept split: option.split)

lemma maintain_otks [kept]: "keeps I (maintain_otks E a sess n)"
proof -
  have "I (snd (maintain_otks E a sess n d))" if d: "I d" for d
  proof -
    have body: "I (snd (upload_body E sess n b c d))" if "d_crypto d = Some c" for b c
      using d that by (simp add: upload_body_def kept)
    have "keeps I (and_then (on_net f) (\<lambda>_ d2. (Inr (), mark_uploaded E d2)))" for f :: "world \<Rightarrow> unit result \<times> world"
      by (intro keeps_and_then keep_steps keepsI) (simp add: kept)
    note upload = keepsD [OF this]
    have "I (snd (case upload_body E sess n b c d of (None, d1) \<Rightarrow> (Inr (), d1) | (Some body, d1) \<Rightarrow>
        and_then (on_net (keys_upload (net E) a body)) (\<lambda>_ d2. (Inr (), mark_uploaded E d2)) d1))"
      if "d_crypto d = Some c" for b c
      using body [OF that, of b] by (auto split: prod.split option.split intro!: upload)
    with d show ?thesis by (simp add: maintain_otks_def read_store_def and_then_def split: sum.split option.split)
  qed
  then show ?thesis by (rule keepsI)
qed

lemma publish_batch [kept]: "keeps I (publish_batch E changed)"
proof -
  have fold: "I d \<Longrightarrow> I (fold (\<lambda>(i, r, msgs) d. if msgs = [] then d else publish_messages E i msgs d) xs d)" for xs d
    by (induction xs arbitrary: d) (auto simp: kept)
  have "keeps I (and_then (read_store g) (\<lambda>rooms d. (Inr (), publish_rooms E rooms d)))" for g
    by (intro keeps_and_then keep_steps keepsI) (simp add: kept)
  then show ?thesis by (intro keepsI) (simp add: publish_batch_def Let_def fold keepsD)
qed

lemma process_sync [kept]: "keeps I (process_sync E a sess resp)"
proof -
  have "keeps I (and_then (sync_rooms E sess js) (\<lambda>changed d1. publish_batch E changed (snd (maintain_otks E a sess n
      (on_store (set_meta (cipher E) ''sync_token'' v) d1)))))" for js n v
    by (intro keeps_and_then sync_rooms keepsI keepsD [OF publish_batch] keepsD [OF maintain_otks] store_writes)
  then show ?thesis by (intro keepsI) (simp add: process_sync_def Let_def keepsD kept)
qed

lemma name_pass [kept]: "keeps I (name_pass E a me cp bridge rs n reached)"
proof (induction rs arbitrary: n reached)
  case (Cons r rs)
  have rename: "keeps I (rename_room E r x)" for x
    by (rule keepsI) (auto simp: rename_room_def kept split: option.split sum.split)
  show ?case
  proof
    fix d assume d: "I d"
    obtain g d1 where g: "given_name E a r d = (g, d1)" by force
    have d1: "I d1" using g on_net [OF d, of "room_name (net E) a (r_id r)"] d
      by (auto simp: given_name_def split: if_splits)
    obtain q d2 where q: "on_net (member_names (net E) a (r_id r)) d1 = (q, d2)" by force
    have d2: "I d2" using on_net [OF d1] q by (metis snd_conv)
    have rest: "keeps I (and_then (rename_room E r x) (\<lambda>k. name_pass E a me cp bridge rs (n + k) y))" for x y
      by (intro keeps_and_then rename Cons.IH)
    show "I (snd (name_pass E a me cp bridge (r # rs) n reached d))"
      using d d1 d2 keepsD [OF Cons.IH d] keepsD [OF rest store_writes(6) [OF d2]]
      by (auto simp: g q split: sum.split)
  qed
qed (simp add: keeps_def)

lemma backfill_room_names [kept]: "keeps I (backfill_room_names E a me)"
proof
  fix d assume d: "I d"
  obtain q d1 where q: "on_net (direct_rooms (net E) a me) d = (q, d1)" by force
  have d1: "I d1" using on_net [OF d] q by (metis snd_conv)
  have "keeps I (and_then (read_store g) (\<lambda>(batch, all). and_then (name_pass E a me cp bridge batch 0 None)
      (\<lambda>(renamed, reached, offline) d2. (let finished = (all \<and> \<not> offline); d3 = on_store (record_progress E reached finished) d2
         in if renamed = 0 then (Inr (renamed, finished), d3)
            else and_then (read_store h) (\<lambda>rooms d4. (Inr (renamed, finished), publish_rooms E rooms d4)) d3))))" for g cp bridge h
  proof -
    have say: "keeps I (and_then (read_store h) (\<lambda>rooms d4. (Inr x, publish_rooms E rooms d4)))" for x :: "nat \<times> bool"
      by (intro keeps_and_then keep_steps keepsI) (simp add: kept)
    show ?thesis
      unfolding case_prod_unfold Let_def
      by (intro keeps_and_then keep_steps name_pass keepsI) (simp add: kept keepsD [OF say])
  qed
  from keepsD [OF this d1] d1 show "I (snd (backfill_room_names E a me d))"
    by (cases q) (simp_all add: backfill_room_names_def q Let_def)
qed

end

text \<open>Logging in and out, the turns of the sync loop, and every request of a client.\<close>

context account_frame begin

lemma set_state [kept]: "I d \<Longrightarrow> I (set_state E st e d)"
  by (simp add: set_state_def event status)

lemma kick [kept]: "I d \<Longrightarrow> I (kick d)" and wait_for_kick [kept]: "I d \<Longrightarrow> I (wait_for_kick d)"
  by (simp_all add: kick_def wait_for_kick_def wake)

lemma new_account:
  assumes "I d"
  shows "case start_crypto E (on_store (save_session (cipher E) (js E) new \<circ> clear) d\<lparr>d_api := Some a\<rparr>) of
    (Inr _, d') \<Rightarrow> I (d'\<lparr>d_session := Some new\<rparr>) | (Inl e, d') \<Rightarrow> I d'"
proof -
  let ?s = "save_session (cipher E) (js E) new (clear (d_store d))" and ?d = "d\<lparr>d_api := Some a\<rparr>"
  let ?n = "draws_so_far (on_store (save_session (cipher E) (js E) new \<circ> clear) d\<lparr>d_api := Some a\<rparr>)"
  have d: "I ?d" by (rule client) fact
  obtain r s where r: "load_or_create (vz E) ?n ?s = (r, s)" by force
  have "I (?d\<lparr>d_store := s, d_crypto := Some c, d_session := Some new\<rparr>)" if "r = Inr c" for c
    by (rule begins [OF d]) (use r that in simp)
  moreover have "I (?d\<lparr>d_store := s\<rparr>\<lparr>d_draws := m\<rparr>)" if "r = Inl e" for e m
    by (rule draws, rule fails [OF d]) (use r that in simp)
  ultimately show ?thesis using r by (cases r) (simp_all add: start_crypto_def on_store_def Let_def)
qed

lemma do_login [kept]: "keeps I (do_login E hs user password)"
proof -
  have finish: "I d \<Longrightarrow> I (kick (set_state E st e d))" for d st e
    by (intro kick set_state)
  have "I (snd (and_then (start_crypto E) (\<lambda>_ d3. (Inr sess, kick (set_state E Syncing None (d3\<lparr>d_session := Some sess\<rparr>))))
      (on_store (save_session (cipher E) (js E) sess \<circ> clear) d\<lparr>d_api := Some a\<rparr>)))" if "I d" for d sess a
    using new_account [OF that, of sess a] by (auto simp: and_then_def intro!: finish split: prod.splits sum.splits)
  then have "keeps I (and_then (on_net (api_new (net E) hs)) (\<lambda>a. and_then (on_net (api_login (net E) user password a))
      (\<lambda>(sess, a') d. and_then (start_crypto E) (\<lambda>_ d3. (Inr sess, kick (set_state E Syncing None (d3\<lparr>d_session := Some sess\<rparr>))))
        (on_store (save_session (cipher E) (js E) sess \<circ> clear) d\<lparr>d_api := Some a'\<rparr>))))"
    unfolding case_prod_unfold by (intro keeps_and_then keep_steps keepsI)
  from keepsD [OF this set_state] show ?thesis by (intro keepsI) (simp add: do_login_def Let_def)
qed

lemma do_logout [kept]: "I d \<Longrightarrow> I (do_logout E d)"
proof -
  assume d: "I d"
  have gone: "I d1 \<Longrightarrow> I (d1\<lparr>d_crypto := None, d_store := clear (d_store d1), d_session := None\<rparr>\<lparr>d_api := None\<rparr>\<lparr>d_draws := n\<rparr>)" for d1 n
    by (intro draws client forget)
  have "I (set_state E LoggedOut None ((on_store clear (d1\<lparr>d_api := None, d_crypto := None, d_draws := n\<rparr>))\<lparr>d_session := None\<rparr>))"
    if "I d1" for d1 n using gone [OF that, of n] by (intro set_state) (cases d1, simp add: on_store_def)
  note out = this
  show ?thesis unfolding do_logout_def Let_def by (rule out) (simp add: d kept split: option.split)
qed

lemma poll [kept]: "keeps I (poll E a since)"
proof -
  have "I d \<Longrightarrow> I (d\<lparr>d_world := w\<rparr>\<lparr>d_api := x\<rparr>)" for d w x by (intro client world)
  then show ?thesis by (intro keepsI) (simp add: poll_def case_prod_unfold Let_def)
qed

lemma sync_answer [kept]: "keeps I (sync_answer E a sess since)"
  unfolding sync_answer_def by (intro keeps_and_then poll keepsI) (rule keepsD [OF process_sync], rule set_state)

lemma sync_once [kept]: "keeps I (sync_once E a sess)"
  unfolding sync_once_def by (intro keeps_and_then keep_steps sync_answer)

lemma sweep_turn [kept]: "I d \<Longrightarrow> I (snd (sweep_turn E a sess lp d))"
  using keepsD [OF backfill_room_names, of d a "user_id sess"]
  by (auto simp: sweep_turn_def split: prod.split sum.split)

lemma begin_turn [kept]: "I d \<Longrightarrow> I (snd (snd (begin_turn E lp d)))"
  by (simp add: begin_turn_def case_prod_unfold Let_def kept split: option.split)

lemma settle_turn [kept]: "I (snd rd) \<Longrightarrow> I (snd (snd (settle_turn E lp rd)))"
  by (cases rd; cases "fst rd") (auto simp: settle_turn_def kept)

lemma answer_with: "I (snd rd) \<Longrightarrow> I (snd (answer_with i f rd))"
  by (auto simp: answer_with_def split: prod.split sum.split)

lemma dispatch [kept]: "I d \<Longrightarrow> I (snd (dispatch E i cmd d))"
proof -
  assume d: "I d"
  have login: "I (snd (login_reply E i x y z d))" for x y z
    using keepsD [OF do_login d, of x y z] by (auto simp: login_reply_def kept split: prod.split sum.split)
  have mark: "I (snd (mark_read E room ev d))" for room ev
    using d by (simp add: mark_read_def kept split: option.split)
  have quiet: "I (snd (read_store f x)) = I x" for f :: "store \<Rightarrow> 'z result" and x by (simp add: read_store_def)
  show ?thesis
    using d by (cases cmd) (auto simp: dispatch_def kept login quiet intro!: answer_with mark keepsD [OF do_send]
        keepsD [OF do_load_older] keepsD [OF do_verify_confirm] keepsD [OF do_backup_key])
qed

end

text \<open>
  The account: no operation but logging in or out, and the poll, which measures the clock of the
  server, replaces the client or the session of the daemon.
\<close>

definition same_account :: "'k daemon \<Rightarrow> 'k daemon \<Rightarrow> bool" where
  "same_account d d' \<longleftrightarrow> d_api d' = d_api d \<and> d_session d' = d_session d"

interpretation account: daemon_frame E "same_account d" for E :: "'k daemon_lib" and d
  by unfold_locales (simp_all add: same_account_def)

text \<open>
  The process around it: an event may lose a subscriber that cannot be written to, and nothing else
  changes who is subscribed, whether the daemon runs, or its credentials.
\<close>

definition same_process :: "'k daemon \<Rightarrow> 'k daemon \<Rightarrow> bool" where
  "same_process d d' \<longleftrightarrow>
     set (bus_clients (d_bus d')) \<subseteq> set (bus_clients (d_bus d)) \<and> bus_next (d_bus d') = bus_next (d_bus d)
     \<and> d_running d' = d_running d \<and> d_token d' = d_token d \<and> d_port d' = d_port d"

lemma write_all_kept:
  "set (fst (write_all E line cs b)) \<subseteq> set cs \<and> bus_next (snd (write_all E line cs b)) = bus_next b"
proof (induction cs arbitrary: b)
  case (Cons h cs)
  obtain i c where h: "h = (i, c)" by force
  obtain ok b1 where w: "write_line E c line b = (ok, b1)" by force
  have "bus_next b1 = bus_next b" using w by (auto simp: write_line_def Let_def split: if_splits)
  with Cons.IH [of b1] show ?case by (auto simp: h w case_prod_unfold Let_def)
qed simp

lemma publish_kept:
  "set (bus_clients (d_bus (publish E ev d))) \<subseteq> set (bus_clients (d_bus d))" "bus_next (d_bus (publish E ev d)) = bus_next (d_bus d)"
  using write_all_kept [of E "line_of E ev" "bus_clients (d_bus d)" "d_bus d"]
  by (auto simp: publish_def bus_publish_def case_prod_unfold Let_def)

interpretation process: account_frame E "same_process d" for E :: "'k daemon_lib" and d
  by unfold_locales (auto simp: same_process_def publish_kept(2) dest: subsetD [OF publish_kept(1)])

end
