(* ===== verification/Ipc_Laws.thy ===== *)
theory Ipc_Laws
  imports Frames Daemon_Demo
begin

text \<open>
  What the local interface guarantees: who is subscribed, that a connection without the token has no
  effect, that every request gets one answer under its id, and that the daemon ends with its last
  subscriber.
\<close>

section \<open>Answers\<close>

definition needs_account :: "request \<Rightarrow> bool" where
  "needs_account cmd \<longleftrightarrow>
     (case cmd of Send room body \<Rightarrow> True | MarkRead room ev \<Rightarrow> True | LoadOlder room limit \<Rightarrow> True
      | VerifyConfirm t b \<Rightarrow> True | BackupKey key \<Rightarrow> True | _ \<Rightarrow> False)"

definition answers :: "64 word \<Rightarrow> json \<Rightarrow> bool" where
  "answers i resp \<longleftrightarrow>
     get ''id'' resp = Some (JU64 i)
     \<and> (get ''ok'' resp = Some (JBool True) \<or> (\<exists>e. resp = err_reply i e \<and> get ''ok'' resp = Some (JBool False)
          \<and> get ''error'' resp = Some (JStr (show_error e))))"

lemma get_err: "get ''id'' (err_text i e) = Some (JU64 i)" "get ''ok'' (err_text i e) = Some (JBool False)"
  "get ''error'' (err_text i e) = Some (JStr e)" "get ''__shutdown'' (err_text i e) = None"
  by (simp_all add: err_text_def obj_def bt_collect_def)

lemma answers_err: "answers i (err_reply i e)" and shutdown_err: "get ''__shutdown'' (err_reply i e) = None"
  by (auto simp: answers_def err_reply_def get_err)

lemma get_ok:
  "\<forall>(k, v) \<in> set kvs. k \<noteq> ''id'' \<and> k \<noteq> ''ok'' \<Longrightarrow> get ''id'' (ok_reply i kvs) = Some (JU64 i)"
  "\<forall>(k, v) \<in> set kvs. k \<noteq> ''id'' \<and> k \<noteq> ''ok'' \<Longrightarrow> get ''ok'' (ok_reply i kvs) = Some (JBool True)"
  "\<forall>(k, v) \<in> set kvs. k \<noteq> ''__shutdown'' \<Longrightarrow> get ''__shutdown'' (ok_reply i kvs) = None"
proof -
  have skip: "\<forall>(k', v) \<in> set kvs. k' \<noteq> k \<Longrightarrow> bt_get (fold (\<lambda>(k, v). bt_insert k v) kvs m) k = bt_get m k"
    for k m by (induction kvs arbitrary: m) auto
  show "\<forall>(k, v) \<in> set kvs. k \<noteq> ''id'' \<and> k \<noteq> ''ok'' \<Longrightarrow> get ''id'' (ok_reply i kvs) = Some (JU64 i)"
    "\<forall>(k, v) \<in> set kvs. k \<noteq> ''id'' \<and> k \<noteq> ''ok'' \<Longrightarrow> get ''ok'' (ok_reply i kvs) = Some (JBool True)"
    "\<forall>(k, v) \<in> set kvs. k \<noteq> ''__shutdown'' \<Longrightarrow> get ''__shutdown'' (ok_reply i kvs) = None"
    by (subst ok_reply_def, simp add: obj_def bt_collect_def, subst skip; fastforce)+
qed

lemma answers_ok:
  assumes "\<forall>(k, v) \<in> set kvs. k \<noteq> ''id'' \<and> k \<noteq> ''ok'' \<and> k \<noteq> ''__shutdown''"
  shows "answers i (ok_reply i kvs) \<and> get ''__shutdown'' (ok_reply i kvs) = None"
  using assms by (auto simp: answers_def intro!: get_ok)

lemma answers_with:
  assumes "\<And>x. \<forall>(k, v) \<in> set (f x). k \<noteq> ''id'' \<and> k \<noteq> ''ok'' \<and> k \<noteq> ''__shutdown''"
  shows "answers i (fst (answer_with i f rd)) \<and> get ''__shutdown'' (fst (answer_with i f rd)) = None"
  using assms answers_ok [of "f x" i for x] answers_err shutdown_err
  by (cases rd; cases "fst rd") (auto simp: answer_with_def)

lemma answers_login:
  "answers i (fst (login_reply E i hs u pw d)) \<and> get ''__shutdown'' (fst (login_reply E i hs u pw d)) = None"
  using answers_ok [of "[(''user_id'', JStr (user_id s)), (''device_id'', JStr (device_id s))]" i for s] answers_err shutdown_err
  by (auto simp: login_reply_def split: prod.split sum.split)

lemma answers_status: "answers i (status_reply i d) \<and> get ''__shutdown'' (status_reply i d) = None"
  unfolding status_reply_def by (rule answers_ok) (auto split: option.splits)

text \<open>
  C25: Every request is answered under its own id, with either \<open>ok\<close> or an error text, and the mark
  that makes the server stop is on the answer to \<open>shutdown\<close> alone: nothing a homeserver or a client
  supplies can put it on another. Without an account, what needs one is refused as not logged in and
  changes nothing.
\<close>

theorem every_request_answered:
  "case dispatch E i cmd d of (resp, d') \<Rightarrow>
     answers i resp \<and> (get ''__shutdown'' resp \<noteq> None) = (cmd = Shutdown)
     \<and> (if needs_account cmd \<and> d_api d = None then resp = err_reply i not_logged_in \<and> d' = d else True)"
proof -
  have stop: "answers i (ok_reply i [(''__shutdown'', JBool True)])"
    "get ''__shutdown'' (ok_reply i [(''__shutdown'', JBool True)]) = Some (JBool True)"
    by (simp add: answers_def get_ok, simp add: ok_reply_def obj_def bt_collect_def)
  have kinds: "answers i (fst (dispatch E i cmd d)) \<and> (get ''__shutdown'' (fst (dispatch E i cmd d)) \<noteq> None) = (cmd = Shutdown)"
    using answers_login answers_status stop
    by (cases cmd) (simp_all add: dispatch_def answers_ok answers_with case_prod_unfold)
  have refused: "fst (dispatch E i cmd d) = err_reply i not_logged_in \<and> snd (dispatch E i cmd d) = d"
    if "needs_account cmd" "d_api d = None"
    using that by (cases cmd) (simp_all add: needs_account_def dispatch_def answer_with_def do_send_def mark_read_def
        do_load_older_def do_verify_confirm_def do_backup_key_def)
  show ?thesis using kinds refused by (cases "d_api d") (auto simp: case_prod_unfold)
qed

section \<open>Who is subscribed\<close>

text \<open>
  A subscription on the bus belongs to a connection that is open, that has shown the token and that
  holds its handle; and, once there is a port, the accept loop runs exactly while the daemon does.
\<close>

definition held :: "(nat \<Rightarrow> conn option) \<Rightarrow> (64 word \<times> nat) set \<Rightarrow> bool" where
  "held conns B \<longleftrightarrow>
     (\<forall>i c. (i, c) \<in> B \<longrightarrow> (\<exists>cn. conns c = Some cn \<and> cn_sub cn = Some i))
     \<and> (\<forall>c cn. conns c = Some cn \<longrightarrow> cn_sub cn \<noteq> None \<longrightarrow> cn_authed cn)"

definition subscribed :: "'k process \<Rightarrow> bool" where
  "subscribed p \<longleftrightarrow>
     held (p_conns p) (set (bus_clients (d_bus (p_daemon p))))
     \<and> (d_port (p_daemon p) = None \<or> d_running (p_daemon p) = p_accepting p)"

lemma held_mono: "held conns B \<Longrightarrow> B' \<subseteq> B \<Longrightarrow> held conns B'"
  unfolding held_def by (meson subsetD)

lemma held_closed: "held conns B \<Longrightarrow> (\<And>i. (i, c) \<notin> B') \<Longrightarrow> B' \<subseteq> B \<Longrightarrow> held (conns(c := None)) B'"
  unfolding held_def by (metis fun_upd_apply option.distinct(1) subsetD)

lemma held_mine: "held conns B \<Longrightarrow> (i, c) \<in> B \<Longrightarrow> conns c = Some cn \<Longrightarrow> cn_sub cn = Some i"
  unfolding held_def by (metis option.inject)

lemma held_owner: "held conns B \<Longrightarrow> (i, c) \<in> B \<Longrightarrow> \<exists>cn. conns c = Some cn \<and> cn_sub cn = Some i"
  by (simp add: held_def)

lemma held_change:
  assumes "held conns B" "\<And>i. (i, c) \<in> B' \<Longrightarrow> cn_sub cn = Some i" "\<And>i c'. (i, c') \<in> B' \<Longrightarrow> c' \<noteq> c \<Longrightarrow> (i, c') \<in> B"
    "cn_sub cn \<noteq> None \<Longrightarrow> cn_authed cn"
  shows "held (conns(c \<mapsto> cn)) B'"
  using assms unfolding held_def by (metis fun_upd_apply option.inject)

lemma subscribedI:
  assumes "subscribed p" "same_process (p_daemon p) (p_daemon q)" "p_conns q = p_conns p" "p_accepting q = p_accepting p"
  shows "subscribed q"
  using assms held_mono by (fastforce simp: subscribed_def same_process_def)

lemma same_process_refl [simp, intro]: "same_process d d"
  by (simp add: same_process_def)

lemma same_process_trans: "same_process d e \<Longrightarrow> same_process e f \<Longrightarrow> same_process d f"
  by (auto simp: same_process_def)

lemma replied: "reply E c v d = (w, d') \<Longrightarrow> same_process d d' \<and> bus_clients (d_bus d') = bus_clients (d_bus d)"
  by (auto simp: reply_def write_line_def Let_def same_process_def split: if_splits prod.splits)

text \<open>What a line does to the connection and the bus.\<close>

lemma line_cases:
  assumes "handle_line E c line cn d = (v, cn', d')"
  shows "cn' = cn \<and> same_process d d'
    \<or> \<not> cn_authed cn \<and> cn' = cn\<lparr>cn_authed := True\<rparr> \<and> same_process d d'
    \<or> (\<exists>i. \<not> cn_authed cn \<and> cn' = cn\<lparr>cn_authed := True, cn_sub := Some i\<rparr>
         \<and> bus_clients (d_bus d') = bus_clients (d_bus d) @ [(i, c)] \<and> d_running d' = d_running d \<and> d_port d' = d_port d)"
proof -
  have served: "same_process d d'" if "serve_request E c env cn d = (v, cn', d')" for env
  proof -
    obtain resp d1 where r: "dispatch E (env_id env) (env_cmd env) d = (resp, d1)" by force
    have "same_process d d1" using process.dispatch [of d d E "env_id env" "env_cmd env"] by (simp add: r)
    then show ?thesis
      using that by (auto simp: serve_request_def reply_and_def r dest!: replied intro: same_process_trans split: prod.splits)
  qed
  have same: "cn' = cn" if "serve_request E c env cn d = (v, cn', d')" for env
    using that by (auto simp: serve_request_def reply_and_def split: prod.splits)
  have one: "cn' = cn \<and> same_process d d'" if "reply_and E c resp next' cn d = (v, cn', d')" for resp next'
    using that by (auto simp: reply_and_def dest: replied split: prod.splits)
  have greeted: ?thesis if g: "greet E c env cn d = (v, cn', d')" and new: "\<not> cn_authed cn" for env
  proof (cases "\<exists>token. env_cmd env = Hello token \<and> d_token d = Some token")
    case True
    then obtain token where token: "env_cmd env = Hello token" "d_token d = Some token" by blast
    obtain ok d1 where r: "reply E c (ok_reply (env_id env) [(''version'', JStr CLIENT_VERSION)]) d = (ok, d1)" by force
    from replied [OF r] g new show ?thesis
      by (cases ok) (auto simp: greet_def token r bus_add_def Let_def same_process_def)
  next
    case False
    then have "\<exists>resp. greet E c env cn d = reply_and E c resp Close cn d"
      by (auto simp: greet_def split: request.split)
    with g one show ?thesis by metis
  qed
  show ?thesis
    using assms served same one greeted by (auto simp: handle_line_def split: if_splits sum.splits)
qed

lemma stop_subscribed: "subscribed p \<Longrightarrow> subscribed (stop_serving p)"
  by (auto simp: subscribed_def stop_serving_def on_daemon_def shutdown_def kick_def Let_def)

lemma finish_subscribed:
  assumes "subscribed p"
  shows "subscribed (finish_client c p)"
proof (cases "p_conns p c")
  case None
  then show ?thesis using assms by (simp add: finish_client_def)
next
  case (Some cn)
  let ?B = "set (bus_clients (d_bus (p_daemon p)))"
  have h: "held (p_conns p) ?B" using assms by (simp add: subscribed_def)
  have gone: "subscribed (on_daemon (\<lambda>d. d\<lparr>d_bus := b\<rparr>) (p\<lparr>p_conns := (p_conns p)(c := None)\<rparr>))"
    if "set (bus_clients b) = {(i, c') \<in> ?B. Some i \<noteq> cn_sub cn}" for b
    using assms held_closed [OF h, of c "set (bus_clients b)"] held_mine [OF h _ Some] that
    by (auto simp: subscribed_def on_daemon_def)
  show ?thesis
  proof (cases "cn_sub cn")
    case None
    then have "?B = {(i, c') \<in> ?B. Some i \<noteq> cn_sub cn}" by auto
    from gone [OF this] show ?thesis using Some None by (simp add: finish_client_def on_daemon_def)
  next
    case (Some i)
    have "set (bus_clients (snd (bus_remove i (d_bus (p_daemon p))))) = {(i, c') \<in> ?B. Some i \<noteq> cn_sub cn}"
      by (auto simp: bus_remove_def Let_def Some)
    note q = gone [OF this]
    from q stop_subscribed [OF q] show ?thesis
      using \<open>p_conns p c = Some cn\<close> Some by (auto simp: finish_client_def on_daemon_def bus_remove_def Let_def)
  qed
qed

lemma line_subscribed:
  assumes p: "subscribed p" and cn: "p_conns p c = Some cn" and line: "handle_line E c line cn (p_daemon p) = (v, cn', d)"
  shows "subscribed (p\<lparr>p_daemon := d, p_conns := (p_conns p)(c \<mapsto> cn')\<rparr>)"
proof -
  let ?B = "set (bus_clients (d_bus (p_daemon p)))"
  have h: "held (p_conns p) ?B" using p by (simp add: subscribed_def)
  note mine = held_mine [OF h _ cn]
  have authed: "cn_sub cn \<noteq> None \<Longrightarrow> cn_authed cn" using h cn by (auto simp: held_def)
  from line_cases [OF line] show ?thesis
  proof (elim disjE exE conjE)
    assume "cn' = cn" "same_process (p_daemon p) d"
    with p cn show ?thesis by (intro subscribedI [OF p]) (auto simp: fun_upd_idem)
  next
    assume cn': "cn' = cn\<lparr>cn_authed := True\<rparr>" and d: "same_process (p_daemon p) d"
    have "held ((p_conns p)(c \<mapsto> cn')) (set (bus_clients (d_bus d)))"
      using d mine by (intro held_change [OF h]) (auto simp: cn' same_process_def)
    then show ?thesis using p d by (simp add: subscribed_def same_process_def)
  next
    fix i
    assume new: "\<not> cn_authed cn" and cn': "cn' = cn\<lparr>cn_authed := True, cn_sub := Some i\<rparr>"
      and d: "bus_clients (d_bus d) = bus_clients (d_bus (p_daemon p)) @ [(i, c)]"
        "d_running d = d_running (p_daemon p)" "d_port d = d_port (p_daemon p)"
    have "(i', c) \<notin> ?B" for i' using mine [of i'] authed new by auto
    then have "held ((p_conns p)(c \<mapsto> cn')) (set (bus_clients (d_bus d)))"
      by (intro held_change [OF h]) (auto simp: cn' d)
    then show ?thesis using p d by (simp add: subscribed_def)
  qed
qed

lemma end_turn_simps [simp]:
  "p_daemon (end_turn p r) = snd (snd r)" "p_conns (end_turn p r) = p_conns p" "p_accepting (end_turn p r) = p_accepting p"
  by (simp_all add: end_turn_def split: prod.split)

lemma turn_same_process:
  "same_process (p_daemon p) (p_daemon (loop_turn E p))" "same_process (p_daemon p) (p_daemon (poll_answered E p))"
  "p_conns (loop_turn E p) = p_conns p" "p_accepting (loop_turn E p) = p_accepting p"
  "p_conns (poll_answered E p) = p_conns p" "p_accepting (poll_answered E p) = p_accepting p"
proof -
  obtain q lp d where b: "begin_turn E (p_loop p) (p_daemon p) = (q, lp, d)" by (metis surj_pair)
  have d: "same_process (p_daemon p) d"
    using process.begin_turn [of "p_daemon p" "p_daemon p" E "p_loop p"] by (simp add: b)
  then have "same_process (p_daemon p) (snd (snd (settle_turn E lp (Inl e, d))))" for e
    by (intro process.settle_turn) simp
  with d show "same_process (p_daemon p) (p_daemon (loop_turn E p))"
    by (simp add: loop_turn_def b split: sum.split prod.split)
  have "same_process (p_daemon p) (snd (snd (settle_turn E (p_loop p) (sync_answer E a sess since (p_daemon p)))))" for a sess since
    by (intro process.settle_turn keepsD [OF process.sync_answer]) simp
  then show "same_process (p_daemon p) (p_daemon (poll_answered E p))"
    by (simp add: poll_answered_def split: option.split prod.split)
  show "p_conns (loop_turn E p) = p_conns p" "p_accepting (loop_turn E p) = p_accepting p"
    "p_conns (poll_answered E p) = p_conns p" "p_accepting (poll_answered E p) = p_accepting p"
    by (auto simp: loop_turn_def poll_answered_def split: option.split prod.split sum.split)
qed

lemma step_subscribed:
  assumes p: "subscribed p"
  shows "subscribed (step E ev p)"
proof (cases ev)
  case (Connected c)
  have "held ((p_conns p)(c \<mapsto> new_conn)) (set (bus_clients (d_bus (p_daemon p))))" if "p_conns p c = None"
  proof (rule held_change)
    show "held (p_conns p) (set (bus_clients (d_bus (p_daemon p))))" using p by (simp add: subscribed_def)
    then show "cn_sub new_conn = Some i" if "(i, c) \<in> set (bus_clients (d_bus (p_daemon p)))" for i
      using that \<open>p_conns p c = None\<close> unfolding held_def by (metis option.distinct(1))
  qed (simp_all add: new_conn_def)
  then show ?thesis using p Connected by (auto simp: accept_def subscribed_def)
next
  case (Line c line)
  show ?thesis
  proof (cases "p_conns p c")
    case (Some cn)
    obtain v cn' d where l: "handle_line E c line cn (p_daemon p) = (v, cn', d)" by (metis surj_pair)
    from line_subscribed [OF p Some l] show ?thesis
      by (cases v) (auto simp: Line client_line_def Some l Let_def intro: finish_subscribed stop_subscribed)
  qed (use p in \<open>simp add: Line client_line_def\<close>)
next
  case (HungUp c)
  then show ?thesis using finish_subscribed [OF p] by simp
qed (rule subscribedI [OF p], simp_all add: turn_same_process)+

lemma reachable_subscribed:
  assumes "reaches E (serving E d) p" "bus_clients (d_bus d) = []" "d_running d"
  shows "subscribed p"
  using assms(1)
proof (rule reaches_invariant)
  show "subscribed (serving E d)" using assms(2,3) by (simp add: subscribed_def serving_def held_def)
qed (rule step_subscribed)

section \<open>Strangers\<close>

definition right_hello :: "'k daemon_lib \<Rightarrow> 'k daemon \<Rightarrow> string \<Rightarrow> bool" where
  "right_hello E d line \<longleftrightarrow>
     (case from_str (js E) dec_envelope line of
        Inr env \<Rightarrow> (case env_cmd env of Hello token \<Rightarrow> d_token d = Some token | _ \<Rightarrow> False)
      | Inl e \<Rightarrow> False)"

definition written_to :: "nat \<Rightarrow> string list \<Rightarrow> 'k daemon \<Rightarrow> 'k daemon" where
  "written_to c lines d = on_bus (\<lambda>b. b\<lparr>bus_out := (bus_out b)(c := bus_out b c @ lines)\<rparr>) d"

lemma reply_written: "reply E c v d = (w, d') \<Longrightarrow> d' = written_to c [line_of E v] d \<and> w \<or> d' = d \<and> \<not> w"
  by (auto simp: reply_def written_to_def on_bus_def write_line_def Let_def split: if_splits)

lemma written_nothing: "written_to c [] d = d"
  by (simp add: written_to_def on_bus_def)

lemma reply_and_written:
  "reply_and E c (err_text i e) next' cn d = (v, cn', d') \<Longrightarrow>
     cn' = cn \<and> v \<in> {next', Close} \<and> (\<exists>lines. lines \<in> {[], [line_of E (err_text i e)]} \<and> d' = written_to c lines d)"
proof -
  assume "reply_and E c (err_text i e) next' cn d = (v, cn', d')"
  moreover obtain w d1 where r: "reply E c (err_text i e) d = (w, d1)" by force
  moreover have "\<exists>lines. lines \<in> {[], [line_of E (err_text i e)]} \<and> d1 = written_to c lines d"
    using reply_written [OF r] written_nothing [of c d] by (metis insertCI)
  ultimately show ?thesis by (cases w) (auto simp: reply_and_def)
qed

lemma stranger_line:
  assumes "\<not> cn_authed cn" "\<not> right_hello E d line" "handle_line E c line cn d = (v, cn', d')"
  shows "cn' = cn \<and> v \<noteq> CloseAndStop
    \<and> (\<exists>lines. d' = written_to c lines d \<and> (lines = [] \<or> (\<exists>i e. lines = [line_of E (err_text i e)])))"
proof -
  have wrong: ?thesis if "reply_and E c (err_text i e) next' cn d = (v, cn', d')" "next' \<noteq> CloseAndStop" for i e next'
    using reply_and_written [OF that(1)] that(2) by blast
  show ?thesis
  proof (cases "trim line = []")
    case True
    then show ?thesis using assms(3) written_nothing [of c d] by (auto simp: handle_line_def intro!: exI [of _ "[]"])
  next
    case False
    show ?thesis
    proof (cases "from_str (js E) dec_envelope line")
      case (Inl e)
      then show ?thesis using assms(3) False wrong by (simp add: handle_line_def)
    next
      case (Inr env)
      then obtain e where "greet E c env cn d = reply_and E c (err_text (env_id env) e) Close cn d"
        using assms(2) by (auto simp: greet_def right_hello_def split: request.splits)
      then have "reply_and E c (err_text (env_id env) e) Close cn d = (v, cn', d')"
        using assms(1,3) False Inr by (simp add: handle_line_def)
      then show ?thesis by (rule wrong) simp
    qed
  qed
qed

text \<open>
  C6: A connection that has not shown the token has no effect. Wherever the process has got to,
  whatever such a connection sends, short of a \<open>hello\<close> with the very token, changes nothing of the
  daemon, of the sync loop or of the other connections: at most one error line goes back to it, and
  at most it is closed. And everybody who is sent events has shown the token.
\<close>

theorem strangers_have_no_effect:
  assumes "reaches E (serving E d) p" "bus_clients (d_bus d) = []" "d_running d"
    and "p_conns p c = Some cn" "\<not> cn_authed cn" "\<not> right_hello E (p_daemon p) line"
  shows "(\<exists>lines. (lines = [] \<or> (\<exists>i e. lines = [line_of E (err_text i e)]))
      \<and> step E (Line c line) p \<in> {on_daemon (written_to c lines) p,
                                     on_daemon (written_to c lines) (p\<lparr>p_conns := (p_conns p)(c := None)\<rparr>)})
    \<and> list_all (\<lambda>(i, c'). \<exists>cn'. p_conns p c' = Some cn' \<and> cn_authed cn') (bus_clients (d_bus (p_daemon p)))"
proof -
  have p: "subscribed p" using assms(1-3) by (rule reachable_subscribed)
  then have known: "list_all (\<lambda>(i, c'). \<exists>cn'. p_conns p c' = Some cn' \<and> cn_authed cn') (bus_clients (d_bus (p_daemon p)))"
    unfolding subscribed_def held_def list_all_iff by (auto; metis option.distinct(1))
  have none: "cn_sub cn = None" using p assms(4,5) unfolding subscribed_def held_def by blast
  obtain v cn' d' where l: "handle_line E c line cn (p_daemon p) = (v, cn', d')" by (metis surj_pair)
  from stranger_line [OF assms(5,6) l] obtain lines where v: "cn' = cn" "v \<noteq> CloseAndStop" "d' = written_to c lines (p_daemon p)"
    "lines = [] \<or> (\<exists>i e. lines = [line_of E (err_text i e)])" by blast
  have "step E (Line c line) p \<in> {on_daemon (written_to c lines) p,
      on_daemon (written_to c lines) (p\<lparr>p_conns := (p_conns p)(c := None)\<rparr>)}"
    using v assms(4) none by (cases v) (auto simp: client_line_def l on_daemon_def finish_client_def fun_upd_idem Let_def)
  with v(4) known show ?thesis by blast
qed

section \<open>The end\<close>

text \<open>
  C11: The daemon ends with its last subscriber and not before. Wherever the process has got to, when
  a subscribed connection closes, the daemon, if it ran, goes on running exactly if the bus still has
  a subscription under another handle; when no other connection is subscribed, it stops: the accept
  loop is over, every further connection is turned away, and the sync loop, once the poll it may be
  waiting for is answered, ends at its next turn without doing anything.
\<close>

theorem daemon_ends_with_last_subscriber:
  assumes "reaches E (serving E d) p" "bus_clients (d_bus d) = []" "d_running d" "d_port (p_daemon p) \<noteq> None"
    and "p_conns p c = Some cn" "cn_sub cn = Some i"
  shows "case step E (HungUp c) p of q \<Rightarrow>
     d_running (p_daemon q) = (d_running (p_daemon p) \<and> (\<exists>(j, c') \<in> set (bus_clients (d_bus (p_daemon p))). j \<noteq> i))
     \<and> ((\<exists>c' cn'. c' \<noteq> c \<and> p_conns p c' = Some cn' \<and> cn_sub cn' \<noteq> None)
        \<or> \<not> p_accepting q \<and> (\<forall>c'. step E (Connected c') q = q)
           \<and> sync_turn E (p_loop q) (p_daemon q) = (Stopped, p_loop q, p_daemon q))"
proof -
  let ?B = "bus_clients (d_bus (p_daemon p))" and ?q = "finish_client c p"
  have p: "subscribed p" using assms(1-3) by (rule reachable_subscribed)
  have q: "subscribed ?q" using p by (rule finish_subscribed)
  have run: "d_running (p_daemon ?q) = (d_running (p_daemon p) \<and> filter (\<lambda>(held, c). held \<noteq> i) ?B \<noteq> [])"
    and port: "d_port (p_daemon ?q) \<noteq> None"
    using assms(4-6) by (auto simp: finish_client_def bus_remove_def Let_def on_daemon_def stop_serving_def shutdown_def kick_def)
  have last: "\<not> d_running (p_daemon ?q)" if "\<not> (\<exists>c' cn'. c' \<noteq> c \<and> p_conns p c' = Some cn' \<and> cn_sub cn' \<noteq> None)"
  proof -
    have "j = i" if on_bus: "(j, c') \<in> set ?B" for j c'
    proof -
      obtain cn' where cn': "p_conns p c' = Some cn'" "cn_sub cn' = Some j"
        using p held_owner [OF _ on_bus] unfolding subscribed_def by blast
      then have "c' = c" using \<open>\<not> (\<exists>c' cn'. _ c' cn')\<close> by blast
      then show ?thesis using cn' assms(5,6) by simp
    qed
    then show ?thesis by (auto simp: run filter_empty_conv)
  qed
  have over: "\<not> p_accepting ?q \<and> (\<forall>c'. step E (Connected c') ?q = ?q)
      \<and> sync_turn E (p_loop ?q) (p_daemon ?q) = (Stopped, p_loop ?q, p_daemon ?q)" if "\<not> d_running (p_daemon ?q)"
    using that q port by (simp add: subscribed_def accept_def sync_turn_def begin_turn_def)
  have "filter (\<lambda>(held, c). held \<noteq> i) ?B \<noteq> [] \<longleftrightarrow> (\<exists>(j, c') \<in> set ?B. j \<noteq> i)"
    by (auto simp: filter_empty_conv)
  with run last over show ?thesis by auto
qed

text \<open>The run that tries both: a client greets with the token while another does not.\<close>

definition ipc_json :: json_lib where
  "ipc_json = ok_json\<lparr>json_parse := (\<lambda>t. Inr (obj [(''id'', JInt 7), (''cmd'', JStr ''hello''), (''token'', JStr t)]))\<rparr>"

definition ipc_env :: "string daemon_lib" where
  "ipc_env = demo_env\<lparr>vz := demo_crypto\<lparr>serde := ipc_json\<rparr>\<rparr>"

definition ipc_daemon :: "string daemon" where
  "ipc_daemon = demo_daemon\<lparr>d_port := Some 4000\<rparr>"

definition ipc_process :: "string process" where
  "ipc_process = fold (step ipc_env) [Connected 4, Connected 5, Line 4 ''616263''] (serving ipc_env ipc_daemon)"

lemma hello_parsed: "from_str ipc_json dec_envelope line = Inr \<lparr>env_id = 7, env_cmd = Hello line\<rparr>"
  by (simp add: from_str_def ipc_json_def ok_json_def obj_def bt_collect_def dec_envelope_def dec_request_def
      field_def dec_str_def dec_u64_def)

lemma ipc_parts: "js ipc_env = ipc_json" "d_token ipc_daemon = Some ''616263''" "sock_ok ipc_env c l = True"
  "d_running ipc_daemon" "bus_clients (d_bus ipc_daemon) = []" "d_port ipc_daemon = Some 4000"
  by (simp_all add: ipc_env_def demo_env_def ipc_daemon_def bus_new_def)

lemma ipc_reached: "reaches ipc_env (serving ipc_env ipc_daemon) ipc_process"
  unfolding ipc_process_def by (simp only: fold.simps o_apply id_apply) (intro onward here)

lemma ipc_conns:
  "p_conns ipc_process 4 = Some \<lparr>cn_authed = True, cn_sub = Some 1\<rparr>" "p_conns ipc_process 5 = Some new_conn"
  "c \<noteq> 4 \<Longrightarrow> c \<noteq> 5 \<Longrightarrow> p_conns ipc_process c = None" "d_token (p_daemon ipc_process) = Some ''616263''"
  "d_port (p_daemon ipc_process) = Some 4000"
proof -
  have d: "d_token ipc_daemon = Some ''616263''" "d_running ipc_daemon" by (rule ipc_parts)+
  have b: "bus_next (d_bus ipc_daemon) = 1" by (simp add: ipc_daemon_def bus_new_def)
  have t: "trim ''616263'' \<noteq> []" by code_simp
  show "p_conns ipc_process 4 = Some \<lparr>cn_authed = True, cn_sub = Some 1\<rparr>" "p_conns ipc_process 5 = Some new_conn"
    "c \<noteq> 4 \<Longrightarrow> c \<noteq> 5 \<Longrightarrow> p_conns ipc_process c = None" "d_token (p_daemon ipc_process) = Some ''616263''"
    "d_port (p_daemon ipc_process) = Some 4000"
    by (simp_all add: ipc_process_def serving_def accept_def client_line_def handle_line_def ipc_parts d b t hello_parsed
        new_conn_def greet_def reply_def write_line_def bus_add_def Let_def)
qed

lemma strangers_have_no_effect_witness:
  "\<exists>lines. (lines = [] \<or> (\<exists>i e. lines = [line_of ipc_env (err_text i e)]))
      \<and> step ipc_env (Line 5 ''x'') ipc_process \<in> {on_daemon (written_to 5 lines) ipc_process,
           on_daemon (written_to 5 lines) (ipc_process\<lparr>p_conns := (p_conns ipc_process)(5 := None)\<rparr>)}"
  using strangers_have_no_effect [OF ipc_reached, of 5 new_conn "''x''"]
  by (simp add: ipc_parts ipc_conns right_hello_def hello_parsed new_conn_def)

lemma daemon_ends_with_last_subscriber_witness:
  "\<not> p_accepting (step ipc_env (HungUp 4) ipc_process)"
proof -
  have "\<not> (\<exists>c' cn'. c' \<noteq> 4 \<and> p_conns ipc_process c' = Some cn' \<and> cn_sub cn' \<noteq> None)"
    using ipc_conns(2,3) by (auto simp: new_conn_def) (metis conn.select_convs(2) not_Some_eq option.inject)
  then show ?thesis
    using daemon_ends_with_last_subscriber [OF ipc_reached, of 4 "\<lparr>cn_authed = True, cn_sub = Some 1\<rparr>" 1]
    by (auto simp: ipc_parts ipc_conns(1,5))
qed

end
