(* ===== verification/Account_Laws.thy ===== *)
theory Account_Laws
  imports Action_Laws Frames Crypto_Restart
begin

text \<open>
  Where an account begins and ends: logging out leaves nothing of it, on the machine or in memory; a
  login that fails leaves the account that was there, and one that succeeds starts from nothing.
\<close>

section \<open>Nothing left\<close>

text \<open>
  C12: Logging out leaves nothing. Whatever was there and whether or not the server could be told, the
  client, the session and the crypto state are gone, every table is empty but for the mark that the
  store is encrypted, so a restart finds no login; at most one request was sent; and until the next
  login the sync loop sends none and waits.
\<close>

theorem logout_leaves_nothing:
  "case do_logout E d of d' \<Rightarrow>
     d_api d' = None \<and> d_session d' = None \<and> d_crypto d' = None \<and> d_state d' = LoggedOut
     \<and> wiped (d_store d') \<and> load_session (cipher E) (js E) (d_store d') = Inr None
     \<and> length (w_log (d_world d')) \<le> length (w_log (d_world d)) + 1
     \<and> (if d_running d then sync_turn E lp d' = (Idle 1000, lp, wait_for_kick d') else True)"
proof -
  let ?d1 = "case d_api d of Some a \<Rightarrow> snd (on_net (api_logout (net E) a) d) | None \<Rightarrow> d"
  let ?d' = "do_logout E d"
  have parts: "d_api ?d' = None" "d_session ?d' = None" "d_crypto ?d' = None" "d_state ?d' = LoggedOut"
    "d_store ?d' = clear (d_store ?d1)" "d_world ?d' = d_world ?d1" "d_running ?d' = d_running ?d1"
    by (simp_all add: do_logout_def Let_def)
  have one: "length (w_log (snd (api_logout N a w))) \<le> length (w_log w) + 1" for N a w
    by (auto simp: api_logout_def fetch_def send_request_def call_def and_then_def Let_def split: sum.split prod.split)
  have "length (w_log (d_world ?d1)) \<le> length (w_log (d_world d)) + 1" "d_running ?d1 = d_running d"
    using one by (auto simp: on_net_def case_prod_unfold Let_def split: option.split)
  moreover have "load_session (cipher E) (js E) (d_store ?d') = Inr None"
  proof -
    have "SESSION_KEY \<noteq> ENCRYPTED_FLAG" by code_simp
    from wiped_meta [OF wiped_clear this, of "d_store ?d1"] show ?thesis
      by (simp add: parts load_session_def get_meta_def reveal_opt_def split: option.split)
  qed
  ultimately show ?thesis
    using wiped_clear [of "d_store ?d1"] parts by (simp add: sync_turn_def begin_turn_def)
qed

section \<open>All or nothing\<close>

text \<open>Starting the crypto state writes its pickle key and its account, and nothing else.\<close>

lemma put_pickle_frame [simp]:
  "meta_of (put_pickle kind i x p s) k = meta_of s k" "s_key (put_pickle kind i x p s) = s_key s"
  "t_room (s_db (put_pickle kind i x p s)) = t_room (s_db s)" "t_message (s_db (put_pickle kind i x p s)) = t_message (s_db s)"
  "t_edit (s_db (put_pickle kind i x p s)) = t_edit (s_db s)" "t_member (s_db (put_pickle kind i x p s)) = t_member (s_db s)"
  by (simp_all add: put_pickle_def on_db_def)

lemma set_meta_tables [simp]:
  "t_room (s_db (set_meta L k v s)) = t_room (s_db s)" "t_message (s_db (set_meta L k v s)) = t_message (s_db s)"
  "t_edit (s_db (set_meta L k v s)) = t_edit (s_db s)" "t_member (s_db (set_meta L k v s)) = t_member (s_db s)"
  "t_pickle (s_db (set_meta L k v s)) = t_pickle (s_db s)" "s_key (set_meta L k v s) = s_key s"
  "k' \<noteq> k \<Longrightarrow> meta_of (set_meta L k v s) k' = meta_of s k'"
  by (simp_all add: set_meta_def on_db_def put_meta_row_def case_prod_unfold Let_def split: option.split)
    (simp add: meta_row_def row_at_upsert)

lemma load_or_create_frame:
  assumes "load_or_create V n s = (r, s')" "k \<noteq> PICKLE_KEY_META"
  shows "meta_of s' k = meta_of s k" "s_key s' = s_key s"
    "t_room (s_db s') = t_room (s_db s)" "t_message (s_db s') = t_message (s_db s)"
proof -
  define same where "same = (\<lambda>t. meta_of t k = meta_of s k \<and> s_key t = s_key s
      \<and> t_room (s_db t) = t_room (s_db s) \<and> t_message (s_db t) = t_message (s_db s))"
  have key: "keeps same (load_pickle_key V n)"
    using assms(2) by (intro keepsI) (auto simp: same_def load_pickle_key_def Let_def split: sum.split option.split)
  have account: "keeps same (load_account V key m)" for key m
    by (intro keepsI) (simp add: same_def load_account_def Let_def split: option.split)
  have backup: "keeps same (load_backup_key V)" by (rule keepsI) (simp add: load_backup_key_def)
  have "keeps same (load_or_create V n)"
    unfolding load_or_create_def Let_def
    by (rule keeps_and_then [OF key keeps_and_then [OF account keepsI]], rule keepsD [OF keeps_and_then [OF backup keeps_succeed]])
  from keepsD [OF this, of s] assms(1) show "meta_of s' k = meta_of s k" "s_key s' = s_key s"
    "t_room (s_db s') = t_room (s_db s)" "t_message (s_db s') = t_message (s_db s)"
    by (simp_all add: same_def)
qed

definition new_account_store :: "'k daemon_lib \<Rightarrow> session \<Rightarrow> store \<Rightarrow> store" where
  "new_account_store E sess s = save_session (cipher E) (js E) sess (clear s)"

text \<open>
  A store that holds a login and a device that is n draws old, and nothing else at all: no row in the
  tables of rooms, messages, edits and members, one pickle, the new account, and no meta value but the
  session, the pickle key and the mark that the store is encrypted.
\<close>

definition holds_only :: "'k daemon_lib \<Rightarrow> nat \<Rightarrow> session \<Rightarrow> store \<Rightarrow> bool" where
  "holds_only E n sess s \<longleftrightarrow>
     t_room (s_db s) = [] \<and> t_message (s_db s) = [] \<and> t_edit (s_db s) = [] \<and> t_member (s_db s) = []
     \<and> t_pickle (s_db s) = [\<lparr>pk_kind = KIND_ACCOUNT, pk_id = ''self'', pk_extra = [],
          pk_pickle = acc_pickle (vz E) (random_key (vz E) n) (acc_new (vz E) (n + 1))\<rparr>]
     \<and> (\<forall>k. meta_of s k \<noteq> None \<longrightarrow> k \<in> {SESSION_KEY, PICKLE_KEY_META, ENCRYPTED_FLAG})
     \<and> get_meta (cipher E) SESSION_KEY s = Inr (Some (json_print (js E) (session_fields sess)))"

lemma new_account_starts:
  assumes "crypto_lib_ok (vz E)" "text_ok (s_key s) (json_print (js E) (session_fields sess))"
  shows "\<exists>s'. load_or_create (vz E) n (new_account_store E sess s) = (Inr (new_crypto (vz E) n), s')
     \<and> persisted (vz E) (new_crypto (vz E) n, s') \<and> holds_only E n sess s'"
proof -
  let ?L = "cipher E" and ?s = "new_account_store E sess s" and ?s' = "new_crypto_store (vz E) n (new_account_store E sess s)"
  have legal: "write_ok (s_key (clear s)) (SetMeta SESSION_KEY (json_print (js E) (session_fields sess)))"
    using assms(2) by (simp add: SESSION_KEY_def ENCRYPTED_FLAG_def)
  have L: "cipher_ok ?L" by (rule lib_db [OF assms(1)])
  have ok: "store_ok ?L ?s"
    unfolding new_account_store_def save_session_def by (rule ok_set_meta [OF L ok_clear legal])
  have sess: "get_meta ?L SESSION_KEY ?s = Inr (Some (json_print (js E) (session_fields sess)))"
    unfolding get_meta_view [OF ok]
    unfolding new_account_store_def save_session_def view_set_meta [OF L legal, of True] by simp
  have rest: "meta_of ?s k = None" if "k \<noteq> SESSION_KEY" "k \<noteq> ENCRYPTED_FLAG" for k
    using wiped_meta [OF wiped_clear that(2), of s] that(1) by (simp add: new_account_store_def save_session_def)
  have none: "get_meta ?L k ?s = Inr None" if "k \<noteq> SESSION_KEY" "k \<noteq> ENCRYPTED_FLAG" for k
    using rest [OF that] by (simp add: get_meta_def reveal_opt_def split: option.split)
  have keys: "get_meta ?L PICKLE_KEY_META ?s = Inr None" "get_meta ?L BACKUP_KEY_META ?s = Inr None"
    by (rule none; code_simp)+
  have tables: "t_room (s_db ?s) = []" "t_message (s_db ?s) = []" "t_edit (s_db ?s) = []" "t_member (s_db ?s) = []"
    "t_pickle (s_db ?s) = []"
    using wiped_clear [of s] by (simp_all add: new_account_store_def save_session_def wiped_def)
  note start = first_start_is_new [OF assms(1) tables(5) keys, of n]
  have "SESSION_KEY \<noteq> PICKLE_KEY_META" by code_simp
  note frame = load_or_create_frame(1,2) [OF start(1) this]
  have "get_meta ?L SESSION_KEY ?s' = get_meta ?L SESSION_KEY ?s"
    by (simp add: get_meta_def reveal_opt_def reveal_def frame Let_def split: option.split)
  then have session: "get_meta ?L SESSION_KEY ?s' = Inr (Some (json_print (js E) (session_fields sess)))" by (simp only: sess)
  have metas: "meta_of ?s' k = None" if "k \<notin> {SESSION_KEY, PICKLE_KEY_META, ENCRYPTED_FLAG}" for k
    using load_or_create_frame(1) [OF start(1), of k] rest [of k] that by simp
  have only: "\<forall>k. meta_of ?s' k \<noteq> None \<longrightarrow> k \<in> {SESSION_KEY, PICKLE_KEY_META, ENCRYPTED_FLAG}"
    by (intro allI impI, rule ccontr, erule notE, rule metas)
  have pickle: "t_pickle (s_db ?s') = [\<lparr>pk_kind = KIND_ACCOUNT, pk_id = ''self'', pk_extra = [],
      pk_pickle = acc_pickle (vz E) (random_key (vz E) n) (acc_new (vz E) (n + 1))\<rparr>]"
    using tables(5) by (simp add: new_crypto_store_def put_pickle_def on_db_def upsert_def)
  have rows: "t_room (s_db ?s') = []" "t_message (s_db ?s') = []" "t_edit (s_db ?s') = []" "t_member (s_db ?s') = []"
    using tables by (simp_all add: new_crypto_store_def)
  have "holds_only E n sess ?s'"
    unfolding holds_only_def by (intro conjI) (fact rows pickle session only)+
  with start show ?thesis by blast
qed

lemma login_session:
  assumes "on_net (api_login N user pw a) d = (Inr (sess, a'), d')"
  shows "api_token a' = Some (access_token sess)" "api_base a' = homeserver sess"
  using assms by (auto simp: on_net_def api_login_def set_auth_def bind_ok_eq_Inr Let_def split: prod.splits sum.splits)

text \<open>The daemon of a new login, whose random draws start with the n-th.\<close>

definition replaced_by :: "'k daemon_lib \<Rightarrow> nat \<Rightarrow> session \<Rightarrow> 'k daemon \<Rightarrow> bool" where
  "replaced_by E n sess d \<longleftrightarrow>
     d_session d = Some sess \<and> d_state d = Syncing \<and> d_wake d
     \<and> (\<exists>a. d_api d = Some a \<and> api_token a = Some (access_token sess) \<and> api_base a = homeserver sess)
     \<and> d_crypto d = Some (new_crypto (vz E) n) \<and> persisted (vz E) (new_crypto (vz E) n, d_store d)
     \<and> holds_only E n sess (d_store d)"

lemma draws_set_state: "draws_so_far (set_state E st e d) = draws_so_far d"
  by (simp add: set_state_def publish_def on_bus_def draws_so_far_def split: option.split)

lemma draws_so_far_world: "draws_so_far (d\<lparr>d_world := w\<rparr>) = draws_so_far d"
  by (simp add: draws_so_far_def split: option.split)

lemma login_success:
  assumes "crypto_lib_ok (vz E)" "text_ok (s_key (d_store d)) (json_print (js E) (session_fields sess))"
    and q: "on_net (api_new (net E) hs) (set_state E Connecting None d) = (Inr a, d1)"
    and r: "on_net (api_login (net E) user pw a) d1 = (Inr (sess, a'), d2)"
  shows "\<exists>d'. do_login E hs user pw d = (Inr sess, d') \<and> replaced_by E (draws_so_far d) sess d'"
proof -
  have d2: "d_store d2 = d_store d" "draws_so_far d2 = draws_so_far d"
    using q r by (auto simp: on_net_def draws_set_state draws_so_far_world Let_def split: prod.splits)
  let ?d3 = "on_store (save_session (cipher E) (js E) sess \<circ> clear) d2\<lparr>d_api := Some a'\<rparr>" and ?n = "draws_so_far d"
  let ?c = "new_crypto (vz E) ?n"
  have s3: "d_store ?d3 = new_account_store E sess (d_store d)" by (simp add: new_account_store_def d2)
  have n3: "draws_so_far ?d3 = ?n" using d2(2) by (simp add: draws_so_far_def on_store_def split: option.splits)
  from new_account_starts [OF assms(1,2), of ?n] obtain s' where
    l: "load_or_create (vz E) (draws_so_far ?d3) (d_store ?d3) = (Inr ?c, s')" "persisted (vz E) (?c, s')"
    and s': "holds_only E ?n sess s'"
    unfolding s3 n3 by blast
  have start: "start_crypto E ?d3 = (Inr (), ?d3\<lparr>d_store := s', d_crypto := Some ?c\<rparr>)"
    unfolding start_crypto_def Let_def l(1) by simp
  have "do_login E hs user pw d =
      (Inr sess, kick (set_state E Syncing None (?d3\<lparr>d_store := s', d_crypto := Some ?c\<rparr>\<lparr>d_session := Some sess\<rparr>)))"
    using q r start by (simp add: do_login_def and_then_def Let_def)
  with login_session [OF r] l(2) s' show ?thesis by (auto simp: kick_def replaced_by_def)
qed

text \<open>
  C19: A login is all or nothing. When it fails, whatever the reason, the store, the session, the
  client and the crypto state are those from before. When it succeeds, nothing of the account before
  is left: no room, message, edit or name of a member, no pickle and no meta value but those of the
  new login, which are its session, the new device's account and pickle key, and the mark that the
  store is encrypted. The crypto state is that of a new device, with an identity from random draws not
  made before and no session, no key and no known device, and a restart finds it again; the client
  carries the token the server gave, and the sync loop is woken.
\<close>

theorem login_replaces_or_keeps:
  assumes "crypto_lib_ok (vz E)" "\<And>x. text_ok (s_key (d_store d)) (json_print (js E) (session_fields x))"
  shows "case do_login E hs user pw d of
      (Inl e, d') \<Rightarrow> d_store d' = d_store d \<and> d_session d' = d_session d \<and> d_api d' = d_api d \<and> d_crypto d' = d_crypto d
    | (Inr sess, d') \<Rightarrow> replaced_by E (draws_so_far d) sess d'"
proof -
  obtain q d1 where q: "on_net (api_new (net E) hs) (set_state E Connecting None d) = (q, d1)" by force
  then have d1: "d_store d1 = d_store d" "d_session d1 = d_session d" "d_api d1 = d_api d" "d_crypto d1 = d_crypto d"
    by (auto simp: on_net_def Let_def split: prod.splits)
  show ?thesis
  proof (cases q)
    case (Inl e)
    then show ?thesis using q d1 by (simp add: do_login_def and_then_def)
  next
    case (Inr a)
    obtain r d2 where r: "on_net (api_login (net E) user pw a) d1 = (r, d2)" by force
    then have d2: "d_store d2 = d_store d" "d_session d2 = d_session d" "d_api d2 = d_api d" "d_crypto d2 = d_crypto d"
      using d1 by (auto simp: on_net_def Let_def split: prod.splits)
    show ?thesis
    proof (cases r)
      case (Inl e)
      then show ?thesis using q Inr r d2 by (simp add: do_login_def and_then_def)
    next
      case ok: (Inr sa)
      obtain sess a' where "sa = (sess, a')" by (cases sa)
      with login_success [OF assms(1) assms(2) [of sess], of hs a d1 user pw a' d2] q Inr r ok
      show ?thesis by auto
    qed
  qed
qed

text \<open>A server that lets the user in, on a daemon that holds another account.\<close>

definition login_json :: json_lib where
  "login_json = ok_json\<lparr>json_parse := (\<lambda>t. Inr (obj [(''user_id'', JStr ''@b:a.io''), (''device_id'', JStr ''E''), (''access_token'', JStr ''u'')]))\<rparr>"

definition login_net :: net_lib where
  "login_net = ok_net\<lparr>net_json := login_json\<rparr>"

definition login_env :: "string daemon_lib" where
  "login_env = demo_env\<lparr>net := login_net\<rparr>"

lemma login_net_client:
  "\<exists>w'. api_new login_net ''https://a.io'' w = (Inr \<lparr>api_base = ''https://a.io'', api_token = None, api_skew = 0\<rparr>, w')"
proof -
  have base: "normalize_base ''https://a.io'' = Inr ''https://a.io''" by code_simp
  show ?thesis
    by (simp add: api_new_def base discover_def quiet_get_def call_def login_net_def ok_net_def read_json_def from_str_def
        login_json_def ok_json_def obj_def bt_collect_def dec_well_known_def field_or_def Let_def)
qed

lemma login_net_session:
  "\<exists>sess a' w'. api_login login_net u pw a w = (Inr (sess, a'), w') \<and> user_id sess = ''@b:a.io'' \<and> homeserver sess = api_base a"
  by (simp add: api_login_def call_def login_net_def ok_net_def finish_def check_status_def read_json_def from_str_def
      login_json_def ok_json_def obj_def bt_collect_def dec_login_response_def field_def dec_str_def Let_def)

lemma login_net_login:
  assumes "net E = login_net" "crypto_lib_ok (vz E)" "\<And>x. text_ok (s_key (d_store d)) (json_print (js E) (session_fields x))"
  shows "\<exists>sess d'. do_login E ''https://a.io'' u pw d = (Inr sess, d') \<and> user_id sess = ''@b:a.io''
    \<and> homeserver sess = ''https://a.io'' \<and> replaced_by E (draws_so_far d) sess d'"
proof -
  let ?a = "\<lparr>api_base = ''https://a.io'', api_token = None, api_skew = 0\<rparr>"
  obtain d1 where q: "on_net (api_new (net E) ''https://a.io'') (set_state E Connecting None d) = (Inr ?a, d1)"
    using login_net_client [of "d_world (set_state E Connecting None d)"] by (auto simp: on_net_def assms(1))
  obtain sess a' w' where "api_login (net E) u pw ?a (d_world d1) = (Inr (sess, a'), w')"
    and sess: "user_id sess = ''@b:a.io''" "homeserver sess = ''https://a.io''"
    using login_net_session [of u pw ?a "d_world d1"] by (auto simp: assms(1))
  then have r: "on_net (api_login (net E) u pw ?a) d1 = (Inr (sess, a'), d1\<lparr>d_world := w'\<rparr>)"
    by (simp add: on_net_def)
  from login_success [OF assms(2,3) q r] sess show ?thesis by blast
qed

lemma unary_text_ok: "text_ok key (json_print unary_json v)"
proof -
  have "\<not> is_sealed (replicate n CHR ''1'')" for n
    by (cases n) (simp_all add: is_sealed_def ENC_PREFIX_def)
  then show ?thesis using valid_utf8_ascii [OF unary_print_ascii] by (simp add: text_ok_def unary_json_def)
qed

theorem login_replaces_or_keeps_witness:
  "\<exists>sess d'. do_login login_env ''https://a.io'' ''b'' ''secret'' demo_daemon = (Inr sess, d')
     \<and> user_id sess = ''@b:a.io'' \<and> room_ids (d_store demo_daemon) \<noteq> {} \<and> room_ids (d_store d') = {}"
proof -
  have env: "vz login_env = demo_crypto" "js login_env = unary_json" "net login_env = login_net"
    by (simp_all add: login_env_def demo_env_def demo_crypto_def)
  have V: "crypto_lib_ok (vz login_env)" by (simp add: env demo_crypto_ok)
  have texts: "text_ok (s_key (d_store demo_daemon)) (json_print (js login_env) (session_fields x))" for x
    unfolding env(2) by (rule unary_text_ok)
  obtain sess d' where l: "do_login login_env ''https://a.io'' ''b'' ''secret'' demo_daemon = (Inr sess, d')"
      "user_id sess = ''@b:a.io''"
    using login_net_login [OF env(3) V texts] by blast
  have "room_ids (d_store demo_daemon) \<noteq> {}" by (simp add: room_ids_def demo_store_room)
  with login_replaces_or_keeps [OF V texts, of "''https://a.io''" "''b''" "''secret''"] l
  show ?thesis by (auto simp: replaced_by_def holds_only_def room_ids_def)
qed

end
