(* ===== verification/Event_Laws.thy ===== *)
theory Event_Laws
  imports Footprint_Daemon
begin

text \<open>
  What an event of a room becomes. An event is skipped, or its content can be read, or it is locked; a
  readable edit is recorded and not shown, everything else that has a text becomes a message of a fixed
  shape. The events of a list are taken in turn, each against the daemon as the ones before left it.
\<close>

section \<open>Reading an event\<close>

datatype reading = Skipped | Locked string | Readable event_content

text \<open>What there is to read in an event, with the keys the daemon has at that moment.\<close>

definition reading :: "'k daemon_lib \<Rightarrow> 'k daemon \<Rightarrow> room_event \<Rightarrow> reading" where
  "reading E d ev =
     (if e_kind ev = ''m.room.message'' then Readable (e_content ev)
      else if e_kind ev = ''m.room.encrypted'' then
        (case (c_ciphertext (e_content ev), c_session_id (e_content ev)) of
           (Some ct, Some sid) \<Rightarrow>
             (case fst (decrypt_event E sid ct d) of
                Inl e \<Rightarrow> Locked placeholder_text
              | Inr raw \<Rightarrow>
                  (case from_str (js E) dec_decrypted_event raw of
                     Inl e \<Rightarrow> Locked (''[malformed plaintext: '' @ e @ '']'') | Inr content \<Rightarrow> Readable content))
         | _ \<Rightarrow> Skipped)
      else Skipped)"

text \<open>Which events become messages: locked ones, and those with a text that are not edits.\<close>

definition shown :: "'k daemon_lib \<Rightarrow> 'k daemon \<Rightarrow> room_event \<Rightarrow> bool" where
  "shown E d ev \<longleftrightarrow>
     (case reading E d ev of
        Skipped \<Rightarrow> False
      | Locked t \<Rightarrow> True
      | Readable content \<Rightarrow> edit_target content = None \<and> c_body content \<noteq> None \<and> c_body content \<noteq> Some [])"

text \<open>And what the message is.\<close>

definition renders :: "'k daemon_lib \<Rightarrow> string \<Rightarrow> session \<Rightarrow> 'k daemon \<Rightarrow> room_event \<Rightarrow> message \<Rightarrow> bool" where
  "renders E room sess d ev m \<longleftrightarrow>
     m_event_id m = e_event_id ev \<and> m_room m = room \<and> m_sender m = e_sender ev \<and> m_ts m = e_ts ev
     \<and> m_mine m = (e_sender ev = user_id sess) \<and> m_encrypted m = (e_kind ev = ''m.room.encrypted'')
     \<and> (case reading E d ev of
          Skipped \<Rightarrow> False
        | Locked t \<Rightarrow> m_body m = t \<and> \<not> m_decrypted m
            \<and> m_session_id m = c_session_id (e_content ev) \<and> m_ciphertext m = c_ciphertext (e_content ev)
        | Readable content \<Rightarrow> c_body content = Some (m_body m) \<and> m_decrypted m
            \<and> m_session_id m = None \<and> m_ciphertext m = None)"

text \<open>An edit, or a newer one of the same event, is in the store.\<close>

definition edit_since :: "string \<Rightarrow> int \<Rightarrow> store \<Rightarrow> bool" where
  "edit_since target i s \<longleftrightarrow> (\<exists>row. row_at er_target target (t_edit (s_db s)) = Some row \<and> i \<le> er_ts row)"

definition edit_kept :: "'k daemon_lib \<Rightarrow> 'k daemon \<Rightarrow> room_event \<Rightarrow> store \<Rightarrow> bool" where
  "edit_kept E d ev s \<longleftrightarrow>
     (case reading E d ev of
        Readable content \<Rightarrow>
          (case edit_target content of
             Some target \<Rightarrow> edited_text content = [] \<or> edit_since target (ts_column (e_ts ev)) s
           | None \<Rightarrow> True)
      | _ \<Rightarrow> True)"

section \<open>Converting it\<close>

lemma edit_recorded: "edit_since target (ts_column ts) (snd (record_edit L target ts body s))"
  by (auto simp: edit_since_def record_edit_def case_prod_unfold Let_def protect_def on_db_def row_at_upsert
      split: option.splits)

lemma edit_since_run:
  assumes "w \<noteq> Clear" "edit_since target i s"
  shows "edit_since target i (run_write L w s)"
proof (cases w)
  case (SetMeta k v)
  then show ?thesis using assms
    by (simp add: edit_since_def set_meta_def on_db_def case_prod_unfold Let_def split: option.split)
next
  case (RecordEdit t ts b)
  then show ?thesis using assms
    by (auto simp: edit_since_def record_edit_def case_prod_unfold Let_def on_db_def row_at_upsert
        split: option.splits)
next
  case (RememberMembers r names)
  have one: "t_edit (s_db (remember_member L r e u)) = t_edit (s_db u)" for e u
    by (simp add: remember_member_def on_db_def case_prod_unfold Let_def split: option.split)
  have "t_edit (s_db (fold (remember_member L r) names u)) = t_edit (s_db u)" for u
    by (induction names arbitrary: u) (simp_all add: one)
  with RememberMembers assms show ?thesis by (simp add: edit_since_def remember_members_def)
qed (use assms in \<open>simp_all add: edit_since_def write_ops\<close>)

lemma edits_stay:
  assumes "dw E A s d" "\<not> A Clear" "edit_since target i s"
  shows "edit_since target i (d_store d)"
proof (rule writes_invariant [OF assms(1), of "edit_since target i", OF assms(3)])
  fix w u assume "A w" "edit_since target i u"
  then show "edit_since target i (run_write (cipher E) w u)" using assms(2) by (intro edit_since_run) auto
qed

lemma edit_kept_later:
  assumes "edit_kept E d ev s" "dw E A s d'" "\<not> A Clear"
  shows "edit_kept E d ev (d_store d')"
  using assms(1) edits_stay [OF assms(2,3)] by (auto simp: edit_kept_def split: reading.splits option.splits)

lemma recorded_edit:
  "record_if_edit E ts content d = (edit_target content \<noteq> None, snd (record_if_edit E ts content d))"
  "edit_target content = Some target \<Longrightarrow> edited_text content \<noteq> [] \<Longrightarrow>
     edit_since target (ts_column ts) (d_store (snd (record_if_edit E ts content d)))"
  by (simp_all add: record_if_edit_def edit_recorded Let_def split: option.split)

text \<open>Where both kinds of event come to, once there is a content to read.\<close>

lemma shown_content:
  assumes "reading E d ev = Readable content"
    and "(if edit_target content \<noteq> None \<or> (case c_body content of Some b \<Rightarrow> b | None \<Rightarrow> []) = [] then None
          else Some (message_from room ev sess (case c_body content of Some b \<Rightarrow> b | None \<Rightarrow> []) enc None), da) = (m, d')"
    and "enc = (e_kind ev = ''m.room.encrypted'')"
    and "\<And>target. edit_target content = Some target \<Longrightarrow> edited_text content \<noteq> [] \<Longrightarrow>
          edit_since target (ts_column (e_ts ev)) (d_store da)"
  shows "(case m of None \<Rightarrow> \<not> shown E d ev | Some x \<Rightarrow> shown E d ev \<and> renders E room sess d ev x)
    \<and> edit_kept E d ev (d_store d')"
proof (cases "c_body content")
  case None
  with assms show ?thesis by (auto simp: shown_def edit_kept_def split: option.split)
next
  case (Some b)
  with assms show ?thesis
    by (cases "edit_target content"; cases "b = []") (auto simp: shown_def edit_kept_def renders_def message_from_def)
qed

lemma convert_event_reads:
  assumes "convert_event E room ev sess d = (m, d')"
  shows "case m of None \<Rightarrow> \<not> shown E d ev | Some x \<Rightarrow> shown E d ev \<and> renders E room sess d ev x"
    "edit_kept E d ev (d_store d')"
proof -
  let ?content = "e_content ev"
  consider (unencrypted) "e_kind ev = ''m.room.message''"
    | (sealed) ct sid where "e_kind ev = ''m.room.encrypted''" "c_ciphertext ?content = Some ct" "c_session_id ?content = Some sid"
    | (other) "reading E d ev = Skipped" "convert_event E room ev sess d = (None, d)"
    by (cases "e_kind ev = ''m.room.message''"; cases "e_kind ev = ''m.room.encrypted''";
        cases "c_ciphertext ?content"; cases "c_session_id ?content") (simp_all add: reading_def convert_event_def)
  then have "(case m of None \<Rightarrow> \<not> shown E d ev | Some x \<Rightarrow> shown E d ev \<and> renders E room sess d ev x)
      \<and> edit_kept E d ev (d_store d')"
  proof cases
    case unencrypted
    then have r: "reading E d ev = Readable ?content" by (simp add: reading_def)
    have conv: "convert_plain E room ev sess d = (m, d')" using assms unencrypted by (simp add: convert_event_def)
    obtain d2 where e: "record_if_edit E (e_ts ev) ?content d = (edit_target ?content \<noteq> None, d2)"
      using recorded_edit(1) by blast
    show ?thesis
      by (rule shown_content [OF r, where enc = False and da = d2 and room = room and sess = sess])
        (use conv unencrypted recorded_edit(2) [of ?content _ "e_ts ev" E d] in
          \<open>simp_all add: convert_plain_def e Let_def cong: if_cong\<close>)
  next
    case sealed
    have conv: "convert_encrypted E room ev sess ct sid d = (m, d')" using assms sealed by (simp add: convert_event_def)
    obtain q d1 where q: "decrypt_event E sid ct d = (q, d1)" by force
    show ?thesis
    proof (cases "\<exists>raw content. q = Inr raw \<and> from_str (js E) dec_decrypted_event raw = Inr content")
      case False
      then obtain t where r: "reading E d ev = Locked t" "m = Some (message_from room ev sess t True (Some (sid, ct)))"
        using conv sealed q
        by (cases q) (auto simp: reading_def convert_encrypted_def split: sum.splits)
      then show ?thesis using sealed by (simp add: shown_def renders_def edit_kept_def message_from_def)
    next
      case True
      then obtain raw content where p: "q = Inr raw" "from_str (js E) dec_decrypted_event raw = Inr content" by blast
      then have r: "reading E d ev = Readable content" using sealed q by (simp add: reading_def)
      obtain d2 where e: "record_if_edit E (e_ts ev) content d1 = (edit_target content \<noteq> None, d2)"
        using recorded_edit(1) by blast
      show ?thesis
        by (rule shown_content [OF r, where enc = True and da = d2 and room = room and sess = sess])
          (use conv sealed recorded_edit(2) [of content _ "e_ts ev" E d1] in
            \<open>simp_all add: convert_encrypted_def q p e Let_def cong: if_cong\<close>)
    qed
  next
    case other
    then show ?thesis using assms by (simp add: shown_def edit_kept_def)
  qed
  then show "case m of None \<Rightarrow> \<not> shown E d ev | Some x \<Rightarrow> shown E d ev \<and> renders E room sess d ev x"
    "edit_kept E d ev (d_store d')" by simp_all
qed

section \<open>Events in turn\<close>

text \<open>Each event with the daemon as it is when its turn comes.\<close>

fun turns :: "(room_event \<Rightarrow> 'k daemon \<Rightarrow> 'k daemon) \<Rightarrow> room_event list \<Rightarrow> 'k daemon \<Rightarrow> ('k daemon \<times> room_event) list" where
  "turns take_in [] d = []"
| "turns take_in (ev # evs) d = (d, ev) # turns take_in evs (take_in ev d)"

end
