(* ===== verification/Timeline_Laws.thy ===== *)
theory Timeline_Laws
  imports Sync_Laws Frames Daemon_Demo Event_Laws
begin

text \<open>
  What the timeline of a room is made of: which events become messages, and of what shape; and paging
  older history, which stores what a page brings before it moves on, and comes to an end.
\<close>

section \<open>The messages of a timeline\<close>


section \<open>Older history\<close>

definition edge :: "string \<Rightarrow> 'k daemon \<Rightarrow> string option \<times> bool" where
  "edge room d = back_token room (d_store d)"

lemma messages_kept:
  assumes "dw E message_write s d"
  shows "room_ids (d_store d) = room_ids s" "message_ids s \<subseteq> message_ids (d_store d)"
    "edge room d = back_token room s"
proof -
  let ?L = "cipher E"
  have "message_write w \<Longrightarrow> room_ids (run_write ?L w u) = room_ids u
      \<and> message_ids u \<subseteq> message_ids (run_write ?L w u) \<and> back_token room (run_write ?L w u) = back_token room u" for w u
  proof -
    assume w: "message_write w"
    then have "w \<noteq> Clear" "w \<noteq> SetBackToken room t b" "w \<noteq> SeedBackToken room t'" "\<And>r. w \<noteq> UpsertRoom r" for t b t' by auto
    then show ?thesis using edge_run [of w room ?L u] w
      by (cases w) (auto simp: room_ids_run message_ids_run simp del: run_write.simps)
  qed
  then show "room_ids (d_store d) = room_ids s" "message_ids s \<subseteq> message_ids (d_store d)" "edge room d = back_token room s"
    using writes_invariant [OF assms, of "\<lambda>u. room_ids u = room_ids s"]
      writes_invariant [OF assms, of "\<lambda>u. message_ids s \<subseteq> message_ids u"]
      writes_invariant [OF assms, of "\<lambda>u. back_token room u = back_token room s"]
    by (auto simp: edge_def)
qed

text \<open>An event of a page is in the store: as a message, or as an edit; or there is nothing to it.\<close>

definition event_kept :: "'k daemon_lib \<Rightarrow> 'k daemon \<Rightarrow> room_event \<Rightarrow> store \<Rightarrow> bool" where
  "event_kept E d ev s \<longleftrightarrow> (if shown E d ev then e_event_id ev \<in> message_ids s else True) \<and> edit_kept E d ev s"

lemma event_kept_later:
  assumes "event_kept E d ev s" "dw E message_write s d'"
  shows "event_kept E d ev (d_store d')"
  using assms(1) edit_kept_later [OF _ assms(2), of d ev] messages_kept(2) [OF assms(2)]
  by (auto simp: event_kept_def split: if_splits)

text \<open>One event of a page: converted, and stored if it gives a message.\<close>

definition take_event :: "'k daemon_lib \<Rightarrow> string \<Rightarrow> session \<Rightarrow> room_event \<Rightarrow> 'k daemon \<Rightarrow> 'k daemon" where
  "take_event E room sess ev d = snd (store_page E room sess [ev] d)"

lemma store_page_Cons:
  "store_page E room sess (ev # evs) d =
     (case store_page E room sess [ev] d of (k, d1) \<Rightarrow> case store_page E room sess evs d1 of (n, d2) \<Rightarrow> (k + n, d2))"
  by (simp add: case_prod_unfold Let_def split: option.split)

lemma store_event:
  "store_page E room sess [ev] d = (k, d1) \<Longrightarrow> k = (if shown E d ev then 1 else 0) \<and> event_kept E d ev (d_store d1)"
proof -
  assume s: "store_page E room sess [ev] d = (k, d1)"
  obtain m d0 where c: "convert_event E room ev sess d = (m, d0)" by force
  note reads = convert_event_reads [OF c]
  show ?thesis
  proof (cases m)
    case None
    with s c reads show ?thesis by (simp add: event_kept_def)
  next
    case (Some x)
    then have d1: "d1 = on_store (insert_message (cipher E) x) d0" "k = 1" using s c by simp_all
    have "wrote (cipher E) message_write (d_store d0) (insert_message (cipher E) x (d_store d0))"
      by (intro footprint wrote.none) simp
    then have "dw E message_write (d_store d0) d1" unfolding d1(1) by simp
    from edit_kept_later [OF reads(2) this] have "edit_kept E d ev (d_store d1)" by simp
    moreover have "e_event_id ev \<in> message_ids (d_store d1)"
      using message_ids_run [of "InsertMessage x" "cipher E" "d_store d0"] reads(1) Some by (simp add: d1 renders_def)
    ultimately show ?thesis using reads(1) Some d1(2) by (simp add: event_kept_def)
  qed
qed

lemma store_page_keeps:
  "store_page E room sess chunk d = (n, d') \<Longrightarrow>
     n = length (filter (\<lambda>(d0, ev). shown E d0 ev) (turns (take_event E room sess) chunk d))
     \<and> list_all (\<lambda>(d0, ev). event_kept E d0 ev (d_store d')) (turns (take_event E room sess) chunk d)"
proof (induction chunk arbitrary: d n)
  case (Cons ev evs)
  obtain k d1 where one: "store_page E room sess [ev] d = (k, d1)" by force
  obtain n' d2 where rest: "store_page E room sess evs d1 = (n', d2)" by force
  have split: "n = k + n'" "d' = d2" using Cons.prems by (simp_all only: store_page_Cons [of E room sess ev evs] one rest prod.case prod.inject)
  have "dw E message_write (d_store d1) (snd (store_page E room sess evs d1))" by (rule dw_store_page [OF dw_start])
  then have "dw E message_write (d_store d1) d2" unfolding rest by simp
  then have kept: "event_kept E d ev (d_store d2)" using event_kept_later store_event [OF one] by blast
  have seen: "turns (take_event E room sess) (ev # evs) d = (d, ev) # turns (take_event E room sess) evs d1"
    by (simp add: take_event_def one del: store_page.simps)
  show ?case
    unfolding seen split using Cons.IH [OF rest [folded split(2)]] kept store_event [OF one] split(2) by simp
qed simp

lemma load_page:
  assumes "d_api d = Some a" "d_session d = Some sess" "room \<in> room_ids (d_store d)"
  shows "case do_load_older E room limit d of (r, d') \<Rightarrow>
     (if snd (edge room d) then r = Inr (0, True) \<and> d' = d
      else case on_net (api_messages (net E) a room (fst (edge room d)) limit) d of
        (Inl e, d1) \<Rightarrow> r = Inl e \<and> d' = d1 \<and> d_store d1 = d_store d
      | (Inr (chunk, ending), d1) \<Rightarrow>
          (let seen = turns (take_event E room sess) chunk d1;
               n = length (filter (\<lambda>(d0, ev). shown E d0 ev) seen); stop = (ending = None \<or> chunk = [])
           in edge room d' = (ending, stop) \<and> room \<in> room_ids (d_store d')
              \<and> list_all (\<lambda>(d0, ev). event_kept E d0 ev (d_store d')) seen
              \<and> message_ids (d_store d) \<subseteq> message_ids (d_store d')
              \<and> r = (if n = 0 then Inr (0, stop)
                     else case recent_messages (cipher E) room (max limit 50) (d_store d') of
                       Inl e \<Rightarrow> Inl e | Inr msgs \<Rightarrow> Inr (n, stop))))"
proof -
  obtain tok reached where tok: "back_token room (d_store d) = (tok, reached)" by force
  obtain q d1 where q: "on_net (api_messages (net E) a room tok limit) d = (q, d1)" by force
  then have d1: "d_store d1 = d_store d" by (auto simp: on_net_def Let_def split: prod.splits)
  show ?thesis
  proof (cases "reached \<or> isl q")
    case True
    then show ?thesis using assms q d1
      by (cases q) (auto simp: do_load_older_def tok edge_def)
  next
    case False
    then obtain chunk ending where page: "q = Inr (chunk, ending)" by (cases q) auto
    let ?stop = "ending = None \<or> chunk = []"
    obtain n d2 where n: "store_page E room sess chunk d1 = (n, d2)" by force
    let ?d3 = "on_store (set_back_token room ending ?stop) d2"
    let ?d4 = "try_restore_room E room ?d3"
    note kept = store_page_keeps [OF n]
    have count: "length (filter (\<lambda>(d0, ev). shown E d0 ev) (turns (take_event E room sess) chunk d1)) = n" using kept by simp
    then have none: "filter (\<lambda>(d0, ev). shown E d0 ev) (turns (take_event E room sess) chunk d1) = [] \<longleftrightarrow> n = 0" by auto
    have w2: "dw E message_write (d_store d1) d2" using dw_store_page [OF dw_start, of E d1 room sess chunk] by (simp add: n)
    have w4: "dw E message_write (d_store ?d3) ?d4" by (rule dw_try_restore [OF dw_start])
    have known: "room \<in> room_ids (d_store d2)" using messages_kept(1) [OF w2] assms(3) d1 by simp
    then have e3: "edge room ?d3 = (ending, ?stop)" by (simp add: edge_def edge_set)
    have place: "event_kept E d0 ev (d_store ?d3)" if "event_kept E d0 ev (d_store d2)" for d0 ev
      using that message_ids_run [of "SetBackToken room ending ?stop" "cipher E" "d_store d2"]
        edit_since_run [of "SetBackToken room ending ?stop" _ _ "d_store d2" "cipher E"]
      by (auto simp: event_kept_def edit_kept_def split: reading.splits option.splits if_splits)
    have all: "list_all (\<lambda>(d0, ev). event_kept E d0 ev (d_store ?d4)) (turns (take_event E room sess) chunk d1)"
      using kept event_kept_later [OF place w4] by (auto simp: list_all_iff)
    have ids: "message_ids (d_store d) \<subseteq> message_ids (d_store ?d4)"
      using messages_kept(2) [OF w2] messages_kept(2) [OF w4] d1
        message_ids_run [of "SetBackToken room ending ?stop" "cipher E" "d_store d2"] by simp
    have there: "room \<in> room_ids (d_store ?d4)" "edge room ?d4 = (ending, ?stop)"
      using messages_kept(1) [OF w4] messages_kept(3) [OF w4, of room] e3 [unfolded edge_def] known room_ids_run [of "SetBackToken room ending ?stop" "cipher E" "d_store d2"]
      by simp_all
    have run: "do_load_older E room limit d = (if n = 0 then (Inr (n, ?stop), ?d4)
        else (case recent_messages (cipher E) room (max limit 50) (d_store ?d4) of
            Inl e \<Rightarrow> (Inl e, ?d4) | Inr msgs \<Rightarrow> (Inr (n, ?stop), publish_messages E room msgs ?d4)))"
      using False assms q page n by (simp add: do_load_older_def tok Let_def)
    obtain r d' where load: "do_load_older E room limit d = (r, d')" by force
    then have "d_store d' = d_store ?d4" "r = (if n = 0 then Inr (0, ?stop)
        else case recent_messages (cipher E) room (max limit 50) (d_store ?d4) of Inl e \<Rightarrow> Inl e | Inr msgs \<Rightarrow> Inr (n, ?stop))"
      unfolding run by (auto simp: publish_messages_def split: sum.splits if_splits)
    moreover have "edge room d' = edge room ?d4" using calculation(1) by (simp add: edge_def)
    moreover have "snd (edge room d) = False" "fst (edge room d) = tok" using False by (simp_all add: edge_def tok)
    ultimately show ?thesis
      unfolding load prod.case Let_def using q page all ids there by (simp add: count none split: sum.split)
  qed
qed


section \<open>The end of the history\<close>

definition older :: "'k daemon_lib \<Rightarrow> string \<Rightarrow> 32 word \<Rightarrow> 'k daemon \<Rightarrow> 'k daemon" where
  "older E room limit d = snd (do_load_older E room limit d)"

text \<open>A server whose pages get closer to the beginning, by some measure of its tokens.\<close>

definition finite_history :: "'k daemon_lib \<Rightarrow> api \<Rightarrow> string \<Rightarrow> 32 word \<Rightarrow> (string option \<Rightarrow> nat) \<Rightarrow> bool" where
  "finite_history E a room limit far \<longleftrightarrow>
     (\<forall>from_token w. \<exists>chunk ending w'. api_messages (net E) a room from_token limit w = (Inr (chunk, ending), w')
        \<and> (ending = None \<or> chunk = [] \<or> far ending < far from_token))"

lemma older_account: "d_api (older E room limit d) = d_api d" "d_session (older E room limit d) = d_session d"
  using keepsD [OF account.do_load_older, of d d E room limit] by (simp_all add: same_account_def older_def)

lemma older_step:
  assumes "finite_history E a room limit far" "d_api d = Some a" "d_session d = Some sess" "room \<in> room_ids (d_store d)"
  shows "room \<in> room_ids (d_store (older E room limit d))
    \<and> (snd (edge room (older E room limit d)) \<or> far (fst (edge room (older E room limit d))) < far (fst (edge room d)))"
proof -
  obtain chunk ending where page: "fst (api_messages (net E) a room (fst (edge room d)) limit (d_world d)) = Inr (chunk, ending)"
    "ending = None \<or> chunk = [] \<or> far ending < far (fst (edge room d))"
    using assms(1) unfolding finite_history_def by (metis fst_conv)
  obtain r d' where r: "do_load_older E room limit d = (r, d')" by force
  obtain d1 where net: "on_net (api_messages (net E) a room (fst (edge room d)) limit) d = (Inr (chunk, ending), d1)"
    using page(1) by (cases "api_messages (net E) a room (fst (edge room d)) limit (d_world d)") (simp add: on_net_def)
  show ?thesis
    using load_page [OF assms(2-4), of E limit] page(2) assms(4)
    unfolding older_def r snd_conv prod.case net sum.case Let_def by (cases "snd (edge room d)") simp_all
qed

text \<open>
  C16: Paging comes to the beginning of the history. On a server whose pages end, each no further from
  the beginning than some measure of its token, asking for older messages that many times and once
  more reaches the end: from then on the room is known to be complete, and asking again sends no
  request and changes nothing.
\<close>

theorem paging_reaches_the_beginning:
  assumes "finite_history E a room limit far"
    and "d_api d = Some a" "d_session d = Some sess" "room \<in> room_ids (d_store d)"
  shows "\<exists>n \<le> Suc (far (fst (edge room d))).
     snd (edge room ((older E room limit ^^ n) d))
     \<and> do_load_older E room limit ((older E room limit ^^ n) d) = (Inr (0, True), (older E room limit ^^ n) d)"
  using assms(2-4)
proof (induction "far (fst (edge room d))" arbitrary: d rule: less_induct)
  case less
  let ?d1 = "older E room limit d"
  have settled: "do_load_older E room limit x = (Inr (0, True), x)"
    if "snd (edge room x)" "d_api x = Some a" "d_session x = Some sess" for x
    using that by (simp add: do_load_older_def edge_def case_prod_unfold)
  have d1: "d_api ?d1 = Some a" "d_session ?d1 = Some sess" using less.prems by (simp_all add: older_account)
  from older_step [OF assms(1) less.prems] consider "snd (edge room ?d1)"
    | "far (fst (edge room ?d1)) < far (fst (edge room d))" "room \<in> room_ids (d_store ?d1)" by blast
  then show ?case
  proof cases
    case 1
    with settled [OF 1 d1] show ?thesis by (intro exI [of _ 1]) simp
  next
    case 2
    from less.hyps [OF 2(1) d1 2(2)] obtain n where n: "n \<le> Suc (far (fst (edge room ?d1)))"
      "snd (edge room ((older E room limit ^^ n) ?d1))"
      "do_load_older E room limit ((older E room limit ^^ n) ?d1) = (Inr (0, True), (older E room limit ^^ n) ?d1)"
      by blast
    with 2(1) show ?thesis by (intro exI [of _ "Suc n"]) (simp del: funpow.simps add: funpow_Suc_right)
  qed
qed

lemma demo_room_known: "''r'' \<in> room_ids (d_store demo_daemon)"
  by (simp add: room_ids_def demo_store_room)

lemma demo_page: "\<exists>w'. api_messages ok_net demo_api ''r'' t limit w = (Inr ([], None), w')"
  by (simp add: api_messages_def fetch_def get_auth_def api_bearer_def demo_api_def send_request_def call_def and_then_def ok_net_def finish_def
      check_status_def read_json_def from_str_def ok_json_def obj_def bt_collect_def dec_page_def field_or_def
      Let_def)


theorem paging_reaches_the_beginning_witness:
  "\<exists>n \<le> 1. do_load_older demo_env ''r'' 20 ((older demo_env ''r'' 20 ^^ n) demo_daemon)
      = (Inr (0, True), (older demo_env ''r'' 20 ^^ n) demo_daemon)"
proof -
  have "finite_history demo_env demo_api ''r'' 20 (\<lambda>t. 0)"
    using demo_page by (fastforce simp: finite_history_def)
  from paging_reaches_the_beginning [OF this _ _ demo_room_known, of demo_session] show ?thesis by auto
qed

end
