(* ===== verification/Startup_Laws.thy ===== *)
theory Startup_Laws
  imports Startup Account_Laws
begin

text \<open>
  What a start of the daemon may and may not do to the files of the machine, whether it succeeds or
  not: the key of the store, the database of a daemon that is running, and the port file.
\<close>

section \<open>Paths\<close>

lemma last_join [simp]: "name \<noteq> [] \<Longrightarrow> last (join_path dir name) = last name" and join_nonempty [simp]: "name \<noteq> [] \<Longrightarrow> join_path dir name \<noteq> []"
  by (simp_all add: join_path_def)

lemma paths_differ:
  assumes "last name \<noteq> last name'" "name \<noteq> []" "name' \<noteq> []"
  shows "join_path dir name \<noteq> join_path dir' name'"
  using assms last_join by metis

definition key_path :: "string option \<Rightarrow> string" where
  "key_path key_dir = join_path (case key_dir of Some p \<Rightarrow> p | None \<Rightarrow> DEFAULT_KEY_DIR) ''store.key''"

section \<open>Files that are left alone\<close>

text \<open>What a step does to files other than those named.\<close>

definition keeps_file :: "string \<Rightarrow> files \<Rightarrow> files \<Rightarrow> bool" where
  "keeps_file path s t \<longleftrightarrow> fs_data t path = fs_data s path \<and> fs_locked s \<subseteq> fs_locked t"

lemma keeps_file_refl: "keeps_file path s s"
  by (simp add: keeps_file_def)

lemma keeps_file_op:
  assumes "\<And>t. keeps_file path s t \<Longrightarrow> keeps_file path s (f t)"
  shows "keeps (keeps_file path s) (fs_op S what f)"
proof (rule keepsI)
  fix t assume "keeps_file path s t"
  then have "keeps_file path s (t\<lparr>fs_ops := fs_ops t + 1\<rparr>)" by (simp add: keeps_file_def)
  then show "keeps_file path s (snd (fs_op S what f t))" by (simp add: fs_op_def Let_def assms split: option.split)
qed

lemma keeps_file_install:
  assumes "path \<noteq> tmp" "path \<noteq> target"
  shows "keeps (keeps_file path s) (install_private S tmp target body what)"
proof -
  obtain w m i where what: "what = (w, m, i)" by (cases what)
  show ?thesis
    unfolding install_private_def what prod.case
    by (intro keeps_and_then keeps_file_op) (use assms in \<open>auto simp: keeps_file_def write_data_def chmod_def rename_def\<close>)
qed

lemma keeps_file_lock:
  assumes "path \<noteq> join_path dir ''kmatrix.lock''"
  shows "keeps (keeps_file path s) (take_lock S dir)"
  unfolding take_lock_def Let_def
  by (intro keeps_and_then keeps_file_op keepsI)
    (use assms in \<open>auto simp: keeps_file_def write_data_def split: option.split\<close>)

lemma keeps_file_listen:
  assumes "path \<noteq> join_path dir ''kmatrix.port.tmp''" "path \<noteq> join_path dir ''kmatrix.port''"
  shows "keeps (keeps_file path s) (listen S dir d)"
  unfolding keeps_def listen_def Let_def
  by (auto intro: keepsD [OF keeps_and_then [OF keeps_file_install [OF assms] keeps_succeed]] split: sum.split)

section \<open>The key of the store\<close>

lemma create_key_result:
  "case create_key S dir s of (r, s') \<Rightarrow>
     case r of Inl e \<Rightarrow> fs_data s' (join_path dir ''store.key'') = fs_data s (join_path dir ''store.key'')
     | Inr k \<Rightarrow> k \<noteq> None \<and> fs_data s' (join_path dir ''store.key'') = k \<and> fs_mode s' (join_path dir ''store.key'') = 0x180"
proof -
  have "join_path dir ''store.key'' \<noteq> join_path dir ''store.key.tmp''" by (rule paths_differ) simp_all
  then show ?thesis
    by (simp add: create_key_def and_then_def install_private_def fs_op_def Let_def write_data_def chmod_def rename_def succeed_def
        split: option.split sum.split)
qed

lemma key_loaded:
  "case load_or_create_store_key S key_dir s of (r, s') \<Rightarrow>
     (fs_data s (key_path key_dir) = None \<or> fs_data s' = fs_data s)
     \<and> (case r of Inl e \<Rightarrow> fs_data s' (key_path key_dir) = fs_data s (key_path key_dir)
        | Inr None \<Rightarrow> key_dir = Some []
        | Inr (Some k) \<Rightarrow> key_dir \<noteq> Some [] \<and> fs_data s' (key_path key_dir) = Some k
            \<and> (length k = 32 \<or> fs_data s (key_path key_dir) = None))"
proof (cases "key_dir = Some []")
  case True
  then show ?thesis by (simp add: load_or_create_store_key_def succeed_def)
next
  case False
  let ?dir = "case key_dir of Some p \<Rightarrow> p | None \<Rightarrow> DEFAULT_KEY_DIR"
  let ?s1 = "s\<lparr>fs_ops := fs_ops s + 1\<rparr>"
  obtain r s' where r: "create_key S ?dir ?s1 = (r, s')" by force
  from create_key_result [where S = S and dir = ?dir and s = ?s1] r False show ?thesis
    by (auto simp: load_or_create_store_key_def key_path_def and_then_def fs_op_def Let_def split: option.split sum.splits)
qed

lemma keeps_locks:
  "fs_locked (snd (load_or_create_store_key S key_dir s)) = fs_locked s"
  by (simp add: load_or_create_store_key_def create_key_def and_then_def install_private_def fs_op_def Let_def write_data_def
      chmod_def rename_def succeed_def split: option.split sum.split)

section \<open>The whole start\<close>

lemma lock_taken:
  "case take_lock S dir s of (r, s') \<Rightarrow>
     fs_data s' \<in> {fs_data s, (fs_data s)(join_path dir ''kmatrix.lock'' \<mapsto> [])}
     \<and> (isl r \<or> join_path dir ''kmatrix.lock'' \<notin> fs_locked s \<and> join_path dir ''kmatrix.lock'' \<in> fs_locked s')"
  by (auto simp: take_lock_def and_then_def fs_op_def Let_def write_data_def split: option.split sum.split)

lemma listening:
  assumes "listen S dir d s = (Inr d', s')" "d_port d = None" "d_token d = None"
  shows "d_store d' = d_store d \<and> (\<exists>port token. d_port d' = Some port \<and> d_token d' = Some token
      \<and> fs_data s' (join_path dir ''kmatrix.port'') = Some (port_file_body port token)
      \<and> fs_mode s' (join_path dir ''kmatrix.port'') = 0x180)"
proof -
  have "join_path dir ''kmatrix.port'' \<noteq> join_path dir ''kmatrix.port.tmp''" by (rule paths_differ) simp_all
  then show ?thesis
    using assms
    by (auto simp: listen_def and_then_def install_private_def fs_op_def Let_def write_data_def chmod_def rename_def succeed_def
        split: option.splits sum.splits)
qed

lemma keeps_on_files: "keeps J f \<Longrightarrow> keeps (\<lambda>mc. J (mc_files mc)) (on_files f)"
  by (auto simp: keeps_def on_files_def case_prod_unfold Let_def)

lemma files_open_session [simp]: "mc_files (snd (open_session S dir key mc)) = mc_files mc"
  by (simp add: open_session_def open_database_def and_then_def case_prod_unfold Let_def split: sum.split)

lemma keeps_reset:
  assumes "\<And>suf. suf \<in> set sufs \<Longrightarrow> K \<noteq> path @ suf"
  shows "keeps (\<lambda>mc. keeps_file K s (mc_files mc)) (reset_files S path sufs)"
  using assms
proof (induction sufs)
  case (Cons suf sufs)
  have one: "keeps (keeps_file K s) (fs_op S what (delete (path @ suf)))" for what
    by (rule keeps_file_op) (use Cons.prems in \<open>auto simp: keeps_file_def delete_def\<close>)
  have "keeps (\<lambda>mc. keeps_file K s (mc_files mc)) (\<lambda>mc. reset_files S path sufs
      (if suf = [] then mc\<lparr>mc_dbs := (mc_dbs mc)(path := None)\<rparr> else mc))"
    by (rule keepsI) (use keepsD [OF Cons.IH] Cons.prems in simp)
  from keeps_and_then [OF keeps_on_files [OF one] this] show ?case by (simp add: keeps_def)
qed (simp add: keeps_def)

lemma key_survives:
  assumes "fs_data (mc_files mc) (key_path (o_key_dir opts)) \<noteq> None"
  shows "fs_data (mc_files (snd (start_daemon S opts w draws mc))) (key_path (o_key_dir opts))
    = fs_data (mc_files mc) (key_path (o_key_dir opts))"
proof -
  let ?K = "key_path (o_key_dir opts)"
  let ?J = "keeps_file ?K (mc_files mc)"
  let ?M = "\<lambda>mc. ?J (mc_files mc)"
  have differs: "?K \<noteq> join_path dir name" if "last name \<noteq> CHR ''y''" "name \<noteq> []" for dir name
    unfolding key_path_def by (rule paths_differ) (use that in auto)
  have db: "?K \<noteq> join_path dir ''kmatrix.sqlite3'' @ suf" if "suf \<in> {[], ''-wal'', ''-shm''}" for dir suf
    using that differs [of "''kmatrix.sqlite3'' @ suf" dir] by (auto simp: join_path_def split: if_splits)
  have key: "keeps ?J (load_or_create_store_key S (o_key_dir opts))"
  proof (rule keepsI)
    fix t assume t: "?J t"
    then have "fs_data t ?K \<noteq> None" using assms by (simp add: keeps_file_def)
    with key_loaded [where S = S and key_dir = "o_key_dir opts" and s = t] have "fs_data (snd (load_or_create_store_key S (o_key_dir opts) t)) = fs_data t"
      by (auto split: prod.splits)
    with t show "?J (snd (load_or_create_store_key S (o_key_dir opts) t))" by (simp add: keeps_file_def keeps_locks)
  qed
  have last_stage: "keeps ?M (\<lambda>mc. case on_files (listen S dir d) mc of
      (Inl e, mc') \<Rightarrow> (Inl (c e), mc') | (Inr d', mc') \<Rightarrow> (Inr (g d'), mc'))" for dir d c and g :: "'a daemon \<Rightarrow> 'a process"
  proof (rule keepsI)
    have "snd (case x of (Inl e, mc') \<Rightarrow> (Inl (c e), mc') | (Inr d', mc') \<Rightarrow> (Inr (g d'), mc')) = snd x"
      for x :: "'a daemon result \<times> machine" by (simp split: prod.split sum.split)
    moreover have "keeps ?J (listen S dir d)" by (intro keeps_file_listen differs) simp_all
    moreover fix mc :: machine assume "?M mc"
    ultimately show "?M (snd (case on_files (listen S dir d) mc of (Inl e, mc') \<Rightarrow> (Inl (c e), mc') | (Inr d', mc') \<Rightarrow> (Inr (g d'), mc')))"
      using keepsD [OF keeps_on_files] by metis
  qed
  have "keeps ?M (on_files (fs_op S what (\<lambda>s. s)))" for what by (intro keeps_on_files keeps_file_op)
  moreover have "keeps ?M (on_files (take_lock S dir))" for dir
    by (intro keeps_on_files keeps_file_lock differs) simp_all
  moreover have "keeps ?M (if b then reset_files S (join_path dir ''kmatrix.sqlite3'') [[], ''-wal'', ''-shm''] else succeed ())" for b dir
  proof (cases b)
    case True
    then show ?thesis by (simp only: if_True) (rule keeps_reset, rule db, simp)
  qed (simp add: keeps_succeed)
  moreover have "keeps ?M (on_files (load_or_create_store_key S (o_key_dir opts)))" by (intro keeps_on_files key)
  moreover have "keeps ?M (open_session S dir k)" for dir k by (rule keepsI) simp
  moreover have "keeps ?M (from_result x)" for x :: "string result" by (rule keepsI) simp
  ultimately have "keeps ?M (start_daemon S opts w draws)"
    unfolding start_daemon_def case_prod_unfold
    by (intro keeps_and_then) (use last_stage in \<open>auto simp: case_prod_unfold\<close>)
  from keepsD [OF this, of mc] show ?thesis by (simp add: keeps_file_refl) (simp add: keeps_file_def)
qed

lemma key_restored [simp]: "s_key (d_store (restore_login E d)) = s_key (d_store d)"
proof -
  have "s_key (d_store (snd (start_crypto E x))) = s_key (d_store x)" for x
    using load_or_create_frame(2) [where k = "''x''", of "vz E" "draws_so_far x" "d_store x"]
    by (auto simp: start_crypto_def PICKLE_KEY_META_def Let_def split: prod.split sum.split)
  then show ?thesis
    by (auto simp: restore_login_def on_net_def Let_def split: option.split prod.split sum.split)
qed

lemma quiet_restored [simp]: "d_port (restore_login E d) = d_port d" "d_token (restore_login E d) = d_token d"
proof -
  have "d_port (snd (start_crypto E x)) = d_port x \<and> d_token (snd (start_crypto E x)) = d_token x" for x
    by (simp add: start_crypto_def Let_def split: prod.split sum.split)
  then show "d_port (restore_login E d) = d_port d" "d_token (restore_login E d) = d_token d"
    by (auto simp: restore_login_def on_net_def Let_def split: option.split prod.split sum.split)
qed

lemma opened_key:
  assumes "open_session S dir key mc = (Inr (s, sess), mc')"
  shows "s_key s = key" "mc_files mc' = mc_files mc"
proof -
  show "mc_files mc' = mc_files mc" using files_open_session [of S dir key mc] assms by simp
  show "s_key s = key"
    using assms by (auto simp: open_session_def open_database_def open_store_def and_then_def bind_ok_eq_Inr case_prod_unfold Let_def
        split: sum.splits option.splits if_splits)
qed

lemma on_files_eq: "on_files f mc = (r, mc') \<longleftrightarrow> (\<exists>s. f (mc_files mc) = (r, s) \<and> mc' = mc\<lparr>mc_files := s\<rparr>)"
  by (auto simp: on_files_def Let_def split: prod.splits)

lemma reset_locks [simp]: "fs_locked (mc_files (snd (reset_files S path sufs mc))) = fs_locked (mc_files mc)"
  by (induction sufs arbitrary: mc)
    (auto simp: and_then_def on_files_def fs_op_def delete_def Let_def split: option.split sum.split)

text \<open>The stages of a start that succeeds.\<close>

lemma start_stages:
  assumes "start_daemon S opts w draws mc = (Inr p, mc')" "o_data_dir opts = Some dir"
  obtains m1 m2 m3 m4 m5 key s sess d where
    "on_files (fs_op S (''creating data dir '' @ dir) (\<lambda>s. s)) mc = (Inr (), m1)"
    "on_files (take_lock S dir) m1 = (Inr (), m2)"
    "(if o_reset_store opts then reset_files S (join_path dir ''kmatrix.sqlite3'') [[], ''-wal'', ''-shm''] else succeed ()) m2 = (Inr (), m3)"
    "on_files (load_or_create_store_key S (o_key_dir opts)) m3 = (Inr key, m4)"
    "open_session S dir key m4 = (Inr (s, sess), m5)"
    "on_files (listen S dir (restore_login (daemon_env S) (fresh_daemon s sess w draws))) m5 = (Inr d, mc')"
    "p = serving (daemon_env S) d"
proof -
  obtain dir' m0 u1 m1 u2 m2 u3 m3 key m4 x m5 where
    "from_result (ok_or ''--data-dir is required'' (o_data_dir opts)) mc = (Inr dir', m0)"
    "on_files (fs_op S (''creating data dir '' @ dir') (\<lambda>s. s)) m0 = (Inr u1, m1)"
    "on_files (take_lock S dir') m1 = (Inr u2, m2)"
    "(if o_reset_store opts then reset_files S (join_path dir' ''kmatrix.sqlite3'') [[], ''-wal'', ''-shm''] else succeed ()) m2 = (Inr u3, m3)"
    "on_files (load_or_create_store_key S (o_key_dir opts)) m3 = (Inr key, m4)"
    "open_session S dir' key m4 = (Inr x, m5)"
    "(\<lambda>(s, sess) mc. case on_files (listen S dir' (restore_login (daemon_env S) (fresh_daemon s sess w draws))) mc of
        (Inl e, mc') \<Rightarrow> (Inl (Context ''starting IPC listener'' e), mc')
      | (Inr d, mc') \<Rightarrow> (Inr (serving (daemon_env S) d), mc')) x m5 = (Inr p, mc')"
    using assms(1) unfolding start_daemon_def and_then_Inr by blast
  then show ?thesis using that assms(2) by (cases x) (auto simp: ok_or_def from_result_def split: prod.splits sum.splits)
qed

lemma started:
  assumes "start_daemon S opts w draws mc = (Inr p, mc')" "o_data_dir opts = Some dir"
  shows "join_path dir ''kmatrix.lock'' \<notin> fs_locked (mc_files mc)"
    and "s_key (d_store (p_daemon p)) = (if o_key_dir opts = Some [] then None else fs_data (mc_files mc') (key_path (o_key_dir opts)))"
    and "o_key_dir opts = Some [] \<or> fs_data (mc_files mc') (key_path (o_key_dir opts)) \<noteq> None"
    and "\<exists>port token. d_port (p_daemon p) = Some port \<and> d_token (p_daemon p) = Some token
      \<and> fs_data (mc_files mc') (join_path dir ''kmatrix.port'') = Some (port_file_body port token)
      \<and> fs_mode (mc_files mc') (join_path dir ''kmatrix.port'') = 0x180"
proof -
  let ?K = "key_path (o_key_dir opts)" and ?E = "daemon_env S"
  from start_stages [OF assms] obtain m1 m2 m3 m4 m5 key s sess d where
    1: "on_files (fs_op S (''creating data dir '' @ dir) (\<lambda>s. s)) mc = (Inr (), m1)"
    and 2: "on_files (take_lock S dir) m1 = (Inr (), m2)"
    and 4: "on_files (load_or_create_store_key S (o_key_dir opts)) m3 = (Inr key, m4)"
    and 5: "open_session S dir key m4 = (Inr (s, sess), m5)"
    and 6: "on_files (listen S dir (restore_login ?E (fresh_daemon s sess w draws))) m5 = (Inr d, mc')"
    and p: "p = serving ?E d"
    by metis
  have "fs_locked (mc_files m1) = fs_locked (mc_files mc)"
    using 1 by (auto simp: on_files_eq fs_op_def Let_def split: option.splits)
  then show "join_path dir ''kmatrix.lock'' \<notin> fs_locked (mc_files mc)"
    using 2 lock_taken [where S = S and dir = dir and s = "mc_files m1"] by (auto simp: on_files_eq)
  obtain s6 where l: "listen S dir (restore_login ?E (fresh_daemon s sess w draws)) (mc_files m5) = (Inr d, s6)" "mc_files mc' = s6"
    using 6 by (auto simp: on_files_eq)
  have d: "d_store d = d_store (restore_login ?E (fresh_daemon s sess w draws))"
    and port: "\<exists>port token. d_port d = Some port \<and> d_token d = Some token
      \<and> fs_data s6 (join_path dir ''kmatrix.port'') = Some (port_file_body port token)
      \<and> fs_mode s6 (join_path dir ''kmatrix.port'') = 0x180"
    using listening [OF l(1)] by (simp_all add: fresh_daemon_def)
  from port show "\<exists>port token. d_port (p_daemon p) = Some port \<and> d_token (p_daemon p) = Some token
      \<and> fs_data (mc_files mc') (join_path dir ''kmatrix.port'') = Some (port_file_body port token)
      \<and> fs_mode (mc_files mc') (join_path dir ''kmatrix.port'') = 0x180"
    by (simp add: p serving_def l(2))
  have "?K \<noteq> join_path dir ''kmatrix.port''" "?K \<noteq> join_path dir ''kmatrix.port.tmp''"
    unfolding key_path_def by (rule paths_differ; simp)+
  then have "keeps_file ?K (mc_files m5) (snd (listen S dir (restore_login ?E (fresh_daemon s sess w draws)) (mc_files m5)))"
    by (intro keepsD [OF keeps_file_listen] keeps_file_refl)
  then have same: "fs_data (mc_files mc') ?K = fs_data (mc_files m4) ?K"
    using opened_key(2) [OF 5] l by (simp add: keeps_file_def)
  have "s_key (d_store (p_daemon p)) = key"
    using d opened_key(1) [OF 5] by (simp add: p serving_def fresh_daemon_def)
  moreover have "(case key of None \<Rightarrow> o_key_dir opts = Some []
      | Some k \<Rightarrow> o_key_dir opts \<noteq> Some [] \<and> fs_data (mc_files m4) ?K = Some k)"
    using key_loaded [where S = S and key_dir = "o_key_dir opts" and s = "mc_files m3"] 4
    by (auto simp: on_files_eq split: option.splits)
  ultimately show "s_key (d_store (p_daemon p)) = (if o_key_dir opts = Some [] then None else fs_data (mc_files mc') ?K)"
    "o_key_dir opts = Some [] \<or> fs_data (mc_files mc') ?K \<noteq> None"
    using same by (auto split: option.splits)
qed

lemma second_daemon:
  assumes "start_daemon S opts w draws mc = (r, mc')" "o_data_dir opts = Some dir"
    and "join_path dir ''kmatrix.lock'' \<in> fs_locked (mc_files mc)"
  shows "isl r" "mc_dbs mc' = mc_dbs mc"
    "fs_data (mc_files mc') \<in> {fs_data (mc_files mc), (fs_data (mc_files mc))(join_path dir ''kmatrix.lock'' \<mapsto> [])}"
proof -
  obtain q m1 where 1: "on_files (fs_op S (''creating data dir '' @ dir) (\<lambda>s. s)) mc = (q, m1)" by force
  obtain q2 m2 where 2: "on_files (take_lock S dir) m1 = (q2, m2)" by force
  have m1: "fs_data (mc_files m1) = fs_data (mc_files mc)" "fs_locked (mc_files m1) = fs_locked (mc_files mc)" "mc_dbs m1 = mc_dbs mc"
    using 1 by (auto simp: on_files_eq fs_op_def Let_def split: option.splits)
  have q2: "isl q2" and m2: "mc_dbs m2 = mc_dbs mc"
    "fs_data (mc_files m2) \<in> {fs_data (mc_files mc), (fs_data (mc_files mc))(join_path dir ''kmatrix.lock'' \<mapsto> [])}"
    using lock_taken [where S = S and dir = dir and s = "mc_files m1"] 2 assms(3) m1 by (auto simp: on_files_eq)
  have "(isl q \<and> isl r \<and> mc' = m1) \<or> (isl r \<and> mc' = m2)"
    using assms(1,2) 1 2 q2 by (cases q; cases q2) (auto simp: start_daemon_def and_then_def ok_or_def from_result_def)
  then show "isl r" "mc_dbs mc' = mc_dbs mc"
    "fs_data (mc_files mc') \<in> {fs_data (mc_files mc), (fs_data (mc_files mc))(join_path dir ''kmatrix.lock'' \<mapsto> [])}"
    using m1 m2 by auto
qed

text \<open>
  C7: Starting is safe, whatever the system refuses on the way. A key file that exists is never
  changed. A second daemon on a data directory that another holds does not start, and touches neither
  database nor any file but the lock file it may create. A daemon that does start uses exactly the key
  in the key file, and none only when encryption was turned off; and it leaves a port file with its
  port and token, readable by its owner alone.
\<close>

theorem starting_is_safe:
  "case start_daemon S opts w draws mc of (r, mc') \<Rightarrow>
     let old = mc_files mc; new = mc_files mc'; key = key_path (o_key_dir opts) in
     (fs_data old key = None \<or> fs_data new key = fs_data old key)
     \<and> (case o_data_dir opts of
          None \<Rightarrow> isl r \<and> mc' = mc
        | Some dir \<Rightarrow>
           (let lock = join_path dir ''kmatrix.lock''; port_file = join_path dir ''kmatrix.port'' in
              (if lock \<in> fs_locked old
               then isl r \<and> mc_dbs mc' = mc_dbs mc \<and> fs_data new \<in> {fs_data old, (fs_data old)(lock \<mapsto> [])} else True)
              \<and> (case r of Inl e \<Rightarrow> True
                 | Inr p \<Rightarrow>
                    (if o_key_dir opts = Some [] then s_key (d_store (p_daemon p)) = None
                     else \<exists>k. s_key (d_store (p_daemon p)) = Some k \<and> fs_data new key = Some k)
                    \<and> (\<exists>port token. d_port (p_daemon p) = Some port \<and> d_token (p_daemon p) = Some token
                        \<and> fs_data new port_file = Some (port_file_body port token) \<and> fs_mode new port_file = 0x180))))"
proof -
  obtain r mc' where r: "start_daemon S opts w draws mc = (r, mc')" by force
  have key: "fs_data (mc_files mc) (key_path (o_key_dir opts)) = None
      \<or> fs_data (mc_files mc') (key_path (o_key_dir opts)) = fs_data (mc_files mc) (key_path (o_key_dir opts))"
    using key_survives [of mc opts S w draws] unfolding r snd_conv by blast
  show ?thesis
  proof (cases "o_data_dir opts")
    case None
    then show ?thesis using r by (auto simp: start_daemon_def and_then_def ok_or_def from_result_def)
  next
    case (Some dir)
    have lock: "if join_path dir ''kmatrix.lock'' \<in> fs_locked (mc_files mc) then isl r \<and> mc_dbs mc' = mc_dbs mc
        \<and> fs_data (mc_files mc') \<in> {fs_data (mc_files mc), (fs_data (mc_files mc))(join_path dir ''kmatrix.lock'' \<mapsto> [])} else True"
      using second_daemon [OF r Some] by simp
    show ?thesis
    proof (cases r)
      case (Inl e)
      show ?thesis using key lock unfolding r Some Let_def prod.case option.case Inl sum.case by blast
    next
      case (Inr p)
      note up = started [OF r [unfolded Inr] Some]
      show ?thesis
        using key lock up unfolding r Some Let_def prod.case option.case unfolding Inr sum.case by (intro conjI) auto
    qed
  qed
qed

end
