(* ===== verification/Secret_Laws.thy ===== *)
theory Secret_Laws
  imports Frames Footprint_Daemon Daemon_Demo
begin

text \<open>
  When the key of the message backup that another device shares is believed.
\<close>

lemma crypto_steps [simp]:
  "d_crypto (snd (on_net f d)) = d_crypto d" "d_crypto (snd (new_txn E t d)) = d_crypto d"
  by (simp_all add: on_net_def new_txn_def case_prod_unfold Let_def)

lemma quiet_sends [simp]:
  "d_crypto (send_to_others E a sess pre ds c d) = d_crypto d" "d_store (send_to_others E a sess pre ds c d) = d_store d"
  by (simp_all add: send_to_others_def send_quietly_def case_prod_unfold Let_def)

lemma own_devices_kept:
  "own_devices E a sess d = (r, d') \<Longrightarrow> d_crypto d' = d_crypto d \<and> d_store d' = d_store d"
  by (metis own_devices_def crypto_steps(1) store_on_net(1) snd_conv)

text \<open>The key that a shared text stands for, if it is one that opens the backup.\<close>

definition opening_key :: "'k crypto_lib \<Rightarrow> string \<Rightarrow> backup_info \<Rightarrow> string option" where
  "opening_key V secret b =
     (case no_pad_decode V (unpadded secret) of
        Inl e \<Rightarrow> None
      | Inr raw \<Rightarrow>
          if length raw = 32 \<and> pk_public V (pk_from_key V raw) = unpadded (bi_public_key b) then Some raw else None)"

lemma adopt_secret_cases:
  assumes "d_crypto d = Some c"
  shows "case opening_key (vz E) secret b of
      None \<Rightarrow> \<exists>e. adopt_secret E secret (Some b) c d = (Inl e, d)
    | Some raw \<Rightarrow> adopt_secret E secret (Some b) c d =
        (Inr (), d\<lparr>d_crypto := Some (c\<lparr>k_backup_key := Some (pk_from_key (vz E) raw)\<rparr>),
                   d_store := set_meta (cipher E) ''backup_version'' (bi_version b)
                     (set_meta (cipher E) BACKUP_KEY_META (std_encode (vz E) raw) (d_store d))\<rparr>)"
proof -
  have "d\<lparr>d_crypto := Some c, d_store := d_store d\<rparr> = d" using assms by simp
  then show ?thesis
    by (auto simp: opening_key_def adopt_secret_def on_crypto_def set_backup_key_base64_def store_backup_key_def on_store_def
        Let_def split: sum.split)
qed

text \<open>
  C13: While the server names the backup of the account, a backup key that another device shares is
  adopted exactly if it opens that backup: it has the name of the backup key, decodes to 32 bytes, and
  these derive the public key the server names. Then exactly that key is in use, and it and the version
  of the backup are stored; otherwise the crypto state and the store are those from before. (Where the
  server names no backup, or does not answer, the code has nothing to check a key against and takes it:
  \<open>shared_key_adopted_unchecked\<close> of \<open>Findings\<close>.)
\<close>

theorem shared_key_must_open_the_backup:
  assumes "fst (backup_version (net E) a (d_world d)) = Inr (Some b)" "d_crypto d = Some c"
  shows "case handle_secret E a sess outcome d of d' \<Rightarrow>
     (case if secret_name outcome = MEGOLM_BACKUP_SECRET then opening_key (vz E) (secret_text outcome) b else None of
        None \<Rightarrow> d_crypto d' = d_crypto d \<and> d_store d' = d_store d
      | Some raw \<Rightarrow> d_crypto d' = Some (c\<lparr>k_backup_key := Some (pk_from_key (vz E) raw)\<rparr>)
          \<and> d_store d' = set_meta (cipher E) ''backup_version'' (bi_version b)
                (set_meta (cipher E) BACKUP_KEY_META (std_encode (vz E) raw) (d_store d)))"
proof -
  obtain d1 where q: "on_net (backup_version (net E) a) d = (Inr (Some b), d1)"
    using assms(1) by (cases "backup_version (net E) a (d_world d)") (simp add: on_net_def)
  then have d1: "d_crypto d1 = Some c" "d_store d1 = d_store d"
    using assms(2) by (auto simp: on_net_def Let_def split: prod.splits)
  show ?thesis
  proof (cases "secret_name outcome = MEGOLM_BACKUP_SECRET")
    case False
    then show ?thesis by (simp add: handle_secret_def)
  next
    case True
    obtain r d2 where r: "adopt_secret E (secret_text outcome) (Some b) c d1 = (r, d2)" by force
    have rest: "d_crypto (handle_secret E a sess outcome d) = d_crypto d2 \<and> d_store (handle_secret E a sess outcome d) = d_store d2"
      using True by (auto simp: handle_secret_def q d1 r Let_def dest!: own_devices_kept split: sum.split prod.split)
    from adopt_secret_cases [OF d1(1), of E "secret_text outcome" b] show ?thesis
      using True rest r d1 assms(2) by (auto split: option.splits)
  qed
qed

text \<open>A server that names a backup, and a base64 in which just one text stands for a key.\<close>

definition backup_env :: "string daemon_lib" where
  "backup_env = demo_env
     \<lparr>net := ok_net\<lparr>net_json := ok_json\<lparr>json_parse := (\<lambda>t. Inr (obj
        [(''version'', JStr ''3''), (''algorithm'', JStr ''m''), (''auth_data'', obj [(''public_key'', JStr ''public'')])]))\<rparr>\<rparr>,
      vz := demo_crypto\<lparr>no_pad_decode := (\<lambda>t. if t = ''key'' then Inr (replicate 32 CHR ''k'') else Inl ''invalid'')\<rparr>\<rparr>"

lemma backup_named:
  "fst (backup_version (net backup_env) demo_api w) = Inr (Some \<lparr>bi_version = ''3'', bi_algorithm = ''m'', bi_public_key = ''public''\<rparr>)"
  by (simp add: backup_env_def demo_env_def backup_version_def fetch_def send_request_def call_def and_then_def get_auth_def api_bearer_def
      demo_api_def ok_net_def ok_json_def or_404_def finish_def check_status_def read_json_def from_str_def obj_def bt_collect_def
      dec_backup_version_def field_def dec_str_def Let_def)

lemma backup_keys:
  "opening_key (vz backup_env) ''key'' \<lparr>bi_version = ''3'', bi_algorithm = ''m'', bi_public_key = ''public''\<rparr>
     = Some (replicate 32 CHR ''k'')"
  "opening_key (vz backup_env) ''other'' \<lparr>bi_version = ''3'', bi_algorithm = ''m'', bi_public_key = ''public''\<rparr> = None"
  "pk_from_key (vz backup_env) raw = raw"
proof -
  have "unpadded ''key'' = ''key''" "unpadded ''other'' = ''other''" "unpadded ''public'' = ''public''" by code_simp+
  then show "opening_key (vz backup_env) ''key'' \<lparr>bi_version = ''3'', bi_algorithm = ''m'', bi_public_key = ''public''\<rparr>
      = Some (replicate 32 CHR ''k'')"
    "opening_key (vz backup_env) ''other'' \<lparr>bi_version = ''3'', bi_algorithm = ''m'', bi_public_key = ''public''\<rparr> = None"
    "pk_from_key (vz backup_env) raw = raw"
    by (simp_all add: opening_key_def backup_env_def demo_crypto_def)
qed

theorem shared_key_must_open_the_backup_witness:
  "\<exists>c. d_crypto demo_daemon = Some c
     \<and> d_crypto (handle_secret backup_env demo_api demo_session (Secret MEGOLM_BACKUP_SECRET ''key'' ''q'') demo_daemon)
         = Some (c\<lparr>k_backup_key := Some (replicate 32 CHR ''k'')\<rparr>)
     \<and> d_crypto (handle_secret backup_env demo_api demo_session (Secret MEGOLM_BACKUP_SECRET ''other'' ''q'') demo_daemon) = Some c"
proof -
  obtain c where c: "d_crypto demo_daemon = Some c" using demo_daemon_parts(4) by blast
  from shared_key_must_open_the_backup [OF backup_named c, of demo_session "Secret MEGOLM_BACKUP_SECRET ''key'' ''q''"]
    shared_key_must_open_the_backup [OF backup_named c, of demo_session "Secret MEGOLM_BACKUP_SECRET ''other'' ''q''"] c
  show ?thesis by (simp add: backup_keys del: demo_daemon_parts)
qed

end
