(* ===== verification/Durability.thy ===== *)
theory Durability
  imports Account_Laws Startup_Laws Ipc_Laws
begin

text \<open>
  A process that is killed between two steps. At every moment of its life the store holds what the
  crypto state in memory has to be rebuilt from, so the next start on the same files goes on with the
  same device, keys and sessions. \<open>process_frame\<close> carries a predicate of the shared state through
  every step of a process, whichever thread takes it.
\<close>

section \<open>Through every step of a process\<close>

locale process_frame = account_frame +
  assumes bus: "I d \<Longrightarrow> I (d\<lparr>d_bus := b\<rparr>)"
    and running: "I d \<Longrightarrow> I (d\<lparr>d_running := r\<rparr>)"

context process_frame begin

lemma reply: "I d \<Longrightarrow> I (snd (reply E c v d))"
  by (simp add: reply_def case_prod_unfold Let_def bus)

lemma reply_and: "I d \<Longrightarrow> I (snd (snd (reply_and E c v n cn d)))"
  using reply [of d c v] by (simp add: reply_and_def case_prod_unfold Let_def)

lemma greet: "I d \<Longrightarrow> I (snd (snd (greet E c env cn d)))"
  using reply [of d c] by (simp add: greet_def reply_and bus case_prod_unfold Let_def split: request.split)

lemma handle_line: "I d \<Longrightarrow> I (snd (snd (handle_line E c line cn d)))"
  by (simp add: handle_line_def serve_request_def greet reply_and dispatch case_prod_unfold Let_def split: sum.split)

lemma stop_serving: "I (p_daemon p) \<Longrightarrow> I (p_daemon (stop_serving p))"
  by (simp add: stop_serving_def on_daemon_def shutdown_def kick running Let_def)

lemma finish_client: "I (p_daemon p) \<Longrightarrow> I (p_daemon (finish_client c p))"
  by (simp add: finish_client_def on_daemon_def stop_serving bus case_prod_unfold Let_def split: option.split)

lemma loop_turn: "I (p_daemon p) \<Longrightarrow> I (p_daemon (loop_turn E p))"
proof -
  assume p: "I (p_daemon p)"
  obtain q lp d where b: "begin_turn E (p_loop p) (p_daemon p) = (q, lp, d)" by (metis surj_pair)
  have d: "I d" using begin_turn [OF p, of "p_loop p"] by (simp add: b)
  then have "I (snd (snd (settle_turn E lp (Inl e, d))))" for e by (intro settle_turn) simp
  with p d show ?thesis by (simp add: loop_turn_def b split: sum.split prod.split)
qed

lemma poll_answered: "I (p_daemon p) \<Longrightarrow> I (p_daemon (poll_answered E p))"
proof -
  assume p: "I (p_daemon p)"
  have "I (snd (snd (settle_turn E lp (sync_answer E a sess since (p_daemon p)))))" for lp a sess since
    by (intro settle_turn keepsD [OF sync_answer] p)
  with p show ?thesis by (simp add: poll_answered_def split: option.split prod.split)
qed

lemma process_step: "I (p_daemon p) \<Longrightarrow> I (p_daemon (step E ev p))"
proof (cases ev)
  case (Line c line)
  assume p: "I (p_daemon p)"
  show ?thesis
  proof (cases "p_conns p c")
    case (Some cn)
    obtain v cn' d where l: "handle_line E c line cn (p_daemon p) = (v, cn', d)" by (metis surj_pair)
    have "I d" using handle_line [OF p, of c line cn] by (simp add: l)
    with Line Some l show ?thesis
      by (simp add: client_line_def finish_client stop_serving Let_def split: verdict.split)
  qed (use p Line in \<open>simp add: client_line_def\<close>)
qed (simp_all add: accept_def finish_client loop_turn poll_answered)

lemma process_reaches: "reaches E p q \<Longrightarrow> I (p_daemon p) \<Longrightarrow> I (p_daemon q)"
  by (erule reaches_invariant [where I = "\<lambda>q. I (p_daemon q)"], assumption) (rule process_step)

end

section \<open>What the store holds of the crypto state\<close>

text \<open>No crypto state yet.\<close>

definition blank :: "'k crypto_lib \<Rightarrow> store \<Rightarrow> bool" where
  "blank V s \<longleftrightarrow> t_pickle (s_db s) = [] \<and> get_meta (db_cipher V) PICKLE_KEY_META s = Inr None
     \<and> get_meta (db_cipher V) BACKUP_KEY_META s = Inr None"

lemma blank_starts:
  "crypto_lib_ok V \<Longrightarrow> blank V s \<Longrightarrow> \<exists>c s'. load_or_create V n s = (Inr c, s') \<and> persisted V (c, s')"
  unfolding blank_def by (rule first_start) simp_all

text \<open>The same pickles and the same keys in \<open>meta\<close> make the same crypto state.\<close>

definition same_keys :: "cipher_lib \<Rightarrow> store \<Rightarrow> store \<Rightarrow> bool" where
  "same_keys L s t \<longleftrightarrow> t_pickle (s_db t) = t_pickle (s_db s) \<and> get_meta L PICKLE_KEY_META t = get_meta L PICKLE_KEY_META s
     \<and> get_meta L BACKUP_KEY_META t = get_meta L BACKUP_KEY_META s"

lemma persisted_same_keys: "same_keys (db_cipher V) s t \<Longrightarrow> persisted V (c, t) = persisted V (c, s)"
  by (simp add: same_keys_def persisted_def pickles_ok_def load_backup_key_def account_kept_def inbound_kept_def
      outbound_kept_def olm_kept_def stored_def)

lemma blank_same_keys: "same_keys (db_cipher V) s t \<Longrightarrow> blank V t = blank V s"
  by (simp add: same_keys_def blank_def)

lemma pickles_remember [simp]: "t_pickle (s_db (remember_members L i names s)) = t_pickle (s_db s)"
proof -
  have "t_pickle (s_db (remember_member L i e s)) = t_pickle (s_db s)" for e s
    by (simp add: remember_member_def on_db_def case_prod_unfold Let_def split: option.split)
  then have "t_pickle (s_db (fold (remember_member L i) names s)) = t_pickle (s_db s)"
    by (induction names arbitrary: s) simp_all
  then show ?thesis by (simp add: remember_members_def)
qed

lemma pickles_writes [simp]:
  "t_pickle (s_db (upsert_room L r s)) = t_pickle (s_db s)" "t_pickle (s_db (snd (seed_back_token i tok s))) = t_pickle (s_db s)"
  "t_pickle (s_db (set_back_token i edge fin s)) = t_pickle (s_db s)" "t_pickle (s_db (insert_message L m s)) = t_pickle (s_db s)"
  "t_pickle (s_db (upgrade_message L e body s)) = t_pickle (s_db s)" "t_pickle (s_db (snd (record_edit L e ts body s))) = t_pickle (s_db s)"
  by (simp_all add: write_ops)

lemma pickles_daemon_write: "daemon_write w \<Longrightarrow> t_pickle (s_db (run_write L w s)) = t_pickle (s_db s)"
  by (cases w) (simp_all del: plain_metas)

lemma get_meta_same: "meta_of t k = meta_of s k \<Longrightarrow> s_key t = s_key s \<Longrightarrow> get_meta L k t = get_meta L k s"
  by (simp add: get_meta_def reveal_opt_def reveal_def Let_def split: option.split)

lemma daemon_write_metas:
  assumes "daemon_write w" "k \<in> {PICKLE_KEY_META, BACKUP_KEY_META, SESSION_KEY, ENCRYPTED_FLAG}"
  shows "meta_of (run_write L w s) k = meta_of s k"
  by (rule meta_of_run) (use assms in auto)

lemma daemon_write_same_keys: "daemon_write w \<Longrightarrow> same_keys L s (run_write L w s)"
  unfolding same_keys_def
  by (intro conjI pickles_daemon_write get_meta_same daemon_write_metas key_run_write) simp_all

text \<open>The flag of the file agrees with the key it is opened with, so it opens again.\<close>

definition flag_ok :: "store \<Rightarrow> bool" where
  "flag_ok s \<longleftrightarrow> (s_key s \<noteq> None \<longleftrightarrow> meta_of s ENCRYPTED_FLAG = Some ''1'')"

definition opens_with :: "string option \<Rightarrow> store \<Rightarrow> bool" where
  "opens_with key s \<longleftrightarrow> s_key s = key \<and> flag_ok s"

lemma opens_with_meta:
  "meta_of t ENCRYPTED_FLAG = meta_of s ENCRYPTED_FLAG \<Longrightarrow> s_key t = s_key s \<Longrightarrow> opens_with key t = opens_with key s"
  by (simp add: opens_with_def flag_ok_def)

lemma opens_with_clear: "opens_with key s \<Longrightarrow> opens_with key (clear s)"
  using wiped_clear [of s] by (auto simp: opens_with_def flag_ok_def wiped_def meta_row_def ENCRYPTED_FLAG_def)

lemma cw_run_crypto: "cw V s cs \<Longrightarrow> cw V s (run_crypto V op cs)"
  by (cases op) (simp_all add: footprint keepsD [OF cw_set_backup(1)] keepsD [OF cw_set_backup(2)] keepsD [OF cw_import])

lemma opens_with_crypto:
  assumes "opens_with key s" "run_crypto V op (c, s) = (c', s')"
  shows "opens_with key s'"
proof -
  have "cw V s (run_crypto V op (c, s))" by (rule cw_run_crypto) (simp add: wrote.none)
  then have "wrote (db_cipher V) crypto_write s s'" using assms(2) by simp
  then show ?thesis using assms(1)
  proof (rule writes_invariant)
    fix w u assume w: "crypto_write w" and u: "opens_with key u"
    have "PICKLE_KEY_META \<noteq> ENCRYPTED_FLAG" "BACKUP_KEY_META \<noteq> ENCRYPTED_FLAG"
      by (simp_all add: PICKLE_KEY_META_def BACKUP_KEY_META_def ENCRYPTED_FLAG_def)
    with w have "meta_of (run_write (db_cipher V) w u) ENCRYPTED_FLAG = meta_of u ENCRYPTED_FLAG"
      by (intro meta_of_run) (cases w; auto)+
    then show "opens_with key (run_write (db_cipher V) w u)" using u opens_with_meta [OF _ key_run_write] by blast
  qed
qed

section \<open>Memory and store in every state\<close>

text \<open>
  The store opens with its key, and holds the crypto state that is in memory; with none in memory it
  holds one from before or none at all. The session in memory is the one that is stored, when serde
  reads back what it wrote of a session.
\<close>

definition sessions_kept :: "json_lib \<Rightarrow> bool" where
  "sessions_kept J \<longleftrightarrow>
     (\<forall>x. text_ok None (json_print J (session_fields x))
        \<and> from_str J dec_session (json_print J (session_fields x)) = Inr x)"

definition held_keys :: "'k crypto_lib \<Rightarrow> 'k crypto option \<Rightarrow> store \<Rightarrow> bool" where
  "held_keys V c s \<longleftrightarrow>
     (case c of Some c \<Rightarrow> persisted V (c, s) | None \<Rightarrow> blank V s \<or> (\<exists>c. persisted V (c, s)))"

definition durable :: "'k daemon_lib \<Rightarrow> string option \<Rightarrow> 'k daemon \<Rightarrow> bool" where
  "durable E key d \<longleftrightarrow>
     (crypto_lib_ok (vz E) \<longrightarrow> opens_with key (d_store d) \<and> held_keys (vz E) (d_crypto d) (d_store d)
        \<and> (sessions_kept (js E) \<longrightarrow> load_session (cipher E) (js E) (d_store d) = Inr (d_session d)))"

lemma held_same_keys: "same_keys (db_cipher V) s t \<Longrightarrow> held_keys V c t = held_keys V c s"
  by (simp add: held_keys_def persisted_same_keys blank_same_keys split: option.split)

lemma opens_with_daemon_write: "daemon_write w \<Longrightarrow> opens_with key (run_write L w s) = opens_with key s"
  by (intro opens_with_meta daemon_write_metas key_run_write) simp_all

lemma blank_clear: "blank V (clear s)"
proof -
  have "meta_of (clear s) k = None" if "k \<noteq> ENCRYPTED_FLAG" for k by (rule wiped_meta [OF wiped_clear that])
  then show ?thesis
    using wiped_clear [of s]
    by (auto simp: blank_def wiped_def get_meta_def reveal_opt_def PICKLE_KEY_META_def BACKUP_KEY_META_def ENCRYPTED_FLAG_def
        split: option.split)
qed

lemma blank_new_account: "blank V (save_session L J sess (clear s))"
proof -
  let ?s = "save_session L J sess (clear s)"
  have "meta_of ?s k = meta_of (clear s) k" if "k \<noteq> SESSION_KEY" for k using that by (simp add: save_session_def)
  then have "same_keys (db_cipher V) (clear s) ?s"
    by (auto simp: same_keys_def save_session_def PICKLE_KEY_META_def BACKUP_KEY_META_def SESSION_KEY_def intro!: get_meta_same)
  then show ?thesis using blank_clear blank_same_keys by blast
qed

lemma opens_with_new_account:
  assumes "opens_with key s" "load_or_create V n (save_session L J sess (clear s)) = (r, t)"
  shows "opens_with key t"
proof -
  have neq: "ENCRYPTED_FLAG \<noteq> PICKLE_KEY_META" "ENCRYPTED_FLAG \<noteq> SESSION_KEY"
    by (simp_all add: ENCRYPTED_FLAG_def PICKLE_KEY_META_def SESSION_KEY_def)
  have "opens_with key (save_session L J sess (clear s))"
    using opens_with_clear [OF assms(1)] neq(2)
    by (subst opens_with_meta [of _ "clear s"]) (simp_all add: save_session_def)
  then show ?thesis
    by (subst opens_with_meta [OF load_or_create_frame(1,2) [OF assms(2) neq(1)]])
qed

text \<open>What the session is loaded from.\<close>

lemma load_session_same: "meta_of t SESSION_KEY = meta_of s SESSION_KEY \<Longrightarrow> s_key t = s_key s \<Longrightarrow> load_session L J t = load_session L J s"
  by (simp add: load_session_def get_meta_same [where k = SESSION_KEY and t = t and s = s])

lemma session_crypto:
  assumes "run_crypto V op (c, s) = (c', s')"
  shows "load_session (db_cipher V) J s' = load_session (db_cipher V) J s"
proof -
  have "cw V s (run_crypto V op (c, s))" by (rule cw_run_crypto) (simp add: wrote.none)
  then have "wrote (db_cipher V) crypto_write s s'" using assms by simp
  then have "meta_of s' SESSION_KEY = meta_of s SESSION_KEY \<and> s_key s' = s_key s"
  proof (rule writes_invariant)
    fix w u assume w: "crypto_write w" and u: "meta_of u SESSION_KEY = meta_of s SESSION_KEY \<and> s_key u = s_key s"
    have "PICKLE_KEY_META \<noteq> SESSION_KEY" "BACKUP_KEY_META \<noteq> SESSION_KEY"
      by (simp_all add: PICKLE_KEY_META_def BACKUP_KEY_META_def SESSION_KEY_def)
    with w have "meta_of (run_write (db_cipher V) w u) SESSION_KEY = meta_of u SESSION_KEY"
      by (intro meta_of_run) (cases w; auto)+
    with u show "meta_of (run_write (db_cipher V) w u) SESSION_KEY = meta_of s SESSION_KEY
        \<and> s_key (run_write (db_cipher V) w u) = s_key s" by simp
  qed simp
  then show ?thesis by (intro load_session_same) simp_all
qed

lemma session_clear: "load_session L J (clear s) = Inr None"
  using wiped_meta [OF wiped_clear, of SESSION_KEY s]
  by (simp add: load_session_def get_meta_def reveal_opt_def SESSION_KEY_def ENCRYPTED_FLAG_def split: option.split)

lemma load_or_create_session: "load_or_create V n s = (r, t) \<Longrightarrow> load_session L J t = load_session L J s"
  by (rule load_session_same; rule load_or_create_frame [where k = SESSION_KEY], assumption)
    (simp_all add: SESSION_KEY_def PICKLE_KEY_META_def)

lemma session_new_account:
  assumes "cipher_ok L" "sessions_kept J" "load_or_create V n (save_session L J x (clear s)) = (r, t)"
  shows "load_session L J t = Inr (Some x)"
proof -
  have "text_ok key (json_print J (session_fields x))" for key using assms(2) by (auto simp: sessions_kept_def text_ok_def)
  then have "get_meta L SESSION_KEY (save_session L J x (clear s)) = Inr (Some (json_print J (session_fields x)))"
    unfolding save_session_def using get_meta_set_meta [OF assms(1)] by simp
  then show ?thesis
    using assms(2) unfolding load_or_create_session [OF assms(3)] by (simp add: load_session_def sessions_kept_def)
qed

interpretation durable: process_frame E "durable E key" for E :: "'k daemon_lib" and key
proof unfold_locales
  fix d :: "'k daemon" and u c op c' s'
  assume d: "durable E key d"
  show "durable E key (d\<lparr>d_store := run_write (cipher E) u (d_store d)\<rparr>)" if "daemon_write u"
    using d that load_session_same [OF daemon_write_metas [OF that, of SESSION_KEY] key_run_write]
    by (simp add: durable_def opens_with_daemon_write held_same_keys [OF daemon_write_same_keys])
  show "durable E key (d\<lparr>d_crypto := Some c', d_store := s'\<rparr>)"
    if "d_crypto d = Some c" "run_crypto (vz E) op (c, d_store d) = (c', s')"
    using d that run_crypto_keeps [of "vz E" "(c, d_store d)" op] opens_with_crypto [of key "d_store d" "vz E" op c c' s']
      session_crypto [OF that(2)]
    by (simp add: durable_def held_keys_def)
next
  fix d :: "'k daemon" and n new c s err
  let ?load = "load_or_create (vz E) n (save_session (cipher E) (js E) new (clear (d_store d)))"
  assume d: "durable E key d"
  have starts: "crypto_lib_ok (vz E) \<Longrightarrow> \<exists>c s. ?load = (Inr c, s) \<and> persisted (vz E) (c, s)"
    using blank_starts [OF _ blank_new_account] by blast
  show "?load = (Inr c, s) \<Longrightarrow> durable E key (d\<lparr>d_store := s, d_crypto := Some c, d_session := Some new\<rparr>)"
    using d starts opens_with_new_account [of key "d_store d"] session_new_account [OF lib_db]
    by (auto simp: durable_def held_keys_def)
  show "?load = (Inl err, s) \<Longrightarrow> durable E key (d\<lparr>d_store := s\<rparr>)" using starts by (auto simp: durable_def)
qed (auto simp: durable_def held_keys_def blank_clear opens_with_clear session_clear split: option.splits)

end
