(* ===== verification/Restart.thy ===== *)
theory Restart
  imports Durability
begin

text \<open>
  The life of an installation: the daemon is started on a data directory, serves its clients and
  polls the server, is killed at some moment, and is started again on the same files, any number of
  times. What it knew when it was killed is what it goes on with.
\<close>

section \<open>Killed and started again\<close>

text \<open>
  What a killed process leaves: the system drops its lock, and the database file holds what the store
  had written, each write being a transaction of its own.
\<close>

definition db_path :: "string \<Rightarrow> string" where
  "db_path dir = join_path dir ''kmatrix.sqlite3''"

definition database_of :: "string \<Rightarrow> machine \<Rightarrow> disk" where
  "database_of dir mc = (case mc_dbs mc (db_path dir) of Some f \<Rightarrow> f | None \<Rightarrow> empty_disk)"

definition killed :: "string \<Rightarrow> 'k process \<Rightarrow> machine \<Rightarrow> machine" where
  "killed dir p mc =
     mc\<lparr>mc_files := (mc_files mc)\<lparr>fs_locked := fs_locked (mc_files mc) - {join_path dir ''kmatrix.lock''}\<rparr>,
        mc_dbs := (mc_dbs mc)(db_path dir \<mapsto> (database_of dir mc)\<lparr>Migration.d_db := s_db (d_store (p_daemon p))\<rparr>)\<rparr>"

inductive life :: "'k os_lib \<Rightarrow> options \<Rightarrow> string \<Rightarrow> machine \<Rightarrow> machine \<Rightarrow> 'k process \<Rightarrow> bool" for S opts dir mc0 where
  first_run: "start_daemon S opts w n mc0 = (Inr p, mc) \<Longrightarrow> life S opts dir mc0 mc p"
| one_step: "life S opts dir mc0 mc p \<Longrightarrow> life S opts dir mc0 mc (step (daemon_env S) ev p)"
| next_run: "life S opts dir mc0 mc p \<Longrightarrow> start_daemon S opts w n (killed dir p mc) = (Inr q, mc')
    \<Longrightarrow> life S opts dir mc0 mc' q"

text \<open>What a start that succeeds did with the database.\<close>

lemma start_opens:
  assumes "start_daemon S opts w n mc = (Inr p, mc')" "o_data_dir opts = Some dir" "\<not> o_reset_store opts"
  shows "\<exists>s sess k f. open_store (cipher (daemon_env S)) (db_path dir) (s_key s) k (database_of dir mc) = (Inr s, f)
    \<and> load_session (cipher (daemon_env S)) (js (daemon_env S)) s = Inr sess
    \<and> (let d = restore_login (daemon_env S) (fresh_daemon s sess w n)
       in d_store (p_daemon p) = d_store d \<and> d_crypto (p_daemon p) = d_crypto d \<and> d_api (p_daemon p) = d_api d
         \<and> d_session (p_daemon p) = d_session d)"
proof -
  let ?E = "daemon_env S"
  from start_stages [OF assms(1,2)] obtain m1 m2 m3 m4 m5 key s sess d where
    1: "on_files (fs_op S (''creating data dir '' @ dir) (\<lambda>s. s)) mc = (Inr (), m1)"
      "on_files (take_lock S dir) m1 = (Inr (), m2)" "(if o_reset_store opts then reset_files S (join_path dir ''kmatrix.sqlite3'') [[], ''-wal'', ''-shm''] else succeed ()) m2 = (Inr (), m3)"
      "on_files (load_or_create_store_key S (o_key_dir opts)) m3 = (Inr key, m4)"
    and 5: "open_session S dir key m4 = (Inr (s, sess), m5)"
    and 6: "on_files (listen S dir (restore_login ?E (fresh_daemon s sess w n))) m5 = (Inr d, mc')"
    and p: "p = serving ?E d"
    by metis
  from 1 assms(3) have "mc_dbs m4 = mc_dbs mc" by (auto simp: on_files_eq succeed_def)
  moreover have "s_key s = key" by (rule opened_key(1) [OF 5])
  ultimately obtain f where "open_store (cipher ?E) (db_path dir) (s_key s) (mc_salts m4) (database_of dir mc) = (Inr s, f)"
    "load_session (cipher ?E) (js ?E) s = Inr sess"
    using 5 by (auto simp: open_session_def open_database_def and_then_def bind_ok_eq_Inr database_of_def db_path_def Let_def
        split: sum.splits prod.splits)
  moreover have "d_store d = d_store (restore_login ?E (fresh_daemon s sess w n))
      \<and> d_crypto d = d_crypto (restore_login ?E (fresh_daemon s sess w n))
      \<and> d_api d = d_api (restore_login ?E (fresh_daemon s sess w n))
      \<and> d_session d = d_session (restore_login ?E (fresh_daemon s sess w n))"
    using 6 by (auto simp: on_files_eq listen_def and_then_def succeed_def Let_def split: sum.splits prod.splits)
  ultimately show ?thesis using p by (auto simp: serving_def Let_def)
qed

section \<open>Opening\<close>

text \<open>A file that is not there yet is opened as an empty store.\<close>

definition new_store :: "string option \<Rightarrow> nat \<Rightarrow> store" where
  "new_store key n = \<lparr>s_db = (if key = None then empty_db else mark_encrypted empty_db), s_key = key, s_draws = n\<rparr>"

lemma new_database_opens: "\<exists>n f. open_store L path key k empty_disk = (Inr (new_store key n), f)"
proof -
  have none: "meta_row i empty_db = None" for i by (simp add: meta_row_def empty_db_def)
  have sealed: "fst (encrypt_existing L m (empty_db, n)) = mark_encrypted empty_db" for m n
    by (rule encrypt_existing_tables [of empty_db L m n]) (simp_all add: keys_ok_def rowids_ok_def empty_db_def)
  show ?thesis
    using sealed [of "the key" k]
    by (cases "encrypt_existing L (the key) (empty_db, k)")
      (auto simp: open_store_def migrate_columns none empty_disk_def new_store_def Let_def split: option.splits)
qed

lemma new_store_meta: "meta_of (new_store key n) i = (if i = ENCRYPTED_FLAG \<and> key \<noteq> None then Some ''1'' else None)"
proof -
  have "meta_row i empty_db = None" for i by (simp add: meta_row_def empty_db_def)
  then show ?thesis by (simp add: new_store_def mark_encrypted_def meta_row_put)
qed

lemma new_database:
  assumes "open_store (db_cipher V) path (s_key s) k empty_disk = (Inr s, f)"
  shows "blank V s" "opens_with (s_key s) s"
proof -
  obtain key n where s: "s = new_store key n" using new_database_opens [of "db_cipher V" path "s_key s" k] assms by auto
  have "t_pickle (s_db (new_store key n)) = []" by (simp add: new_store_def mark_encrypted_def) (simp add: empty_db_def)
  then show "blank V s" "opens_with (s_key s) s"
    unfolding s
    by (auto simp: blank_def opens_with_def flag_ok_def new_store_meta get_meta_def reveal_opt_def PICKLE_KEY_META_def
        BACKUP_KEY_META_def ENCRYPTED_FLAG_def split: option.split) (simp_all add: new_store_def)
qed

text \<open>The file of a process is opened again as the process left it.\<close>

lemma same_database:
  assumes "opens_with (s_key s) t" "open_store L path (s_key s) k (g\<lparr>Migration.d_db := s_db t\<rparr>) = (Inr s, f)"
  shows "s_db s = s_db t" "s_key s = s_key t"
  using assms by (auto simp: open_store_def opens_with_def flag_ok_def migrate_columns Let_def split: option.splits if_splits)

lemma restore_durable:
  assumes "durable E key d" "d_crypto d = None"
  shows "durable E key (restore_login E d)"
    "crypto_lib_ok (vz E) \<Longrightarrow> persisted (vz E) (c, d_store d) \<Longrightarrow> d_api d = None \<Longrightarrow>
       if d_api (restore_login E d) = None then d_crypto (restore_login E d) = None
       else \<exists>c'. d_crypto (restore_login E d) = Some c' \<and> resumes (vz E) c c'"
proof -
  have start: "durable E key (snd (start_crypto E x))
      \<and> (\<forall>c. crypto_lib_ok (vz E) \<and> persisted (vz E) (c, d_store x) \<longrightarrow>
           (\<exists>c'. d_crypto (snd (start_crypto E x)) = Some c' \<and> resumes (vz E) c c'))"
    if x: "durable E key x" "d_crypto x = None" for x
  proof (cases "crypto_lib_ok (vz E)")
    case True
    let ?n = "draws_so_far x"
    have o: "opens_with key (d_store x)" using x True by (simp add: durable_def)
    have "\<exists>c s. load_or_create (vz E) ?n (d_store x) = (Inr c, s) \<and> persisted (vz E) (c, s)"
    proof -
      have "blank (vz E) (d_store x) \<or> (\<exists>c. persisted (vz E) (c, d_store x))"
        using x True by (simp add: durable_def held_keys_def)
      with blank_starts [OF True] restart_resumes [OF True] show ?thesis by blast
    qed
    then obtain c s where l: "load_or_create (vz E) ?n (d_store x) = (Inr c, s)" "persisted (vz E) (c, s)" by blast
    have "ENCRYPTED_FLAG \<noteq> PICKLE_KEY_META" by (simp add: ENCRYPTED_FLAG_def PICKLE_KEY_META_def)
    then have "opens_with key s"
      using o opens_with_meta [OF load_or_create_frame(1,2) [OF l(1)]] by simp
    with l True x have "durable E key (snd (start_crypto E x))"
      by (simp add: durable_def held_keys_def start_crypto_def load_or_create_session [OF l(1)] Let_def)
    moreover have "\<exists>c'. d_crypto (snd (start_crypto E x)) = Some c' \<and> resumes (vz E) b c'" if "persisted (vz E) (b, d_store x)" for b
      using restart_resumes [OF True that, of ?n] l(1) by (auto simp: start_crypto_def Let_def)
    ultimately show ?thesis by blast
  qed (simp add: durable_def)
  show "durable E key (restore_login E d)"
    using assms start
    by (auto simp: restore_login_def on_net_def durable_def Let_def split: option.split prod.split sum.split)
  show "if d_api (restore_login E d) = None then d_crypto (restore_login E d) = None
       else \<exists>c'. d_crypto (restore_login E d) = Some c' \<and> resumes (vz E) c c'"
    if V: "crypto_lib_ok (vz E)" and p: "persisted (vz E) (c, d_store d)" and none: "d_api d = None"
  proof -
    have api: "d_api (snd (start_crypto E x)) = d_api x" for x
      by (simp add: start_crypto_def Let_def split: prod.split sum.split)
    have "\<exists>c'. d_crypto (snd (start_crypto E (d\<lparr>d_world := w, d_api := Some a\<rparr>))) = Some c' \<and> resumes (vz E) c c'" for w a
      using start [of "d\<lparr>d_world := w, d_api := Some a\<rparr>"] assms V p by (simp add: durable_def)
    then show ?thesis
      using assms(2) none by (auto simp: restore_login_def on_net_def api Let_def split: option.split prod.split sum.split)
  qed
qed

section \<open>A whole life\<close>

definition key_file :: "options \<Rightarrow> machine \<Rightarrow> string option" where
  "key_file opts mc = (if o_key_dir opts = Some [] then None else fs_data (mc_files mc) (key_path (o_key_dir opts)))"

lemma fresh_parts [simp]:
  "d_store (fresh_daemon s sess w n) = s" "d_crypto (fresh_daemon s sess w n) = None" "d_api (fresh_daemon s sess w n) = None"
  "d_session (fresh_daemon s sess w n) = sess" "d_running (fresh_daemon s sess w n)" "d_token (fresh_daemon s sess w n) = None"
  "d_world (fresh_daemon s sess w n) = w"
  by (simp_all add: fresh_daemon_def)

lemma session_restored [simp]: "d_session (restore_login E d) = d_session d"
proof -
  have "d_session (snd (start_crypto E x)) = d_session x" for x
    by (simp add: start_crypto_def Let_def split: prod.split sum.split)
  then show ?thesis by (auto simp: restore_login_def on_net_def Let_def split: option.split prod.split sum.split)
qed

lemma start_durable:
  assumes "start_daemon S opts w n mc = (Inr p, mc')" "o_data_dir opts = Some dir" "\<not> o_reset_store opts"
    and "mc_dbs mc (db_path dir) = None"
  shows "durable (daemon_env S) (key_file opts mc') (p_daemon p)"
proof -
  let ?E = "daemon_env S"
  obtain s sess k f where o: "open_store (cipher ?E) (db_path dir) (s_key s) k (database_of dir mc) = (Inr s, f)"
    and sess: "load_session (cipher ?E) (js ?E) s = Inr sess"
    and d: "d_store (p_daemon p) = d_store (restore_login ?E (fresh_daemon s sess w n))"
      "d_crypto (p_daemon p) = d_crypto (restore_login ?E (fresh_daemon s sess w n))"
      "d_session (p_daemon p) = d_session (restore_login ?E (fresh_daemon s sess w n))"
    using start_opens [OF assms(1-3)] by (auto simp: Let_def)
  have key: "s_key s = key_file opts mc'"
    using started(2) [OF assms(1,2)] d(1) by (simp add: key_file_def)
  have "database_of dir mc = empty_disk" using assms(4) by (simp add: database_of_def)
  then have "blank (vz ?E) s \<and> opens_with (key_file opts mc') s" using new_database [of "vz ?E"] o key by metis
  then have "durable ?E (key_file opts mc') (fresh_daemon s sess w n)"
    by (simp add: durable_def held_keys_def sess)
  from restore_durable(1) [OF this] show ?thesis by (simp add: durable_def d)
qed

lemma restart_durable:
  assumes "start_daemon S opts w n (killed dir p mc) = (Inr q, mc')" "o_data_dir opts = Some dir" "\<not> o_reset_store opts"
    and p: "durable (daemon_env S) (key_file opts mc) (p_daemon p)" and "o_key_dir opts = Some [] \<or> key_file opts mc \<noteq> None"
  shows "key_file opts mc' = key_file opts mc" "durable (daemon_env S) (key_file opts mc') (p_daemon q)"
    "crypto_lib_ok (vz (daemon_env S)) \<Longrightarrow> d_crypto (p_daemon p) = Some c \<Longrightarrow>
       if d_api (p_daemon q) = None then d_crypto (p_daemon q) = None
       else \<exists>c'. d_crypto (p_daemon q) = Some c' \<and> resumes (vz (daemon_env S)) c c'"
    "crypto_lib_ok (vz (daemon_env S)) \<Longrightarrow> sessions_kept (js (daemon_env S)) \<Longrightarrow> d_session (p_daemon q) = d_session (p_daemon p)"
proof -
  let ?E = "daemon_env S" and ?K = "key_file opts mc" and ?t = "d_store (p_daemon p)"
  have files: "fs_data (mc_files (killed dir p mc)) = fs_data (mc_files mc)" by (simp add: killed_def)
  show key: "key_file opts mc' = ?K"
    using key_survives [of "killed dir p mc" opts S w n] assms(1,5) files by (auto simp: key_file_def split: if_splits)
  obtain s sess k f where o: "open_store (cipher ?E) (db_path dir) (s_key s) k (database_of dir (killed dir p mc)) = (Inr s, f)"
    and sess: "load_session (cipher ?E) (js ?E) s = Inr sess"
    and d: "d_store (p_daemon q) = d_store (restore_login ?E (fresh_daemon s sess w n))"
      "d_crypto (p_daemon q) = d_crypto (restore_login ?E (fresh_daemon s sess w n))"
      "d_api (p_daemon q) = d_api (restore_login ?E (fresh_daemon s sess w n))"
      "d_session (p_daemon q) = d_session (restore_login ?E (fresh_daemon s sess w n))"
    using start_opens [OF assms(1-3)] by (auto simp: Let_def)
  have sk: "s_key s = ?K"
    using started(2) [OF assms(1,2)] d(1) key by (simp add: key_file_def)
  have same: "same_keys (cipher ?E) ?t s \<and> opens_with ?K s \<and> load_session (cipher ?E) (js ?E) s = load_session (cipher ?E) (js ?E) ?t"
    if "crypto_lib_ok (vz ?E)"
  proof -
    have t: "opens_with (s_key s) ?t" using p that by (simp add: durable_def sk)
    have "database_of dir (killed dir p mc) = (database_of dir mc)\<lparr>Migration.d_db := s_db ?t\<rparr>"
      by (simp add: database_of_def killed_def)
    with same_database [OF t] o have s: "s_db s = s_db ?t" "s_key s = s_key ?t" by metis+
    then show ?thesis using t by (auto simp: same_keys_def opens_with_def flag_ok_def sk intro!: get_meta_same load_session_same)
  qed
  have fresh: "durable ?E ?K (fresh_daemon s sess w n)"
    using p same by (auto simp: durable_def sess held_keys_def  held_same_keys persisted_same_keys blank_same_keys
        split: option.splits)
  from restore_durable(1) [OF this] show "durable ?E (key_file opts mc') (p_daemon q)"
    by (simp add: durable_def d key)
  show "sessions_kept (js ?E) \<Longrightarrow> d_session (p_daemon q) = d_session (p_daemon p)" if "crypto_lib_ok (vz ?E)"
    using same [OF that] p that sess d(4) by (simp add: durable_def)
  assume V: "crypto_lib_ok (vz ?E)" and c: "d_crypto (p_daemon p) = Some c"
  have "persisted (vz ?E) (c, s)"
    using p V c same persisted_same_keys [of "vz ?E" ?t s] by (simp add: durable_def held_keys_def)
  with restore_durable(2) [OF fresh _ V, of c] show "if d_api (p_daemon q) = None then d_crypto (p_daemon q) = None
       else \<exists>c'. d_crypto (p_daemon q) = Some c' \<and> resumes (vz ?E) c c'"
    by (simp add: d)
qed

lemma life_durable:
  assumes "life S opts dir mc0 mc p" "o_data_dir opts = Some dir" "\<not> o_reset_store opts" "mc_dbs mc0 (db_path dir) = None"
  shows "durable (daemon_env S) (key_file opts mc) (p_daemon p) \<and> (o_key_dir opts = Some [] \<or> key_file opts mc \<noteq> None)"
  using assms(1)
proof induction
  case (first_run w n p mc)
  from start_durable [OF first_run assms(2-4)] Startup_Laws.started(3) [OF first_run assms(2)] show ?case
    by (auto simp: key_file_def)
next
  case (one_step mc p ev)
  with durable.process_step [of "daemon_env S" "key_file opts mc" p ev] show ?case by blast
next
  case (next_run mc p w n q mc')
  with restart_durable(1,2) [OF next_run.hyps(2) assms(2,3)] show ?case by metis
qed

section \<open>A start that nothing prevents\<close>

text \<open>An operating system that refuses nothing and gives keys of the length it is asked for.\<close>

definition obliging :: "'k os_lib \<Rightarrow> bool" where
  "obliging S \<longleftrightarrow> (\<forall>n. refuses S n = None \<and> flock_error S n = None \<and> length (key_bytes S n) = 32 \<and> isl (bind_port S n) = False)"

lemma fs_op_obliging [simp]: "obliging S \<Longrightarrow> fs_op S what f s = (Inr (), f (s\<lparr>fs_ops := fs_ops s + 1\<rparr>))"
  by (simp add: fs_op_def obliging_def Let_def)

lemma lock_obliging:
  assumes "obliging S" "join_path dir ''kmatrix.lock'' \<notin> fs_locked s" "K \<noteq> join_path dir ''kmatrix.lock''"
  shows "\<exists>s'. take_lock S dir s = (Inr (), s') \<and> fs_data s' K = fs_data s K"
  using assms
  by (auto simp: take_lock_def and_then_def write_data_def obliging_def Let_def fs_op_def split: option.split)

lemma key_obliging:
  assumes "obliging S" "key_dir \<noteq> Some [] \<Longrightarrow> \<exists>k. fs_data s (key_path key_dir) = Some k \<and> length k = 32"
  shows "\<exists>s'. load_or_create_store_key S key_dir s = (Inr (if key_dir = Some [] then None else fs_data s (key_path key_dir)), s')"
proof (cases "key_dir = Some []")
  case True
  then show ?thesis by (simp add: load_or_create_store_key_def succeed_def)
next
  case False
  then obtain k where k: "fs_data s (key_path key_dir) = Some k" "length k = 32" using assms(2) by blast
  have "(case key_dir of Some p \<Rightarrow> p | None \<Rightarrow> DEFAULT_KEY_DIR) = dir \<Longrightarrow> key_path key_dir = join_path dir ''store.key''" for dir
    by (simp add: key_path_def)
  with k False assms(1) show ?thesis by (simp add: load_or_create_store_key_def and_then_def Let_def)
qed

lemma listen_obliging:
  assumes "obliging S"
  shows "\<exists>d' s'. listen S dir d s = (Inr d', s')"
proof -
  obtain port where "bind_port S (fs_ops s) = Inr port"
    using assms by (cases "bind_port S (fs_ops s)") (auto simp: obliging_def dest: spec [of _ "fs_ops s"])
  then show ?thesis using assms by (simp add: listen_def install_private_def and_then_def succeed_def Let_def)
qed

lemma start_obliging:
  assumes "obliging S" "o_data_dir opts = Some dir" "\<not> o_reset_store opts"
    and lock: "join_path dir ''kmatrix.lock'' \<notin> fs_locked (mc_files mc)"
    and key: "o_key_dir opts \<noteq> Some [] \<Longrightarrow> \<exists>k. key_file opts mc = Some k \<and> length k = 32"
    and open1: "open_store (cipher (daemon_env S)) (db_path dir) (key_file opts mc) (mc_salts mc) (database_of dir mc) = (Inr s, f)"
    and sess: "load_session (cipher (daemon_env S)) (js (daemon_env S)) s = Inr sess"
  shows "\<exists>q mc'. start_daemon S opts w n mc = (Inr q, mc')"
proof -
  let ?K = "key_path (o_key_dir opts)"
  define m1 where "m1 = mc\<lparr>mc_files := (mc_files mc)\<lparr>fs_ops := fs_ops (mc_files mc) + 1\<rparr>\<rparr>"
  have "?K \<noteq> join_path dir ''kmatrix.lock''" unfolding key_path_def by (rule paths_differ) simp_all
  with lock_obliging [OF assms(1), of dir "mc_files m1" ?K] lock obtain s2 where
    s2: "take_lock S dir (mc_files m1) = (Inr (), s2)" "fs_data s2 ?K = fs_data (mc_files mc) ?K" by (auto simp: m1_def)
  have "\<exists>s3. load_or_create_store_key S (o_key_dir opts) s2 = (Inr (key_file opts mc), s3)"
    using key_obliging [OF assms(1), of "o_key_dir opts" s2] key s2(2) by (auto simp: key_file_def)
  then obtain s3 where s3: "load_or_create_store_key S (o_key_dir opts) s2 = (Inr (key_file opts mc), s3)" by blast
  obtain d s4 where s4: "listen S dir (restore_login (daemon_env S) (fresh_daemon s sess w n)) s3 = (Inr d, s4)"
    using listen_obliging [OF assms(1)] by blast
  let ?m2 = "m1\<lparr>mc_files := s2\<rparr>" and ?m3 = "mc\<lparr>mc_files := s3\<rparr>"
  let ?m5 = "?m3\<lparr>mc_dbs := (mc_dbs mc)(db_path dir \<mapsto> f)\<rparr>"
  have stages: "on_files (fs_op S what (\<lambda>s. s)) mc = (Inr (), m1)" "on_files (take_lock S dir) m1 = (Inr (), ?m2)"
    "on_files (load_or_create_store_key S (o_key_dir opts)) ?m2 = (Inr (key_file opts mc), ?m3)"
    "open_session S dir (key_file opts mc) ?m3 = (Inr (s, sess), ?m5)"
    "on_files (listen S dir (restore_login (daemon_env S) (fresh_daemon s sess w n))) ?m5 = (Inr d, ?m5\<lparr>mc_files := s4\<rparr>)" for what
    using assms(1) s2(1) s3 s4 open1 sess
    by (simp_all add: on_files_def m1_def open_session_def open_database_def and_then_def db_path_def [symmetric] database_of_def)
  then show ?thesis
    by (simp add: start_daemon_def and_then_def from_result_def assms(2,3) ok_or_def succeed_def)
qed

lemma created_key:
  "create_key S dir s = (Inr k, s') \<Longrightarrow> \<exists>n. k = Some (key_bytes S n)"
  by (auto simp: create_key_def and_then_def succeed_def Let_def split: prod.splits sum.splits)

lemma start_key_length:
  assumes "obliging S" "start_daemon S opts w n mc = (Inr p, mc')" "o_data_dir opts = Some dir" "key_file opts mc' = Some k"
  shows "length k = 32"
proof -
  from start_stages [OF assms(2,3)] obtain m3 m4 m5 key s sess d where
    key: "on_files (load_or_create_store_key S (o_key_dir opts)) m3 = (Inr key, m4)"
    and o: "open_session S dir key m4 = (Inr (s, sess), m5)"
    and l: "on_files (listen S dir (restore_login (daemon_env S) (fresh_daemon s sess w n))) m5 = (Inr d, mc')"
    and p: "p = serving (daemon_env S) d" by metis
  have "d_store d = d_store (restore_login (daemon_env S) (fresh_daemon s sess w n))"
    using l by (auto simp: on_files_eq listen_def and_then_def succeed_def Let_def split: sum.splits prod.splits)
  then have "s_key (d_store (p_daemon p)) = key" using opened_key(1) [OF o] by (simp add: p serving_def)
  then have "key = Some k"
    using Startup_Laws.started(2) [OF assms(2,3)] assms(4) by (simp add: key_file_def)
  moreover have "length (key_bytes S i) = 32" for i using assms(1) by (simp add: obliging_def)
  ultimately show ?thesis
    using key by (auto simp: on_files_eq load_or_create_store_key_def and_then_def succeed_def Let_def dest!: created_key
        split: if_splits option.splits sum.splits prod.splits)
qed

lemma life_key_length:
  assumes "life S opts dir mc0 mc p" "obliging S" "o_data_dir opts = Some dir"
  shows "key_file opts mc = Some k \<Longrightarrow> length k = 32"
  using assms(1) by induction (auto dest: start_key_length [OF assms(2) _ assms(3)])

lemma reopens:
  assumes "opens_with key t"
  shows "\<exists>f. open_store L path key k (g\<lparr>Migration.d_db := s_db t\<rparr>) = (Inr \<lparr>s_db = s_db t, s_key = key, s_draws = k\<rparr>, f)"
  using assms by (cases key) (auto simp: open_store_def opens_with_def flag_ok_def migrate_columns Let_def)

text \<open>After a kill there is nothing that prevents it.\<close>

lemma starts_again:
  assumes "crypto_lib_ok (vz (daemon_env S))" "sessions_kept (js (daemon_env S))" "obliging S"
    and "o_data_dir opts = Some dir" "\<not> o_reset_store opts" "mc_dbs mc0 (db_path dir) = None" "life S opts dir mc0 mc p"
  shows "\<exists>q mc'. start_daemon S opts w n (killed dir p mc) = (Inr q, mc')"
proof -
  let ?E = "daemon_env S" and ?mc = "killed dir p mc" and ?t = "d_store (p_daemon p)"
  note inv = life_durable [OF assms(7,4,5,6)]
  have files: "key_file opts ?mc = key_file opts mc" by (simp add: key_file_def killed_def)
  from inv assms(1,2) have t: "opens_with (key_file opts mc) ?t"
    "load_session (cipher ?E) (js ?E) ?t = Inr (d_session (p_daemon p))" by (simp_all add: durable_def)
  let ?s = "\<lparr>s_db = s_db ?t, s_key = key_file opts mc, s_draws = mc_salts ?mc\<rparr>"
  have "database_of dir ?mc = (database_of dir mc)\<lparr>Migration.d_db := s_db ?t\<rparr>" by (simp add: database_of_def killed_def)
  with reopens [OF t(1)] obtain f where
    o: "open_store (cipher ?E) (db_path dir) (key_file opts ?mc) (mc_salts ?mc) (database_of dir ?mc) = (Inr ?s, f)"
    unfolding files by metis
  have l: "load_session (cipher ?E) (js ?E) ?s = Inr (d_session (p_daemon p))"
    using t load_session_same [of ?s ?t] by (simp add: opens_with_def)
  have "join_path dir ''kmatrix.lock'' \<notin> fs_locked (mc_files ?mc)" by (simp add: killed_def)
  moreover have "\<exists>k. key_file opts ?mc = Some k \<and> length k = 32" if "o_key_dir opts \<noteq> Some []"
    using inv that life_key_length [OF assms(7,3,4)] files by (cases "key_file opts mc") (auto simp: key_file_def)
  ultimately show ?thesis
    using start_obliging [OF assms(3,4,5) _ _ o l] by blast
qed

end
