(* ===== verification/Restart_Demo.thy ===== *)
theory Restart_Demo
  imports Restart Daemon_Demo
begin

text \<open>
  A life on which the properties of a restart are tried: a client connects to a new installation with
  an encrypted store, shows the token and logs in, and the daemon is killed and started again.
\<close>

definition hello_request :: json where
  "hello_request = obj [(''id'', JInt 1), (''cmd'', JStr ''hello''), (''token'', JStr ''616263'')]"

definition login_request :: json where
  "login_request = obj [(''id'', JInt 2), (''cmd'', JStr ''login''), (''homeserver'', JStr ''https://a.io''),
     (''user'', JStr ''b''), (''password'', JStr ''x'')]"

text \<open>A reader of the two requests, and of all that \<open>unary_json\<close> writes.\<close>

definition life_json :: json_lib where
  "life_json = unary_json\<lparr>json_parse := (\<lambda>t. if t = ''h'' then Inr hello_request
     else if t = ''l'' then Inr login_request else json_parse unary_json t)\<rparr>"

definition life_env :: "string daemon_lib" where
  "life_env = demo_env\<lparr>net := login_net, vz := demo_crypto\<lparr>serde := life_json\<rparr>\<rparr>"

definition life_os :: "string os_lib" where
  "life_os = \<lparr>refuses = (\<lambda>n. None), flock_error = (\<lambda>n. None), key_bytes = (\<lambda>n. replicate 32 CHR ''k''),
     bind_port = (\<lambda>n. Inr 4711), umask_mode = 0x1A4, daemon_env = life_env\<rparr>"

definition life_options :: options where
  "life_options = \<lparr>o_data_dir = Some ''/d'', o_key_dir = Some ''/k'', o_reset_store = False\<rparr>"

definition life_machine :: machine where
  "life_machine = \<lparr>mc_files = \<lparr>fs_data = [''/k/store.key'' \<mapsto> replicate 32 CHR ''k''], fs_mode = (\<lambda>p. 0x180),
       fs_locked = {}, fs_ops = 0\<rparr>, mc_dbs = (\<lambda>p. None), mc_salts = 0\<rparr>"

lemma life_env_parts [simp]:
  "js life_env = life_json" "net life_env = login_net" "cipher life_env = demo_cipher" "sock_ok life_env = (\<lambda>c l. True)"
  "random_token life_env n = ''616263''"
  by (simp_all add: life_env_def demo_env_def demo_crypto_def random_token_def) code_simp

lemma life_libs: "crypto_lib_ok (vz life_env)" "sessions_kept (js life_env)" "obliging life_os" "daemon_env life_os = life_env"
proof -
  show "crypto_lib_ok (vz life_env)" using demo_crypto_ok by (simp add: life_env_def crypto_lib_ok_def)
  have "json_parse life_json (json_print unary_json v) = json_parse unary_json (json_print unary_json v)" for v
    by (cases "to_nat v") (auto simp: life_json_def unary_json_def)
  moreover have "dec_session (json_norm (session_fields x)) = Some x" for x
    by (simp add: session_fields_def obj_def dec_session_def field_def dec_str_def bt_collect_def)
  moreover have "json_print life_json = json_print unary_json" by (simp add: life_json_def)
  ultimately show "sessions_kept (js life_env)"
    using unary_text_ok [of None] by (simp add: sessions_kept_def from_str_def) (simp add: unary_json_def)
  show "obliging life_os" "daemon_env life_os = life_env" by (simp_all add: obliging_def life_os_def)
qed

lemma life_requests:
  "from_str life_json dec_envelope ''h'' = Inr \<lparr>env_id = 1, env_cmd = Hello ''616263''\<rparr>"
  "from_str life_json dec_envelope ''l'' = Inr \<lparr>env_id = 2, env_cmd = Login ''https://a.io'' ''b'' ''x''\<rparr>"
proof -
  have "dec_envelope hello_request = Some \<lparr>env_id = 1, env_cmd = Hello ''616263''\<rparr>"
    "dec_envelope login_request = Some \<lparr>env_id = 2, env_cmd = Login ''https://a.io'' ''b'' ''x''\<rparr>" by code_simp+
  then show "from_str life_json dec_envelope ''h'' = Inr \<lparr>env_id = 1, env_cmd = Hello ''616263''\<rparr>"
    "from_str life_json dec_envelope ''l'' = Inr \<lparr>env_id = 2, env_cmd = Login ''https://a.io'' ''b'' ''x''\<rparr>"
    by (simp_all add: from_str_def life_json_def)
qed

section \<open>The steps of the client\<close>

lemma started_ready:
  assumes "start_daemon S opts w n mc = (Inr p, mc')" "o_data_dir opts = Some dir"
  shows "p_accepting p" "p_conns p = (\<lambda>c. None)" "d_running (p_daemon p)"
    "\<exists>i. d_token (p_daemon p) = Some (random_token (daemon_env S) i)"
proof -
  from start_stages [OF assms] obtain m5 s sess d where
    l: "on_files (listen S dir (restore_login (daemon_env S) (fresh_daemon s sess w n))) m5 = (Inr d, mc')"
    and p: "p = serving (daemon_env S) d" by metis
  have start: "d_running (snd (start_crypto E x)) = d_running x" for E x
    by (simp add: start_crypto_def Let_def split: prod.split sum.split)
  have running: "d_running (restore_login E d) = d_running d" for E d
    by (auto simp: restore_login_def on_net_def start Let_def split: option.split prod.split sum.split)
  show "d_running (p_daemon p)" "\<exists>i. d_token (p_daemon p) = Some (random_token (daemon_env S) i)"
    using l p by (auto simp: on_files_eq listen_def and_then_def succeed_def serving_def running Let_def
        split: sum.splits prod.splits)
  show "p_accepting p" "p_conns p = (\<lambda>c. None)" by (simp_all add: p serving_def)
qed

lemma finish_client_keys [simp]:
  "d_crypto (p_daemon (finish_client c p)) = d_crypto (p_daemon p)" "d_session (p_daemon (finish_client c p)) = d_session (p_daemon p)"
  "d_crypto (p_daemon (stop_serving p)) = d_crypto (p_daemon p)" "d_session (p_daemon (stop_serving p)) = d_session (p_daemon p)"
  by (simp_all add: finish_client_def stop_serving_def on_daemon_def shutdown_def kick_def case_prod_unfold Let_def split: option.split)

lemma life_line:
  assumes "p_conns p c = Some cn" "cn_authed cn" "from_str (js E) dec_envelope line = Inr \<lparr>env_id = i, env_cmd = Login hs u pw\<rparr>"
    "trim line \<noteq> []" "do_login E hs u pw (p_daemon p) = (Inr sess, d')"
  shows "d_crypto (p_daemon (step E (Line c line) p)) = d_crypto d'" "d_session (p_daemon (step E (Line c line) p)) = d_session d'"
proof -
  obtain v cn' d where h: "handle_line E c line cn (p_daemon p) = (v, cn', d)" by (metis surj_pair)
  have "d_crypto d = d_crypto d'" "d_session d = d_session d'"
    using h assms by (auto simp: handle_line_def serve_request_def dispatch_def login_reply_def reply_and_def reply_def
        Let_def split: prod.splits)
  then show "d_crypto (p_daemon (step E (Line c line) p)) = d_crypto d'" "d_session (p_daemon (step E (Line c line) p)) = d_session d'"
    by (simp_all add: client_line_def assms(1) h Let_def split: verdict.split)
qed

lemma life_logs_in:
  assumes "p_accepting p" "p_conns p = (\<lambda>c. None)" "d_running (p_daemon p)" "d_token (p_daemon p) = Some ''616263''"
  shows "\<exists>c sess. d_crypto (p_daemon (step life_env (Line 1 ''l'') (step life_env (Line 1 ''h'') (step life_env (Connected 1) p)))) = Some c
    \<and> d_session (p_daemon (step life_env (Line 1 ''l'') (step life_env (Line 1 ''h'') (step life_env (Connected 1) p)))) = Some sess
    \<and> homeserver sess = ''https://a.io''"
proof -
  let ?p1 = "step life_env (Connected 1) p"
  let ?p2 = "step life_env (Line 1 ''h'') ?p1"
  have lines: "trim ''h'' \<noteq> []" "trim ''l'' \<noteq> []" by code_simp+
  have p1: "p_conns ?p1 1 = Some new_conn" "p_daemon ?p1 = p_daemon p" using assms by (simp_all add: accept_def)
  obtain sub d2 where h: "handle_line life_env 1 ''h'' new_conn (p_daemon p) = (Continue, \<lparr>cn_authed = True, cn_sub = Some sub\<rparr>, d2)"
    using lines assms(4) by (simp add: handle_line_def life_requests greet_def reply_def write_line_def bus_add_def new_conn_def Let_def)
  then have p2: "p_conns ?p2 1 = Some \<lparr>cn_authed = True, cn_sub = Some sub\<rparr>"
    using p1 by (simp add: client_line_def Let_def)
  have texts: "text_ok key (json_print (js life_env) (session_fields x))" for key x
    using life_libs(2) by (auto simp: sessions_kept_def text_ok_def)
  obtain sess d' where l: "do_login life_env ''https://a.io'' ''b'' ''x'' (p_daemon ?p2) = (Inr sess, d')"
      "homeserver sess = ''https://a.io''" "replaced_by life_env (draws_so_far (p_daemon ?p2)) sess d'"
    using login_net_login [of life_env, OF _ life_libs(1) texts] by (metis life_env_parts(2))
  from life_line [OF p2 _ _ lines(2) l(1)] l(2,3) show ?thesis
    by (auto simp: life_requests replaced_by_def)
qed

lemma start_client:
  assumes "start_daemon S opts w n mc = (Inr p, mc')" "o_data_dir opts = Some dir" "\<not> o_reset_store opts"
    and "d_session (p_daemon p) = Some sess" "\<exists>a w'. api_new (net (daemon_env S)) (homeserver sess) w = (Inr a, w')"
  shows "d_api (p_daemon p) \<noteq> None"
proof -
  have api: "d_api (snd (start_crypto E x)) = d_api x" for E x
    by (simp add: start_crypto_def Let_def split: prod.split sum.split)
  obtain s where "d_api (p_daemon p) = d_api (restore_login (daemon_env S) (fresh_daemon s (Some sess) w n))"
    using start_opens [OF assms(1-3)] assms(4) by (auto simp: Let_def)
  then show ?thesis using assms(5) by (auto simp: restore_login_def on_net_def api)
qed

lemma a_life:
  "\<exists>mc p c sess. life life_os life_options ''/d'' life_machine mc p \<and> d_crypto (p_daemon p) = Some c
     \<and> d_session (p_daemon p) = Some sess \<and> homeserver sess = ''https://a.io''"
proof -
  let ?key = "replicate 32 CHR ''k''"
  have path: "key_path (Some ''/k'') = ''/k/store.key''" by code_simp
  have key: "key_file life_options life_machine = Some ?key"
    by (simp add: key_file_def life_options_def life_machine_def path)
  have none: "mc_dbs life_machine (db_path ''/d'') = None" by (simp add: life_machine_def)
  obtain i f where o: "open_store demo_cipher (db_path ''/d'') (Some ?key) 0 empty_disk = (Inr (new_store (Some ?key) i), f)"
    using new_database_opens by blast
  have sess: "load_session demo_cipher life_json (new_store (Some ?key) i) = Inr None"
    by (simp add: load_session_def get_meta_def new_store_meta reveal_opt_def SESSION_KEY_def ENCRYPTED_FLAG_def split: option.split)
  have "\<exists>p mc. start_daemon life_os life_options w 0 life_machine = (Inr p, mc)" for w
    by (rule start_obliging [OF life_libs(3), where dir = "''/d''" and s = "new_store (Some ?key) i" and f = f and sess = None])
      (use key o sess none in \<open>simp_all add: life_libs(4) life_options_def database_of_def, simp_all add: life_machine_def\<close>)
  then obtain p mc where s: "start_daemon life_os life_options \<lparr>w_log = [], w_ticks = 0\<rparr> 0 life_machine = (Inr p, mc)" by blast
  have dir: "o_data_dir life_options = Some ''/d''" by (simp add: life_options_def)
  have "life life_os life_options ''/d'' life_machine mc p" by (rule life.first_run [OF s])
  then have "life life_os life_options ''/d'' life_machine mc
      (step life_env (Line 1 ''l'') (step life_env (Line 1 ''h'') (step life_env (Connected 1) p)))"
    by (metis life.one_step life_libs(4))
  moreover have "d_token (p_daemon p) = Some ''616263''" using started_ready(4) [OF s dir] by (simp add: life_libs(4))
  ultimately show ?thesis using life_logs_in [OF started_ready(1-3) [OF s dir]] by blast
qed

end
