(* ===== verification/Restart_Laws.thy ===== *)
theory Restart_Laws
  imports Restart_Demo
begin

text \<open>
  What an installation keeps through a kill: the keys and sessions of its device, and that it can be
  started again.
\<close>

text \<open>
  C4: A kill loses nothing of the keys. In the whole life of an installation, from the first start on an
  empty data directory through any requests of its clients, answers of the server, kills and further
  starts, a daemon that is killed with a crypto state in memory and started again on the files it
  left either could not reach its homeserver's client and has no crypto state at all, or goes on with
  the one it had: the same device identity and backup key, the same outbound sessions at the same
  message index, every inbound session with its first index, and every Olm session.
\<close>

theorem kill_loses_nothing:
  assumes "crypto_lib_ok (vz (daemon_env S))" "o_data_dir opts = Some dir" "\<not> o_reset_store opts"
    and "mc_dbs mc0 (db_path dir) = None" "life S opts dir mc0 mc p" "d_crypto (p_daemon p) = Some c"
    and "start_daemon S opts w n (killed dir p mc) = (Inr q, mc')"
  shows "if d_api (p_daemon q) = None then d_crypto (p_daemon q) = None
    else \<exists>c'. d_crypto (p_daemon q) = Some c' \<and> resumes (vz (daemon_env S)) c c'"
  using life_durable [OF assms(5,2,3,4)] restart_durable(3) [OF assms(7,2,3) _ _ assms(1,6)] by blast

text \<open>
  C8: A kill never leaves an installation that cannot be started again. Killed at any moment of its
  life, the daemon starts again on what it left unless the operating system refuses something: the
  lock is free, the key file is there and whole, the database opens with it, and the stored session
  is read; and it is the session the killed daemon was logged in with, or none if it had none.
\<close>

theorem killed_daemon_starts_again:
  assumes "crypto_lib_ok (vz (daemon_env S))" "sessions_kept (js (daemon_env S))" "obliging S"
    and "o_data_dir opts = Some dir" "\<not> o_reset_store opts" "mc_dbs mc0 (db_path dir) = None" "life S opts dir mc0 mc p"
  shows "\<exists>q mc'. start_daemon S opts w n (killed dir p mc) = (Inr q, mc') \<and> d_session (p_daemon q) = d_session (p_daemon p)"
proof -
  note inv = life_durable [OF assms(7,4,5,6)]
  obtain q mc' where q: "start_daemon S opts w n (killed dir p mc) = (Inr q, mc')"
    using starts_again [OF assms] by blast
  from restart_durable(4) [OF q assms(4,5) _ _ assms(1,2)] inv q show ?thesis by blast
qed

lemma life_assumptions:
  "o_data_dir life_options = Some ''/d''" "\<not> o_reset_store life_options" "mc_dbs life_machine (db_path ''/d'') = None"
  by (simp_all add: life_options_def life_machine_def)

theorem kill_loses_nothing_witness:
  "\<exists>mc p c q mc' c'. life life_os life_options ''/d'' life_machine mc p \<and> d_crypto (p_daemon p) = Some c
     \<and> start_daemon life_os life_options \<lparr>w_log = [], w_ticks = 0\<rparr> 9 (killed ''/d'' p mc) = (Inr q, mc')
     \<and> d_crypto (p_daemon q) = Some c' \<and> resumes (vz life_env) c c'"
proof -
  let ?w = "\<lparr>w_log = [], w_ticks = 0\<rparr>"
  obtain mc p c sess where p: "life life_os life_options ''/d'' life_machine mc p" "d_crypto (p_daemon p) = Some c"
      "d_session (p_daemon p) = Some sess" "homeserver sess = ''https://a.io''"
    using a_life by blast
  note lib = life_libs(1,2) [folded life_libs(4)]
  obtain q mc' where q: "start_daemon life_os life_options ?w 9 (killed ''/d'' p mc) = (Inr q, mc')"
    using starts_again [OF lib life_libs(3) life_assumptions p(1)] by blast
  have "d_session (p_daemon q) = Some sess"
    using restart_durable(4) [OF q life_assumptions(1,2) _ _ lib] life_durable [OF p(1) life_assumptions] p(3) by simp
  moreover have "\<exists>a w'. api_new (net (daemon_env life_os)) (homeserver sess) ?w = (Inr a, w')"
    using login_net_client [of ?w] p(4) by (auto simp: life_libs(4))
  ultimately have "d_api (p_daemon q) \<noteq> None" by (rule start_client [OF q life_assumptions(1,2)])
  then obtain c' where "d_crypto (p_daemon q) = Some c'" "resumes (vz life_env) c c'"
    using kill_loses_nothing [OF lib(1) life_assumptions p(1,2) q] life_libs(4) by auto
  with p q show ?thesis by blast
qed

theorem killed_daemon_starts_again_witness:
  "\<exists>mc p sess q mc'. life life_os life_options ''/d'' life_machine mc p \<and> d_session (p_daemon p) = Some sess
     \<and> start_daemon life_os life_options \<lparr>w_log = [], w_ticks = 0\<rparr> 9 (killed ''/d'' p mc) = (Inr q, mc')
     \<and> d_session (p_daemon q) = Some sess"
proof -
  obtain mc p sess where p: "life life_os life_options ''/d'' life_machine mc p" "d_session (p_daemon p) = Some sess"
    using a_life by blast
  from killed_daemon_starts_again [OF life_libs(1,2) [folded life_libs(4)] life_libs(3) life_assumptions p(1)] p
  show ?thesis by metis
qed

end
