(* ===== verification/Sweep_Laws.thy ===== *)
theory Sweep_Laws
  imports Daemon_Demo Footprint
begin

text \<open>
  The naming sweep comes to an end: every pass that the server answers deals with the next batch of
  rooms and records how far it came, whatever was renamed on the way, so a sweep of n rooms is done
  after as many passes as there are batches in them.
\<close>

section \<open>The order of the rooms\<close>

lemma collect_ids:
  assumes "collect (read_room L s) rows = Inr rooms"
  shows "map r_id rooms = map rr_id rows"
  using assms by (induction rows arbitrary: rooms) (auto simp: read_room_def bind_ok_eq_Inr)

lemma rooms_after_ids:
  assumes "list_rooms L s = Inr rooms" "distinct (map rr_id (t_room (s_db s)))"
  shows "set (map r_id (rooms_after cur rooms)) = {i \<in> room_ids s. cur < i}"
    "sorted_wrt (<) (map r_id (rooms_after cur rooms))"
proof -
  have ids: "map r_id rooms = map rr_id (order_by (\<lambda>row. (- rr_last_ts row, rr_id row)) (t_room (s_db s)))"
    using assms(1) unfolding list_rooms_def by (rule collect_ids)
  then have set: "r_id ` set rooms = room_ids s"
    by (metis (mono_tags) list.set_map order_by_def room_ids_def set_sort)
  then show "set (map r_id (rooms_after cur rooms)) = {i \<in> room_ids s. cur < i}"
    by (auto simp: rooms_after_def)
  have "distinct (map r_id rooms)" unfolding ids order_by_def by (simp add: distinct_map inj_on_def) (use assms(2) in \<open>auto simp: distinct_map inj_on_def\<close>)
  then have "distinct (map r_id (rooms_after cur rooms))"
    unfolding rooms_after_def by (simp add: distinct_map_filter distinct_map)
      (auto simp: distinct_map inj_on_def)
  moreover have "sorted (map r_id (rooms_after cur rooms))" by (simp add: rooms_after_def)
  ultimately show "sorted_wrt (<) (map r_id (rooms_after cur rooms))"
    by (simp add: strict_sorted_iff)
qed

lemma take_min: "take (min n (length xs)) (map f xs) = map f (take n xs)"
  by (simp add: take_map min_def)

lemma after_last:
  fixes xs :: "'a::linorder list"
  assumes "sorted_wrt (<) xs" "0 < n" "n \<le> length xs"
  shows "{x \<in> set xs. last (take n xs) < x} = set (drop n xs)"
proof -
  let ?a = "take n xs" and ?b = "drop n xs"
  have "sorted_wrt (<) (?a @ ?b)" using assms(1) by simp
  then have s: "sorted_wrt (<) ?a" "\<forall>x \<in> set ?a. \<forall>y \<in> set ?b. x < y" unfolding sorted_wrt_append by blast+
  have "?a \<noteq> []" using assms(2,3) by (cases xs) auto
  then have l: "last ?a \<in> set ?a" by simp
  have "x \<le> last ?a" if "x \<in> set ?a" for x
    using that s(1) \<open>?a \<noteq> []\<close> by (cases ?a rule: rev_cases) (auto simp: sorted_wrt_append)
  moreover have "set xs = set ?a \<union> set ?b" by (metis append_take_drop_id set_append)
  ultimately show ?thesis using s(2) l by fastforce
qed

section \<open>One pass\<close>

text \<open>A server that answers what the sweep asks.\<close>

definition naming_server :: "net_lib \<Rightarrow> api \<Rightarrow> bool" where
  "naming_server N a \<longleftrightarrow>
     (\<forall>u w. \<not> isl (fst (direct_rooms N a u w))) \<and> (\<forall>r w. \<not> isl (fst (room_name N a r w)))
     \<and> (\<forall>r w. \<not> isl (fst (member_names N a r w)))"

text \<open>What a pass leaves alone while it goes through its batch.\<close>

definition same_rooms :: "store \<Rightarrow> store \<Rightarrow> bool" where
  "same_rooms s t \<longleftrightarrow> room_ids t = room_ids s \<and> distinct (map rr_id (t_room (s_db t)))
     \<and> (\<forall>k. meta_of t k = meta_of s k)"

lemma same_rooms_members: "same_rooms s t \<Longrightarrow> same_rooms s (remember_members L i names t)"
  by (simp add: same_rooms_def room_ids_def)

lemma same_rooms_rename:
  assumes "same_rooms s t" "r_id r \<in> room_ids t"
  shows "same_rooms s (upsert_room L r t)"
proof -
  have "room_ids (upsert_room L r t) = room_ids t"
    using room_ids_run [of "UpsertRoom r" L t] assms(2) by (auto simp: insert_absorb)
  moreover have "meta_of (upsert_room L r t) k = meta_of t k" for k
    using meta_of_run [of "UpsertRoom r" k L t] by simp
  moreover have "distinct (map rr_id (t_room (s_db (upsert_room L r t))))"
    using assms(1) by (auto simp: same_rooms_def upsert_room_def on_db_def case_prod_unfold Let_def intro!: distinct_upsert)
  ultimately show ?thesis using assms(1) by (simp add: same_rooms_def)
qed

lemma rename_same:
  assumes "same_rooms s (d_store d)"
  shows "same_rooms s (d_store (snd (rename_room E r x d)))"
proof -
  have "r_id stored \<in> room_ids (d_store d)" if "get_room L (r_id r) (d_store d) = Inr (Some stored)" for L stored
    using that by (auto simp: get_room_def read_room_def room_ids_def bind_ok_eq_Inr intro: image_eqI [OF sym]
        split: option.splits dest!: row_at_SomeD)
  with assms show ?thesis
    by (auto simp: rename_room_def intro!: same_rooms_rename split: option.split sum.split)
qed

lemma answered:
  assumes "naming_server N a"
  shows "\<exists>x d'. on_net (direct_rooms N a u) d = (Inr x, d') \<and> d_store d' = d_store d"
    "\<exists>x d'. on_net (room_name N a r) d = (Inr x, d') \<and> d_store d' = d_store d"
    "\<exists>x d'. on_net (member_names N a r) d = (Inr x, d') \<and> d_store d' = d_store d"
proof -
  have ok: "\<exists>x d'. on_net f d = (Inr x, d') \<and> d_store d' = d_store d"
    if "\<not> isl (fst (f (d_world d)))" for f :: "world \<Rightarrow> (error + 'z) \<times> world"
    using that by (cases "f (d_world d)"; cases "fst (f (d_world d))") (auto simp: on_net_def)
  show "\<exists>x d'. on_net (direct_rooms N a u) d = (Inr x, d') \<and> d_store d' = d_store d"
    "\<exists>x d'. on_net (room_name N a r) d = (Inr x, d') \<and> d_store d' = d_store d"
    "\<exists>x d'. on_net (member_names N a r) d = (Inr x, d') \<and> d_store d' = d_store d"
    using assms ok unfolding naming_server_def by blast+
qed

lemma name_pass_answered:
  assumes "naming_server (net E) a" "same_rooms s (d_store d)"
  shows "case name_pass E a me cp bridge rs n reached d of (Inl e, d') \<Rightarrow> same_rooms s (d_store d')
    | (Inr (k, got, offline), d') \<Rightarrow> \<not> offline \<and> got = (if rs = [] then reached else Some (r_id (last rs)))
        \<and> same_rooms s (d_store d')"
  using assms(2)
proof (induction rs arbitrary: n reached d)
  case (Cons r rs)
  show ?case
  proof (cases "worth_naming cp r (d_store d)")
    case False
    with Cons.IH [OF Cons.prems, where n = n and reached = "Some (r_id r)"] show ?thesis by (auto split: prod.splits sum.splits)
  next
    case True
    obtain given d1 where g: "given_name E a r d = (Inr given, d1)" "d_store d1 = d_store d"
      using answered(2) [OF assms(1), of "r_id r" d] by (cases "r_name r = r_id r") (auto simp: given_name_def)
    obtain members d2 where m: "on_net (member_names (net E) a (r_id r)) d1 = (Inr members, d2)" "d_store d2 = d_store d1"
      using answered(3) [OF assms(1), of "r_id r" d1] by auto
    let ?d3 = "on_store (remember_members (cipher E) (r_id r) members) d2"
    let ?rename = "rename_room E r (wanted_name me bridge given (bt_get cp (r_id r)) members) ?d3"
    obtain q d4 where q: "?rename = (q, d4)" by force
    have "same_rooms s (d_store ?d3)" using Cons.prems g m by (simp add: same_rooms_members)
    then have d4: "same_rooms s (d_store d4)" using rename_same [of s ?d3 E r] q by (metis snd_conv)
    from Cons.IH [OF d4, where n = "n + projr q" and reached = "Some (r_id r)"] d4 q True g m show ?thesis
      by (cases q) (auto split: prod.splits sum.splits)
  qed
qed simp

section \<open>Pass after pass\<close>

abbreviation cursor_now :: "store \<Rightarrow> string" where
  "cursor_now s \<equiv> cursor_of (meta_of s ''room_names_cursor'')"

definition rooms_left :: "store \<Rightarrow> string set" where
  "rooms_left s = {i \<in> room_ids s. cursor_now s < i}"

lemma cursor_recorded [simp]: "cursor_of (Some (NAME_SCHEMA @ CHR '':'' # i)) = i"
proof -
  have 1: "strip_prefix NAME_SCHEMA (NAME_SCHEMA @ CHR '':'' # i) = Some (CHR '':'' # i)" by (rule strip_prefix_append)
  have 2: "strip_prefix '':'' (CHR '':'' # i) = Some i" using strip_prefix_append [of "'':''" i] by simp
  show ?thesis by (simp only: cursor_of_def Option.bind.simps 1 2 option.case)
qed

lemma sweep_metas:
  "secret_meta_label ''room_names_cursor'' = None" "secret_meta_label ''room_names_schema'' = None"
  by code_simp+

lemma meta_of_set_public:
  "secret_meta_label k = None \<Longrightarrow> meta_of (set_meta L k v s) j = (if j = k then Some v else meta_of s j)"
  by (simp add: set_meta_def on_db_def meta_row_put)

lemma rooms_set_meta [simp]: "t_room (s_db (set_meta L k v s)) = t_room (s_db s)"
  by (simp add: set_meta_def on_db_def put_meta_row_def case_prod_unfold Let_def split: option.split)

lemma progress_recorded:
  "room_ids (record_progress E got fin s) = room_ids s"
  "t_room (s_db (record_progress E got fin s)) = t_room (s_db s)"
  "cursor_now (record_progress E got fin s) = (case got of Some i \<Rightarrow> i | None \<Rightarrow> cursor_now s)"
  "meta_of (record_progress E got fin s) ''room_names_schema''
     = (if fin then Some NAME_SCHEMA else meta_of s ''room_names_schema'')"
  by (auto simp: record_progress_def room_ids_def meta_of_set_public sweep_metas Let_def split: option.split)

text \<open>
  A pass fails to read the store and ends the sweep, or finishes it and says so in the store, or
  takes a whole batch off what is left.
\<close>

lemma backfill_answered:
  assumes "naming_server (net E) a" "distinct (map rr_id (t_room (s_db (d_store d))))"
  shows "case backfill_room_names E a me d of (r, d') \<Rightarrow>
    (meta_of (d_store d') ''room_names_schema'' = meta_of (d_store d) ''room_names_schema'' \<or> rooms_left (d_store d') = {})
    \<and> (case r of Inl e \<Rightarrow> True
       | Inr (k, fin) \<Rightarrow> distinct (map rr_id (t_room (s_db (d_store d'))))
          \<and> (fin \<or> NAME_BATCH < card (rooms_left (d_store d))
              \<and> card (rooms_left (d_store d')) + NAME_BATCH = card (rooms_left (d_store d))))"
proof -
  let ?s = "d_store d"
  obtain direct d1 where d1: "on_net (direct_rooms (net E) a me) d = (Inr direct, d1)" "d_store d1 = ?s"
    using answered(1) [OF assms(1)] by blast
  show ?thesis
  proof (cases "list_rooms (cipher E) ?s")
    case (Inl e)
    then show ?thesis
      using d1 by (simp add: backfill_room_names_def next_batch_of_rooms_def read_store_def and_then_def
          get_meta_public [OF sweep_metas(1)] Let_def)
  next
    case (Inr rooms)
    let ?rest = "rooms_after (cursor_now ?s) rooms"
    let ?batch = "take NAME_BATCH ?rest" and ?all = "length ?rest \<le> NAME_BATCH"
    have batch: "next_batch_of_rooms E ?s = Inr (?batch, ?all)"
      by (simp add: next_batch_of_rooms_def get_meta_public [OF sweep_metas(1)] Inr Let_def)
    obtain q d2 where q: "name_pass E a me (counterparts direct) (bridge_users ?s me (counterparts direct)) ?batch 0 None d1 = (q, d2)"
      by force
    have "same_rooms ?s (d_store d1)" using assms(2) d1 by (simp add: same_rooms_def)
    from name_pass_answered [OF assms(1) this, where me = me and cp = "counterparts direct"
        and bridge = "bridge_users ?s me (counterparts direct)" and rs = ?batch and n = 0 and reached = None] q
    have pass: "case q of Inl e \<Rightarrow> same_rooms ?s (d_store d2) | Inr (k, got, offline) \<Rightarrow> \<not> offline
        \<and> got = (if ?batch = [] then None else Some (r_id (last ?batch))) \<and> same_rooms ?s (d_store d2)"
      by (auto split: sum.splits)
    let ?got = "if ?batch = [] then None else Some (r_id (last ?batch))"
    let ?s3 = "record_progress E ?got ?all (d_store d2)"
    have result: "case backfill_room_names E a me d of (r, d') \<Rightarrow>
        same_rooms ?s (d_store d2) \<and> (d_store d' = ?s3 \<or> d_store d' = d_store d2 \<and> isl r)
        \<and> (case r of Inl e \<Rightarrow> True | Inr (k, fin) \<Rightarrow> fin = ?all)"
      using pass d1 q batch
      by (auto simp: backfill_room_names_def and_then_def read_store_def publish_rooms_def Let_def split: sum.splits prod.splits)
    let ?X = "map r_id ?rest" and ?m = "min NAME_BATCH (length ?rest)"
    note X = rooms_after_ids [OF Inr assms(2), of "cursor_now ?s"]
    have left: "rooms_left ?s3 = set (drop ?m ?X)" if same: "same_rooms ?s (d_store d2)"
    proof (cases "?rest = []")
      case True
      then show ?thesis
        using X(1) same by (simp add: rooms_left_def progress_recorded same_rooms_def)
    next
      case False
      have nonempty: "?batch \<noteq> []" "0 < ?m" "?m \<le> length ?X" "take ?m ?X \<noteq> []"
        using False by (simp_all add: NAME_BATCH_def)
      have "map r_id ?batch = take ?m ?X" by (rule take_min [symmetric])
      then have last: "r_id (last ?batch) = last (take ?m ?X)" using last_map [OF nonempty(1), of r_id] by (simp only:)
      have "last (take ?m ?X) \<in> set ?X" by (rule in_set_takeD [OF last_in_set [OF nonempty(4)]])
      then have "cursor_now ?s < last (take ?m ?X)" unfolding X(1) by simp
      then have "{i \<in> room_ids ?s. last (take ?m ?X) < i} = {x \<in> set ?X. last (take ?m ?X) < x}"
        unfolding X(1) by auto
      then show ?thesis
        using after_last [OF X(2) nonempty(2,3)] same nonempty(1)
        by (simp add: rooms_left_def progress_recorded same_rooms_def last)
    qed
    have "distinct ?X" using X(2) by (simp add: strict_sorted_iff)
    then have "card (set (drop ?m ?X)) = length ?X - ?m" by (simp add: distinct_card)
    moreover have "card (rooms_left ?s) = length ?X"
      using distinct_card [OF \<open>distinct ?X\<close>] unfolding X(1) rooms_left_def .
    ultimately show ?thesis using left result
      by (auto simp: progress_recorded same_rooms_def split: sum.splits prod.splits if_splits)
  qed
qed

text \<open>One turn of the loop with nothing in between, and many.\<close>

fun sweep_turns :: "'k daemon_lib \<Rightarrow> api \<Rightarrow> session \<Rightarrow> nat \<Rightarrow> loop_state \<Rightarrow> 'k daemon \<Rightarrow> loop_state \<times> 'k daemon" where
  "sweep_turns E a sess 0 lp d = (lp, d)"
| "sweep_turns E a sess (Suc n) lp d = (case sweep_turn E a sess lp d of (lp', d') \<Rightarrow> sweep_turns E a sess n lp' d')"

lemma sweeps_done: "lp_names_done lp \<Longrightarrow> sweep_turns E a sess n lp d = (lp, d)"
  by (induction n) (simp_all add: sweep_turn_def)

text \<open>
  C17: The naming sweep ends. With a server that answers, and whatever it answers, a sweep that has
  n rooms before it is over after as many passes as there are batches of 25 in n (after one when there
  are none): each pass records the last room it dealt with, and a rename on the way neither loses a
  room nor brings one back. The store says so only when no room is left.
\<close>

theorem naming_sweep_ends:
  assumes "naming_server (net E) a" "distinct (map rr_id (t_room (s_db (d_store d))))"
    and "card (rooms_left (d_store d)) \<le> Suc n * NAME_BATCH"
    and "\<not> lp_names_done lp" "meta_of (d_store d) ''room_names_schema'' \<noteq> Some NAME_SCHEMA"
  shows "case sweep_turns E a sess (Suc n) lp d of (lp', d') \<Rightarrow>
    lp_names_done lp' \<and> (if meta_of (d_store d') ''room_names_schema'' = Some NAME_SCHEMA then rooms_left (d_store d') = {} else True)"
  using assms(2-5)
proof (induction n arbitrary: lp d)
  case 0
  obtain r d1 where r: "backfill_room_names E a (user_id sess) d = (r, d1)" by force
  from backfill_answered [OF assms(1) 0(1), of "user_id sess"] 0 r show ?case
    by (auto simp: sweep_turn_def NAME_BATCH_def split: sum.split)
next
  case (Suc n)
  obtain r d1 where r: "backfill_room_names E a (user_id sess) d = (r, d1)" by force
  note pass = backfill_answered [OF assms(1) Suc.prems(1), of "user_id sess", unfolded r prod.case]
  show ?case
  proof (cases "r = Inr (fst (projr r), False)")
    case True
    then obtain k where k: "r = Inr (k, False)" by blast
    have turn: "sweep_turn E a sess lp d = (lp\<lparr>lp_names_done := False\<rparr>, d1)"
      using Suc.prems(3) by (simp add: sweep_turn_def r k)
    have "card (rooms_left (d_store d1)) \<le> Suc n * NAME_BATCH"
      using pass True Suc.prems(2) by (auto split: sum.splits)
    moreover have "distinct (map rr_id (t_room (s_db (d_store d1))))" "rooms_left (d_store d1) \<noteq> {}"
      using pass True by (auto split: sum.splits)
    moreover have "meta_of (d_store d1) ''room_names_schema'' \<noteq> Some NAME_SCHEMA"
      using pass Suc.prems(4) calculation(3) by simp
    ultimately show ?thesis
      using Suc.IH [of d1 "lp\<lparr>lp_names_done := False\<rparr>"] by (subst sweep_turns.simps) (simp del: sweep_turns.simps add: turn)
  next
    case False
    then obtain lp1 where "sweep_turn E a sess lp d = (lp1, d1)" "lp_names_done lp1"
      using Suc.prems(3) by (cases r) (auto simp: sweep_turn_def r)
    then have "sweep_turns E a sess (Suc (Suc n)) lp d = (lp1, d1)"
      by (subst sweep_turns.simps) (simp del: sweep_turns.simps add: sweeps_done)
    then show ?thesis using pass Suc.prems(4) \<open>lp_names_done lp1\<close> by auto
  qed
qed

text \<open>A server that answers every request with an empty object.\<close>

definition quiet_net :: net_lib where
  "quiet_net = ok_net\<lparr>net_json := ok_json\<lparr>json_parse := (\<lambda>t. Inr (obj []))\<rparr>\<rparr>"

lemma quiet_net_names: "naming_server quiet_net demo_api"
  by (auto simp: naming_server_def direct_rooms_def room_name_def member_names_def fetch_def send_request_def call_def and_then_def
      get_auth_def api_bearer_def demo_api_def quiet_net_def ok_net_def ok_json_def or_404_def finish_def check_status_def
      read_json_def from_str_def obj_def bt_collect_def dec_map_def dec_joined_def dec_option_in_def field_or_def non_empty_def Let_def)

definition sweep_start :: loop_state where
  "sweep_start = \<lparr>lp_backoff = 1, lp_names_done = False\<rparr>"

theorem naming_sweep_ends_witness:
  "room_ids (d_store demo_daemon) = {''r''} \<and> rooms_left (d_store demo_daemon) = {''r''}
   \<and> (case sweep_turns (demo_env\<lparr>net := quiet_net\<rparr>) demo_api demo_session (Suc 0) sweep_start demo_daemon of (lp, d) \<Rightarrow> lp_names_done lp)"
proof -
  have meta: "meta_of demo_store k = None" if "k \<noteq> ENCRYPTED_FLAG" for k
    by (simp add: demo_store_def upsert_room_def protect_def fresh_store_def on_db_def clear_def)
      (simp add: empty_db_def meta_row_def)
  have metas: "meta_of demo_store ''room_names_cursor'' = None" "meta_of demo_store ''room_names_schema'' = None"
    by (rule meta; code_simp)+
  have rooms: "room_ids demo_store = {''r''}" "distinct (map rr_id (t_room (s_db demo_store)))"
    by (simp_all add: room_ids_def demo_store_room)
  have left: "rooms_left demo_store = {''r''}" by (auto simp: rooms_left_def rooms metas cursor_of_def)
  let ?E = "demo_env\<lparr>net := quiet_net\<rparr>"
  have "naming_server (net ?E) demo_api" by (simp add: quiet_net_names)
  then have "case sweep_turns ?E demo_api demo_session (Suc 0) sweep_start demo_daemon of (lp, d) \<Rightarrow>
      lp_names_done lp \<and> (if meta_of (d_store d) ''room_names_schema'' = Some NAME_SCHEMA then rooms_left (d_store d) = {} else True)"
    by (rule naming_sweep_ends) (simp_all add: rooms metas left sweep_start_def NAME_BATCH_def)
  then show ?thesis unfolding demo_daemon_parts(1) using rooms(1) left by (simp only: case_prod_unfold)
qed

end
