(* ===== verification/Findings.thy ===== *)
theory Findings
  imports Account_Laws Timeline_Laws Secret_Laws Verification_Laws
begin

text \<open>
  Behaviours of the code that its comments and documents do not describe, each shown on the model.
\<close>

text \<open>
  An answer to a long-poll that arrives after the account was logged out is still processed: its token
  goes into the wiped store (or into the store of whoever logged in since).
\<close>

lemma late_answer_after_logout:
  assumes "sr_join resp = []" "sr_to_device resp = []"
  shows "get_meta (cipher E) ''sync_token'' (d_store (snd (process_sync E a sess resp (do_logout E d)))) = Inr (Some (next_batch resp))"
proof -
  have public: "secret_meta_label ''sync_token'' = None" "secret_meta_label ''device_keys_published'' = None" by code_simp+
  have "d_crypto (do_logout E d) = None" by (simp add: do_logout_def Let_def)
  then show ?thesis
    using assms
    by (simp add: process_sync_def receive_to_device_def maintain_otks_def and_then_def read_store_def Let_def
        get_meta_public [OF public(1)] get_meta_public [OF public(2)] meta_of_set [OF public(1)])
qed

text \<open>A shared backup key is adopted unchecked when the server does not say which backup there is.\<close>

lemma shared_key_adopted_unchecked:
  assumes "d_crypto d = Some c" "no_pad_decode (vz E) (unpadded secret) = Inr raw" "length raw = 32"
  shows "\<exists>d'. adopt_secret E secret None c d = (Inr (), d') \<and> d_crypto d' = Some (c\<lparr>k_backup_key := Some (pk_from_key (vz E) raw)\<rparr>)"
  using assms by (simp add: adopt_secret_def on_crypto_def set_backup_key_base64_def store_backup_key_def Let_def)

text \<open>
  A MAC message that covers no signing key the daemon knows of that user is taken as their proof: only
  the MAC over the list of key ids has to be right. So a device is reported as verified although
  nothing ties the emoji to its signing key.
\<close>

lemma unknown_keys_verify:
  assumes "k_verifications c t = Some v" "vf_established v = Some est"
    and "get_obj ''mac'' content = Some macs" "get_str ''keys'' content = Some keys_mac"
    and "mac_right V est (join '','' (sort (map fst macs))) (mac_info (vf_their_user v) (vf_their_device v) me dev t @ ''KEY_IDS'') keys_mac"
    and "\<And>i. i \<in> fst ` set macs \<Longrightarrow> \<exists>mac. bt_get macs i = Some (JStr mac)"
    and "\<And>device. (''ed25519:'' @ device) \<in> fst ` set macs \<Longrightarrow> k_device_ed_keys c (vf_their_user v, device) = None"
  shows "verification_mac V t me dev content c = settle t (v\<lparr>vf_they_sent_mac := True\<rparr>) (drop_entry t c)"
proof -
  let ?info = "mac_info (vf_their_user v) (vf_their_device v) me dev t"
  have "\<forall>i \<in> fst ` set macs. \<exists>mac. bt_get macs i = Some (JStr mac) \<and> (\<forall>device key. i = ''ed25519:'' @ device
      \<longrightarrow> k_device_ed_keys c (vf_their_user v, device) = Some key \<longrightarrow> mac_right V est key (?info @ i) mac)"
  proof
    fix i assume i: "i \<in> fst ` set macs"
    then obtain mac where mac: "bt_get macs i = Some (JStr mac)" using assms(6) by blast
    have "k_device_ed_keys c (vf_their_user v, device) = None" if "i = ''ed25519:'' @ device" for device
      using assms(7) [of device] i unfolding that .
    with mac show "\<exists>mac. bt_get macs i = Some (JStr mac) \<and> (\<forall>device key. i = ''ed25519:'' @ device
        \<longrightarrow> k_device_ed_keys c (vf_their_user v, device) = Some key \<longrightarrow> mac_right V est key (?info @ i) mac)" by auto
  qed
  with assms(3-5) have "macs_verified V me dev t est v c content" unfolding macs_verified_def by blast
  then show ?thesis using assms(1-4) unfolding macs_verified_code by (simp add: verification_mac_def Let_def)
qed

text \<open>
  A message recovered from the backup is shown with its own text even when it is an edit of another,
  while the same event decrypted on arrival is recorded as an edit and not shown.
\<close>

definition edit_plaintext :: json where
  "edit_plaintext = obj [(''type'', JStr ''m.room.message''), (''content'', obj [(''body'', JStr ''* new''),
     (''m.relates_to'', obj [(''rel_type'', JStr ''m.replace''), (''event_id'', JStr ''$e'')])])]"

lemma recovered_edit_is_shown:
  assumes "d_crypto d = Some c" "decrypt_event E sid ct d = (Inr text, d1)" "json_parse (js E) text = Inr edit_plaintext"
  shows "d_store (snd (retry_messages E [(event_id, sid, ct)] d)) = upgrade_message (cipher E) event_id ''* new'' (d_store d1)"
  using assms
  by (simp add: plaintext_body_def edit_plaintext_def obj_def bt_collect_def get_str_def and_then_def succeed_def)

text \<open>Without a key, a text that looks like a sealed value makes its room unreadable.\<close>

definition lookalike :: message where
  "lookalike = demo_message\<lparr>m_room := ''r'', m_body := ''k1:'', m_ciphertext := None\<rparr>"

lemma lookalike_blocks_room:
  "\<exists>e. recent_messages demo_cipher ''r'' 10 (insert_message demo_cipher lookalike (fresh_store None)) = Inl e"
proof -
  have "\<exists>row. newest_rows (\<lambda>row. mr_room row = ''r'') 10 (insert_message demo_cipher lookalike (fresh_store None)) = [row] \<and> mr_body row = ''k1:''"
    by (simp add: lookalike_def demo_message_def newest_rows_def insert_message_def protect_def protect_opt_def fresh_store_def clear_def
        on_db_def empty_db_def upsert_def row_at_def coalesce_edit_def edit_body_def order_desc_def order_by_def)
  moreover have "s_key (insert_message demo_cipher lookalike (fresh_store None)) = None"
    using key_run_write [of demo_cipher "InsertMessage lookalike" "fresh_store None"] by (simp add: fresh_store_def)
  ultimately show ?thesis
    by (auto simp: recent_messages_def read_message_def reveal_def unseal_def strip_prefix_def ENC_PREFIX_def)
qed

text \<open>A failed login reports the daemon as logged out while the account before it stays in use.\<close>

lemma failed_login_reports_logged_out:
  assumes "do_login E hs user pw d = (Inl e, d1)"
  shows "d_state (snd (login_reply E i hs user pw d)) = LoggedOut
    \<and> d_session (snd (login_reply E i hs user pw d)) = d_session d1 \<and> d_api (snd (login_reply E i hs user pw d)) = d_api d1"
  by (simp add: login_reply_def assms)

text \<open>An address with a blank before its slash keeps the blank.\<close>

lemma blank_kept_in_address: "normalize_base ''example.org /'' = Inr ''https://example.org ''"
  by code_simp

text \<open>An event stored again after its key was lost replaces the text by the placeholder.\<close>

lemma stored_again_locked:
  assumes "row_at mr_event_id i (t_message (s_db s)) = Some row" "m_event_id m = i" "\<not> m_decrypted m"
  shows "\<exists>row'. row_at mr_event_id i (t_message (s_db (insert_message L m s))) = Some row' \<and> \<not> mr_decrypted row'"
  using assms
  by (auto simp: insert_message_def protect_def protect_opt_def on_db_def case_prod_unfold Let_def row_at_upsert split: option.split)

text \<open>
  The outbound session exists as soon as its key was prepared for sharing. When the request that
  carries the key fails, the next message to the room finds the session and goes out without it.
\<close>

lemma share_key_outbound: "k_outbound (fst (snd (share_key V content u dev ds ms cs))) = k_outbound (fst cs)"
proof (induction ds arbitrary: ms cs)
  case (Cons d ds)
  have "k_outbound (fst (snd (olm_encrypt V curve p cs))) = k_outbound (fst cs)" for curve p
    by (auto simp: olm_encrypt_def save_session_pickle_def Let_def case_prod_unfold split: option.split list.split sum.split)
  then have kept: "k_outbound (fst cs') = k_outbound (fst cs)" if "olm_encrypt V curve p cs = (r, cs')" for curve p r cs'
    using that by (metis snd_conv)
  show ?case
    by (auto simp: Let_def Cons.IH split: sum.split prod.split dest: kept)
qed simp

lemma failed_share_not_repeated:
  assumes "d_crypto d = Some c" "with_crypto (total (encrypt_room_key_to_devices (vz E) room devices u dev)) d = (Inr messages, d1)"
    and "on_net (send_to_device (net E) a k txn messages) d1 = (Inl e, d2)"
  shows "\<exists>c'. d_crypto d2 = Some c' \<and> has_outbound room c'"
proof -
  obtain x cs where g: "get_or_create_outbound (vz E) room (c, d_store d) = (x, cs)" by (metis surj_pair)
  then have "k_outbound (fst cs) room \<noteq> None"
    by (auto simp: get_or_create_outbound_def Let_def split: option.splits prod.splits)
  then have "k_outbound (fst (snd (encrypt_room_key_to_devices (vz E) room devices u dev (c, d_store d)))) room \<noteq> None"
    by (simp add: encrypt_room_key_to_devices_def g case_prod_unfold Let_def share_key_outbound)
  with assms(1,2) have "\<exists>c'. d_crypto d1 = Some c' \<and> has_outbound room c'"
    by (auto simp: with_crypto_def on_crypto_def total_def has_outbound_def case_prod_unfold Let_def)
  then show ?thesis using assms(3) by (auto simp: on_net_def Let_def split: prod.splits)
qed

end
