(* ===== verification/Spec2Isabelle.thy ===== *)
theory Spec2Isabelle
  imports Store_Laws Migration Api Crypto_Demo Verification_Laws Crypto_Restart Crypto_Contracts Startup Sync_Laws Action_Laws Frames Ipc_Laws Account_Laws Timeline_Laws Startup_Laws Secret_Laws Restart_Laws Sweep_Laws Findings
begin

text \<open>
  A verification of kmatrixd, the Matrix daemon for e-readers under \<open>src/daemon\<close>. The daemon keeps an
  account's messages in an encrypted SQLite store, talks to a homeserver over HTTP, does end-to-end
  encryption with vodozemac, and serves a plugin over a line protocol on the loopback interface.

  \<^bold>\<open>The parts and their theories.\<close>

  \<^item> \<^bold>\<open>Foundations.\<close> \<open>Prelude\<close>: results (\<open>error + 'a\<close>), actions that carry their state through error
    paths (\<open>and_then\<close>, \<open>keeps\<close>), ordered maps. \<open>Table\<close>: keyed rows, upsert, update, order and limit, with
    the interfaces \<open>key_value\<close> and \<open>simulation\<close>. \<open>Rust_Text\<close>: strings as UTF-8 bytes and the string
    operations the code uses. \<open>Json\<close>: JSON values, serde as a parameter with its round-trip law, canonical
    JSON. \<open>Sha256\<close>, \<open>Recovery_Key\<close>: the hand-written SHA-256 and base58 of \<open>crypto.rs\<close>.
  \<^item> \<^bold>\<open>Data and storage.\<close> \<open>Model\<close>: \<open>model.rs\<close> with the decoders serde derives. \<open>Seal\<close>: the encryption of
    single values in \<open>store.rs\<close>. \<open>Store\<close>: its tables as lists of rows, one definition per operation;
    a disk value is the byte string SQLite would hold. \<open>Store_View\<close>: the abstract store, plain tables
    without encryption, which every write refines. \<open>Store_Laws\<close>: edits, pagination, sessions, the wipe, order.
    \<open>Migration\<close>: \<open>Store::open\<close>, added columns and the encryption of an old database in chunks.
    \<open>Store_Frame\<close>: what one write leaves alone.
  \<^item> \<^bold>\<open>Homeserver.\<close> \<open>Http_Util\<close> and \<open>Api\<close>: \<open>api.rs\<close>. The server is a function of the log of all requests so
    far, so it may answer anything, at any time, and remember everything.
  \<^item> \<^bold>\<open>Encryption.\<close> \<open>Crypto_Lib\<close> names what is used of vodozemac and its laws; \<open>Crypto_State\<close> and
    \<open>Crypto_Share\<close> are the operations of \<open>crypto.rs\<close> on the state in memory together with the store;
    \<open>Verification\<close> is the emoji verification as a state machine. \<open>Crypto_Laws\<close>, \<open>Crypto_Restart\<close>,
    \<open>Crypto_Contracts\<close> and \<open>Verification_Laws\<close> prove their contracts. \<open>Emoji\<close> is the table of \<open>emoji.rs\<close>.
  \<^item> \<^bold>\<open>The daemon.\<close> \<open>Shared\<close>: the state the threads share (\<open>Shared\<close>, \<open>Bus\<close>) and the steps an operation is
    made of, one per lock that is held. \<open>Naming\<close>, \<open>Timeline\<close>, \<open>Devices\<close>, \<open>Sync\<close>, \<open>Sweep\<close>, \<open>Actions\<close>: the
    functions of \<open>main.rs\<close>, under their names. \<open>Ipc\<close>: \<open>ipc.rs\<close> and the process, a transition system over
    connections, lines, hang-ups and the two halves of a turn of the sync loop. \<open>Startup\<close>: the command
    line, lock, key file, port file and the run from start to end.
  \<^item> \<^bold>\<open>What the daemon guarantees.\<close> \<open>Footprint\<close>, \<open>Footprint_Daemon\<close>, \<open>Footprint_Sync\<close>: which kinds of write
    each operation makes (\<open>wrote\<close>). \<open>Steps\<close>: the elementary steps everything is made of, a single write
    to the store (\<open>daemon_write\<close>) and a single operation of the crypto state (\<open>crypto_step\<close>). \<open>Frames\<close>: the
    interfaces \<open>daemon_frame\<close> and \<open>account_frame\<close> of predicates those steps keep, proved kept by every
    operation once, and interpreted for the account and for the process around it. On these rest
    \<open>Sync_Laws\<close>, \<open>Action_Laws\<close>, \<open>Account_Laws\<close>, \<open>Timeline_Laws\<close>, \<open>Secret_Laws\<close>, \<open>Ipc_Laws\<close> and
    \<open>Startup_Laws\<close>; \<open>Sweep_Laws\<close> counts what each pass of the naming sweep leaves to do, and
    \<open>Event_Laws\<close> what an event becomes: skipped, a message, a placeholder or an edit. \<open>Findings\<close> shows
    behaviours the code does not mean to have. \<open>Crypto_Demo\<close> and \<open>Daemon_Demo\<close> are the concrete
    libraries, store and daemon on which the properties that assume something are tried.
  \<^item> \<^bold>\<open>An installation over its life.\<close> \<open>Durability\<close>: the interface \<open>process_frame\<close> of predicates that every
    step of the running process keeps, and the one that matters, \<open>durable\<close>: the store opens with the key
    the daemon holds and gives back the session and the crypto state in memory. \<open>Restart\<close>: the relation
    \<open>life\<close> over starts, steps of the process and kills; a start on what a killed daemon left is durable
    again. \<open>Restart_Laws\<close> has the two properties, \<open>Restart_Demo\<close> a machine on which they are tried.

  \<^bold>\<open>How the code is modelled.\<close> A \<open>Result\<close> is a sum with the error of \<open>anyhow\<close>, its contexts included, on the
  left. A function that changes state returns the state on every path, so an early return keeps what was
  written before it. Integers that can wrap are words (the release profile does not check overflow);
  timestamps in the database are 64-bit columns read back as the code does. SQLite's tables are lists in
  row order; a transaction is one function. \<open>HashMap\<close>s are partial maps; where the code iterates over one,
  the order is that of the list the model holds. Randomness and clocks are functions of a counter.

  \<^bold>\<open>What is assumed.\<close> Of serde, base64 and vodozemac only the laws collected in \<open>json_lib_ok\<close>,
  \<open>cipher_ok\<close> and \<open>crypto_lib_ok\<close>, each met by the concrete libraries of the demo theories: what is printed
  parses back, what is pickled unpickles, decryption undoes encryption, a tampered MAC is refused. No law
  about the network is assumed except where a property says so: a history that ends, a server that
  answers the naming sweep (\<open>naming_server\<close>). That a killed daemon starts again assumes that the operating
  system refuses nothing (\<open>obliging\<close>) and that a stored session is read back as it was (\<open>sessions_kept\<close>).

  \<^bold>\<open>Interleaving.\<close> The sync loop holds no lock while a poll is open, so a turn is two steps of the process
  and clients are served in between; the answer is then processed against whatever the daemon is by then.
  The work after an answer, and one request of a client, are single steps. Finer interleavings of their
  locks are not modelled. A kill comes between two steps, and the database file it leaves is what the store
  held then (every write of the code is a transaction of SQLite); a kill in the middle of a step is not
  modelled.

  \<^bold>\<open>Termination.\<close> Every definition is total: loops of the code are recursions on lists, or on a bound that
  the proof of termination gives. No fuel is used. That paging ends, and that the naming sweep does
  (after one pass per batch of 25 rooms), are properties of their own, since both rest on the server.

  \<^bold>\<open>Not modelled.\<close> TLS, timeouts and redirects (inside ureq); the SQLite engine, its pragmas and its I/O
  failures; poisoned locks (a panic aborts the process); output to the terminal; the positional form of a
  struct that serde also accepts; the plugin in Lua, the scripts and the build.
\<close>

end
